(* ===== verification/Prelude.thy ===== *)
theory Prelude
  imports Main "HOL-Library.Word" "HOL-Library.AList"
begin

text \<open>
  The vocabulary every component shares: machine integers and byte strings, the byte-level
  functions of Rust's standard library the source calls (\<open>slice::get\<close>, \<open>strip_prefix\<close>,
  \<open>split\<close>, \<open>to_le_bytes\<close>, \<open>str::from_utf8\<close>, \<open>str::parse\<close>), and the hash map, an association
  list whose order is one of the orders in which the source may iterate.
\<close>

unbundle bit_operations_syntax

named_theorems byte_simps \<open>lengths and slices of byte strings\<close>
named_theorems parse_simps \<open>facts about the byte-level parsing functions\<close>

section \<open>Integers and byte strings\<close>

type_synonym u8 = "8 word"
type_synonym u16 = "16 word"
type_synonym u32 = "32 word"
type_synonym u64 = "64 word"
type_synonym i64 = "64 word" \<comment> \<open>read with \<open>sint\<close>, compared with \<open><s\<close> and \<open>\<le>s\<close>\<close>
type_synonym bytes = "u8 list"

text \<open>A byte-string literal \<open>b"..."\<close>.\<close>

definition ascii :: "string \<Rightarrow> bytes" where
  "ascii s = map of_char s"

lemma length_ascii [simp, byte_simps]: "length (ascii s) = length s"
  by (simp add: ascii_def)

lemma ascii_append: "ascii (s @ t) = ascii s @ ascii t"
  by (simp add: ascii_def)

subsection \<open>Little-endian integers (\<open>to_le_bytes\<close>, \<open>from_le_bytes\<close>)\<close>

primrec to_le :: "nat \<Rightarrow> nat \<Rightarrow> bytes" where
  "to_le 0 x = []"
| "to_le (Suc n) x = word_of_nat x # to_le n (x div 256)"

primrec from_le :: "bytes \<Rightarrow> nat" where
  "from_le [] = 0"
| "from_le (b # bs) = unat b + 256 * from_le bs"

lemma length_to_le [simp, byte_simps]: "length (to_le n x) = n"
  by (induction n arbitrary: x) auto

lemma u8_bound [simp]: "unat (b :: u8) < 256"
  using unsigned_less [of b] by simp

lemma unat_u8_of_nat: "unat (word_of_nat x :: u8) = x mod 256"
  by (simp add: unat_of_nat)

lemma from_le_to_le: "from_le (to_le n x) = x mod 256 ^ n"
proof (induction n arbitrary: x)
  case 0
  then show ?case by simp
next
  case (Suc n)
  have "x mod 256 + 256 * (x div 256 mod 256 ^ n) = x mod (256 * 256 ^ n)"
    by (simp add: mod_mult2_eq)
  then show ?case by (simp add: Suc.IH unat_u8_of_nat)
qed

lemma from_le_bound: "from_le bs < 256 ^ length bs"
proof (induction bs)
  case Nil
  then show ?case by simp
next
  case (Cons b bs)
  have "unat b + 256 * from_le bs < 256 * 256 ^ length bs"
    using Cons.IH u8_bound [of b] by linarith
  then show ?case by simp
qed

lemma to_le_from_le: "to_le (length bs) (from_le bs) = bs"
proof (induction bs)
  case Nil
  then show ?case by simp
next
  case (Cons b bs)
  have b: "unat b < 256" by simp
  have "(word_of_nat (unat b + 256 * from_le bs) :: u8) = word_of_nat (unat b)"
    by (rule word_unat_eq_iff [THEN iffD2]) (simp only: unat_u8_of_nat mod_mult_self2)
  with b Cons.IH show ?case by simp
qed

lemma to_le_inj: "to_le n x = to_le n y \<Longrightarrow> x < 256 ^ n \<Longrightarrow> y < 256 ^ n \<Longrightarrow> x = y"
  by (metis from_le_to_le mod_less)

lemma to_le_snoc: "to_le (Suc n) x = to_le n x @ [word_of_nat (x div 256 ^ n)]"
proof (induction n arbitrary: x)
  case 0
  then show ?case by simp
next
  case (Suc n)
  have "to_le (Suc (Suc n)) x = word_of_nat x # to_le (Suc n) (x div 256)" by simp
  also have "\<dots> = word_of_nat x # to_le n (x div 256) @ [word_of_nat (x div 256 div 256 ^ n)]"
    by (simp only: Suc.IH)
  finally show ?case by (simp add: div_mult2_eq)
qed

section \<open>Slices\<close>

text \<open>\<open>s.get(i..i + n)\<close>: \<open>None\<close> when the range leaves the slice.\<close>

definition get_range :: "'a list \<Rightarrow> nat \<Rightarrow> nat \<Rightarrow> 'a list option" where
  "get_range xs i n = (if i + n \<le> length xs then Some (take n (drop i xs)) else None)"

text \<open>\<open>s.get(i)\<close>.\<close>

definition get_at :: "'a list \<Rightarrow> nat \<Rightarrow> 'a option" where
  "get_at xs i = (if i < length xs then Some (xs ! i) else None)"

text \<open>\<open>s.first()\<close>.\<close>

definition first :: "'a list \<Rightarrow> 'a option" where
  "first xs = get_at xs 0"

lemma first_simps [simp]: "first [] = None" "first (x # xs) = Some x"
  by (simp_all add: first_def get_at_def)

lemma get_range_0_append [simp, byte_simps]: "get_range (xs @ ys) 0 (length xs) = Some xs"
  by (simp add: get_range_def)

lemma get_range_length: "get_range xs i n = Some ys \<Longrightarrow> length ys = n"
  by (auto simp: get_range_def split: if_splits)

lemma get_range_append2 [byte_simps]:
  "length xs \<le> i \<Longrightarrow> get_range (xs @ ys) i n = get_range ys (i - length xs) n"
  by (auto simp: get_range_def)

lemma get_range_append1 [byte_simps]:
  "i + n \<le> length xs \<Longrightarrow> get_range (xs @ ys) i n = Some (take n (drop i xs))"
  by (auto simp: get_range_def)

text \<open>\<open>s.strip_prefix(p)\<close>.\<close>

definition strip_prefix :: "'a list \<Rightarrow> 'a list \<Rightarrow> 'a list option" where
  "strip_prefix p xs = (if take (length p) xs = p then Some (drop (length p) xs) else None)"

lemma strip_prefix_append [simp, parse_simps]: "strip_prefix p (p @ xs) = Some xs"
  by (simp add: strip_prefix_def)

lemma strip_prefix_eq_Some: "strip_prefix p xs = Some ys \<longleftrightarrow> xs = p @ ys"
  by (auto simp: strip_prefix_def) (metis append_take_drop_id)

text \<open>\<open>s.starts_with(p)\<close>.\<close>

definition starts_with :: "'a list \<Rightarrow> 'a list \<Rightarrow> bool" where
  "starts_with p xs \<longleftrightarrow> take (length p) xs = p"

lemma starts_with_iff: "starts_with p xs \<longleftrightarrow> (\<exists>ys. xs = p @ ys)"
  by (auto simp: starts_with_def) (metis append_take_drop_id)

text \<open>\<open>s.iter().position(|b| b == c)\<close>.\<close>

fun position :: "('a \<Rightarrow> bool) \<Rightarrow> 'a list \<Rightarrow> nat option" where
  "position p [] = None"
| "position p (x # xs) = (if p x then Some 0 else map_option Suc (position p xs))"

lemma position_SomeD:
  "position p xs = Some i \<Longrightarrow> i < length xs \<and> p (xs ! i) \<and> (\<forall>x \<in> set (take i xs). \<not> p x)"
  by (induction xs arbitrary: i) (auto split: if_splits)

lemma position_None [parse_simps]: "position p xs = None \<longleftrightarrow> (\<forall>x \<in> set xs. \<not> p x)"
  by (induction xs) auto

lemma position_append_hit [parse_simps]:
  "(\<forall>x \<in> set xs. \<not> p x) \<Longrightarrow> p y \<Longrightarrow> position p (xs @ y # ys) = Some (length xs)"
  by (induction xs) auto

text \<open>
  \<open>s.split(|b| b == c)\<close>: the pieces between the separators, at least one piece.
\<close>

fun split_on :: "'a \<Rightarrow> 'a list \<Rightarrow> 'a list list" where
  "split_on c [] = [[]]"
| "split_on c (x # xs) =
     (if x = c then [] # split_on c xs
      else case split_on c xs of [] \<Rightarrow> [[x]] | p # ps \<Rightarrow> (x # p) # ps)"

lemma split_on_neq_Nil [simp]: "split_on c xs \<noteq> []"
  by (induction xs) (auto split: list.splits)

lemma split_on_no_sep [parse_simps]: "c \<notin> set xs \<Longrightarrow> split_on c xs = [xs]"
  by (induction xs) auto

lemma split_on_append [parse_simps]:
  "c \<notin> set xs \<Longrightarrow> split_on c (xs @ c # ys) = xs # split_on c ys"
  by (induction xs) auto

lemma split_on_pieces: "p \<in> set (split_on c xs) \<Longrightarrow> c \<notin> set p"
proof (induction xs arbitrary: p)
  case Nil
  then show ?case by simp
next
  case (Cons x xs)
  then show ?case by (cases "split_on c xs") (auto split: if_splits)
qed

text \<open>The pieces joined by the separator: the inverse of \<open>split_on\<close>.\<close>

fun join_with :: "'a \<Rightarrow> 'a list list \<Rightarrow> 'a list" where
  "join_with c [] = []"
| "join_with c [p] = p"
| "join_with c (p # q # ps) = p @ c # join_with c (q # ps)"

lemma join_with_Cons: "ps \<noteq> [] \<Longrightarrow> join_with c (p # ps) = p @ c # join_with c ps"
  by (cases ps) auto

lemma join_split_on [parse_simps]: "join_with c (split_on c xs) = xs"
proof (induction xs)
  case Nil
  then show ?case by simp
next
  case (Cons x xs)
  obtain p ps where e: "split_on c xs = p # ps"
    by (meson neq_Nil_conv split_on_neq_Nil)
  with Cons.IH show ?case by (cases ps) auto
qed

lemma split_join_with [parse_simps]:
  "ps \<noteq> [] \<Longrightarrow> (\<forall>p \<in> set ps. c \<notin> set p) \<Longrightarrow> split_on c (join_with c ps) = ps"
  by (induction c ps rule: join_with.induct) (auto simp: parse_simps)

section \<open>Literals\<close>

lemma of_char_u8_inj: "(of_char c :: u8) = of_char d \<longleftrightarrow> c = d"
  by (metis of_char_eq_iff of_char_mod_256 of_nat_of_char unat_u8_of_nat)

lemma ascii_inj [simp]: "ascii s = ascii t \<longleftrightarrow> s = t"
  by (simp add: ascii_def inj_map_eq_map inj_on_def of_char_u8_inj)

lemma ascii_eq_Nil [simp]: "ascii s = [] \<longleftrightarrow> s = []"
  by (simp add: ascii_def)

end
