(* ===== verification/Rust_Std.thy ===== *)
theory Rust_Std
  imports Prelude
begin

text \<open>
  The rest of Rust's standard library the source uses: ASCII classes, UTF-8 validation and
  lossy decoding, integer parsing, checked arithmetic and the hash map.
  Integer arithmetic is that of a release build: it wraps at the width of the type.
\<close>

section \<open>ASCII classes\<close>

definition is_ascii_digit :: "u8 \<Rightarrow> bool" where
  "is_ascii_digit b \<longleftrightarrow> 48 \<le> b \<and> b \<le> 57"

definition is_ascii_lowercase :: "u8 \<Rightarrow> bool" where
  "is_ascii_lowercase b \<longleftrightarrow> 97 \<le> b \<and> b \<le> 122"

text \<open>\<open>(b'a'..=b'f').contains(b)\<close>.\<close>

definition is_lower_af :: "u8 \<Rightarrow> bool" where
  "is_lower_af b \<longleftrightarrow> 97 \<le> b \<and> b \<le> 102"

definition is_ascii_hexdigit :: "u8 \<Rightarrow> bool" where
  "is_ascii_hexdigit b \<longleftrightarrow> is_ascii_digit b \<or> is_lower_af b \<or> (65 \<le> b \<and> b \<le> 70)"

lemmas ascii_class_defs =
  is_ascii_digit_def is_ascii_lowercase_def is_lower_af_def is_ascii_hexdigit_def

section \<open>UTF-8\<close>

definition byte_or_0 :: "bytes \<Rightarrow> nat \<Rightarrow> u8" where
  "byte_or_0 xs i = (if i < length xs then xs ! i else 0)"

definition is_cont :: "u8 \<Rightarrow> bool" where
  "is_cont b \<longleftrightarrow> 128 \<le> b \<and> b \<le> 191"

text \<open>Which second bytes may follow the lead byte of a three- or four-byte sequence.\<close>

definition second_of_3 :: "u8 \<Rightarrow> u8 \<Rightarrow> bool" where
  "second_of_3 b c \<longleftrightarrow>
     (b = 0xE0 \<and> 0xA0 \<le> c \<and> c \<le> 0xBF) \<or> (0xE1 \<le> b \<and> b \<le> 0xEC \<and> is_cont c) \<or>
     (b = 0xED \<and> 0x80 \<le> c \<and> c \<le> 0x9F) \<or> (0xEE \<le> b \<and> b \<le> 0xEF \<and> is_cont c)"

definition second_of_4 :: "u8 \<Rightarrow> u8 \<Rightarrow> bool" where
  "second_of_4 b c \<longleftrightarrow>
     (b = 0xF0 \<and> 0x90 \<le> c \<and> c \<le> 0xBF) \<or> (0xF1 \<le> b \<and> b \<le> 0xF3 \<and> is_cont c) \<or>
     (b = 0xF4 \<and> 0x80 \<le> c \<and> c \<le> 0x8F)"

text \<open>
  The first scalar value of a string: whether it is well formed, and how many bytes it or the
  longest ill-formed prefix takes.
\<close>

fun utf8_step :: "bytes \<Rightarrow> bool \<times> nat" where
  "utf8_step [] = (True, 0)"
| "utf8_step (b # r) =
     (if b < 0x80 then (True, 1)
      else if 0xC2 \<le> b \<and> b \<le> 0xDF then
        (if is_cont (byte_or_0 r 0) then (True, 2) else (False, 1))
      else if 0xE0 \<le> b \<and> b \<le> 0xEF then
        (if \<not> second_of_3 b (byte_or_0 r 0) then (False, 1)
         else if is_cont (byte_or_0 r 1) then (True, 3) else (False, 2))
      else if 0xF0 \<le> b \<and> b \<le> 0xF4 then
        (if \<not> second_of_4 b (byte_or_0 r 0) then (False, 1)
         else if \<not> is_cont (byte_or_0 r 1) then (False, 2)
         else if is_cont (byte_or_0 r 2) then (True, 4) else (False, 3))
      else (False, 1))"

lemma utf8_step_pos [simp]: "0 < snd (utf8_step (b # r))"
  by (simp only: utf8_step.simps) (simp split: if_split)

function utf8_valid :: "bytes \<Rightarrow> bool" where
  "utf8_valid [] = True"
| "utf8_valid (b # r) =
     (fst (utf8_step (b # r)) \<and> utf8_valid (drop (snd (utf8_step (b # r))) (b # r)))"
  by pat_completeness auto
termination
  by (relation "measure length") (auto simp del: utf8_step.simps)

text \<open>\<open>String::from_utf8_lossy\<close>: each ill-formed part becomes U+FFFD.\<close>

function utf8_lossy :: "bytes \<Rightarrow> bytes" where
  "utf8_lossy [] = []"
| "utf8_lossy (b # r) =
     (let (ok, n) = utf8_step (b # r)
      in (if ok then take n (b # r) else [0xEF, 0xBF, 0xBD]) @ utf8_lossy (drop n (b # r)))"
  by pat_completeness auto
termination
  by (relation "measure length") (auto simp del: utf8_step.simps dest!: arg_cong [where f = snd])

text \<open>\<open>str::from_utf8\<close>: a \<open>str\<close> is its bytes.\<close>

definition from_utf8 :: "bytes \<Rightarrow> bytes option" where
  "from_utf8 b = (if utf8_valid b then Some b else None)"

lemma ascii_utf8_valid [parse_simps]: "(\<forall>b \<in> set xs. b < 0x80) \<Longrightarrow> utf8_valid xs"
  by (induction xs) auto

lemma ascii_utf8_lossy [parse_simps]: "(\<forall>b \<in> set xs. b < 0x80) \<Longrightarrow> utf8_lossy xs = xs"
  by (induction xs) auto

section \<open>Parsing decimal integers (\<open>str::parse\<close>)\<close>

definition digit_of :: "u8 \<Rightarrow> nat option" where
  "digit_of b = (if is_ascii_digit b then Some (unat b - 48) else None)"

fun digits_of :: "nat \<Rightarrow> bytes \<Rightarrow> nat option" where
  "digits_of acc [] = Some acc"
| "digits_of acc (b # r) =
     (case digit_of b of None \<Rightarrow> None | Some d \<Rightarrow> digits_of (acc * 10 + d) r)"

text \<open>One or more digits.\<close>

definition magnitude_of :: "bytes \<Rightarrow> nat option" where
  "magnitude_of s = (if s = [] then None else digits_of 0 s)"

text \<open>\<open>parse::<i64>\<close>: an optional sign, digits, and the value in range.\<close>

definition parse_i64 :: "bytes \<Rightarrow> i64 option" where
  "parse_i64 s =
     (case s of [] \<Rightarrow> None
      | b # r \<Rightarrow>
        (if b = 45 then
           (case magnitude_of r of None \<Rightarrow> None
            | Some n \<Rightarrow> if n \<le> 2 ^ 63 then Some (word_of_int (- int n)) else None)
         else
           (case magnitude_of (if b = 43 then r else s) of None \<Rightarrow> None
            | Some n \<Rightarrow> if n < 2 ^ 63 then Some (word_of_int (int n)) else None)))"

text \<open>\<open>parse::<u64>\<close>: an optional plus sign.\<close>

definition parse_u64 :: "bytes \<Rightarrow> u64 option" where
  "parse_u64 s =
     (case s of [] \<Rightarrow> None
      | b # r \<Rightarrow>
        (case magnitude_of (if b = 43 then r else s) of None \<Rightarrow> None
         | Some n \<Rightarrow> if n < 2 ^ 64 then Some (word_of_nat n) else None))"

section \<open>Checked arithmetic\<close>

definition u64_checked_add :: "u64 \<Rightarrow> u64 \<Rightarrow> u64 option" where
  "u64_checked_add a b = (if unat a + unat b < 2 ^ 64 then Some (a + b) else None)"

definition u64_checked_sub :: "u64 \<Rightarrow> u64 \<Rightarrow> u64 option" where
  "u64_checked_sub a b = (if b \<le> a then Some (a - b) else None)"

text \<open>\<open>i64::try_from\<close> of a \<open>u64\<close>.\<close>

definition i64_try_from_u64 :: "u64 \<Rightarrow> i64 option" where
  "i64_try_from_u64 a = (if unat a < 2 ^ 63 then Some a else None)"

lemma u64_checked_add_Some:
  "u64_checked_add a b = Some c \<longleftrightarrow> unat a + unat b < 2 ^ 64 \<and> unat c = unat a + unat b"
  by (auto simp: u64_checked_add_def unat_word_ariths word_unat_eq_iff split: if_splits)

lemma u64_checked_sub_Some:
  "u64_checked_sub a b = Some c \<longleftrightarrow> unat b \<le> unat a \<and> unat c = unat a - unat b"
  by (auto simp: u64_checked_sub_def word_le_nat_alt unat_sub word_unat_eq_iff
        dest: unat_sub [OF word_le_nat_alt [THEN iffD2]])

lemma i64_nonneg_sint: "unat (a :: i64) < 2 ^ 63 \<Longrightarrow> sint a = int (unat a)"
  by (simp add: sint_uint signed_take_bit_int_eq_self_iff [THEN iffD2] uint_nat
      take_bit_int_eq_self_iff del: of_nat_unat)

end
