(* ===== verification/Store.thy ===== *)
theory Store
  imports Rust_Std
begin

text \<open>
  The hash map as an interface: the three operations the registry and the tournament engine
  call, with the laws they rely on, and the effect of removing or inserting a list of entries.
  The model's own map is an association list; the order of the list stands for the unspecified
  iteration order of the source's \<open>HashMap\<close>.
\<close>

section \<open>The interface\<close>

locale kv_store =
  fixes lookup :: "'m \<Rightarrow> 'k \<Rightarrow> 'v option"
    and insert :: "'k \<Rightarrow> 'v \<Rightarrow> 'm \<Rightarrow> 'm"
    and remove :: "'k \<Rightarrow> 'm \<Rightarrow> 'm"
  assumes lookup_insert: "lookup (insert k v m) = (lookup m)(k \<mapsto> v)"
    and lookup_remove: "lookup (remove k m) = (lookup m)(k := None)"
begin

lemma lookup_remove_all:
  "lookup (fold remove ks m) k = (if k \<in> set ks then None else lookup m k)"
  by (induction ks arbitrary: m) (auto simp: lookup_remove)

lemma lookup_insert_all:
  "lookup (fold (\<lambda>(k, v). insert k v) kvs m) k =
     (case map_of (rev kvs) k of Some v \<Rightarrow> Some v | None \<Rightarrow> lookup m k)"
proof (induction kvs arbitrary: m)
  case Nil
  then show ?case by simp
next
  case (Cons kv kvs)
  then show ?case
    by (cases kv) (auto simp: lookup_insert map_add_def split: option.splits)
qed

text \<open>
  Taking out the keys \<open>del\<close> and putting back the entries \<open>saved\<close> restores a store \<open>m0\<close> from a
  store \<open>m\<close> that differs from it only by those keys and entries.
\<close>

lemma restore:
  assumes saved: "\<And>k v. (k, v) \<in> set saved \<Longrightarrow> lookup m0 k = Some v"
    and gone: "\<And>k. k \<in> set del \<Longrightarrow> k \<notin> fst ` set saved \<Longrightarrow> lookup m0 k = None"
    and same: "\<And>k. k \<notin> set del \<Longrightarrow> k \<notin> fst ` set saved \<Longrightarrow> lookup m k = lookup m0 k"
  shows "lookup (fold (\<lambda>(k, v). insert k v) saved (fold remove del m)) = lookup m0"
proof
  fix k
  show "lookup (fold (\<lambda>(k, v). insert k v) saved (fold remove del m)) k = lookup m0 k"
  proof (cases "map_of (rev saved) k")
    case None
    then have "k \<notin> fst ` set saved" by (simp add: map_of_eq_None_iff)
    with None show ?thesis using gone same
      by (simp add: lookup_insert_all lookup_remove_all)
  next
    case (Some v)
    then have "(k, v) \<in> set saved" by (auto dest: map_of_SomeD)
    with Some show ?thesis by (simp add: lookup_insert_all saved)
  qed
qed

end

section \<open>The model's hash map\<close>

type_synonym ('k, 'v) hash_map = "('k \<times> 'v) list"

definition hm_get :: "('k, 'v) hash_map \<Rightarrow> 'k \<Rightarrow> 'v option" where
  "hm_get m k = map_of m k"

definition hm_insert :: "'k \<Rightarrow> 'v \<Rightarrow> ('k, 'v) hash_map \<Rightarrow> ('k, 'v) hash_map" where
  "hm_insert k v m = AList.update k v m"

definition hm_remove :: "'k \<Rightarrow> ('k, 'v) hash_map \<Rightarrow> ('k, 'v) hash_map" where
  "hm_remove k m = AList.delete k m"

definition hm_keys :: "('k, 'v) hash_map \<Rightarrow> 'k list" where
  "hm_keys m = map fst m"

text \<open>Well formed: every key occurs once.\<close>

definition hm_ok :: "('k, 'v) hash_map \<Rightarrow> bool" where
  "hm_ok m \<longleftrightarrow> distinct (map fst m)"

interpretation hm: kv_store hm_get hm_insert hm_remove
  by unfold_locales
    (auto simp: fun_eq_iff hm_get_def hm_insert_def hm_remove_def update_conv' delete_conv')

lemmas hm_laws = hm.lookup_insert hm.lookup_remove

lemma hm_get_Nil [simp]: "hm_get [] k = None"
  by (simp add: hm_get_def)

lemma hm_get_insert [simp]: "hm_get (hm_insert k v m) l = (if l = k then Some v else hm_get m l)"
  by (simp add: hm_laws)

lemma hm_get_remove [simp]: "hm_get (hm_remove k m) l = (if l = k then None else hm_get m l)"
  by (simp add: hm_laws)

lemma hm_ok_Nil [simp]: "hm_ok []"
  by (simp add: hm_ok_def)

lemma hm_ok_insert [simp]: "hm_ok m \<Longrightarrow> hm_ok (hm_insert k v m)"
  by (simp add: hm_ok_def hm_insert_def distinct_update)

lemma hm_ok_remove [simp]: "hm_ok m \<Longrightarrow> hm_ok (hm_remove k m)"
  by (simp add: hm_ok_def hm_remove_def distinct_delete)

lemma hm_keys_get: "k \<in> set (hm_keys m) \<longleftrightarrow> hm_get m k \<noteq> None"
  by (auto simp: hm_keys_def hm_get_def map_of_eq_None_iff)

lemma hm_in_iff: "hm_ok m \<Longrightarrow> (k, v) \<in> set m \<longleftrightarrow> hm_get m k = Some v"
  by (simp add: hm_ok_def hm_get_def)

lemma hm_get_SomeD: "hm_get m k = Some v \<Longrightarrow> (k, v) \<in> set m"
  by (auto simp: hm_get_def dest: map_of_SomeD)

end
