(* ===== verification/Codec.thy ===== *)
theory Codec
  imports Store
begin

text \<open>
  \<open>kachat-names/src/lib.rs\<close>: keys and P2SH scripts, the fixed-width state integers, signature
  scripts as minimal pushes, and the byte encodings of the four registry states. The hash and
  curve functions come from crates and are the fields of a record the definitions take.
\<close>

section \<open>Third-party functions\<close>

record crypto =
  blake3 :: "bytes \<Rightarrow> bytes" \<comment> \<open>\<open>blake3::hash\<close>\<close>
  blake2b :: "bytes \<Rightarrow> bytes" \<comment> \<open>\<open>blake2b_simd\<close>, 32-byte digest, no key\<close>
  xonly_ok :: "bytes \<Rightarrow> bool" \<comment> \<open>\<open>secp256k1::XOnlyPublicKey::from_slice\<close> accepts\<close>
  hex_decode :: "bytes \<Rightarrow> bytes option" \<comment> \<open>\<open>hex::decode\<close>\<close>

text \<open>Both digests have 32 bytes.\<close>

definition digests_32 :: "crypto \<Rightarrow> bool" where
  "digests_32 c \<longleftrightarrow> (\<forall>x. length (blake3 c x) = 32 \<and> length (blake2b c x) = 32)"

section \<open>Hashes and keys\<close>

definition name_key :: "crypto \<Rightarrow> bytes \<Rightarrow> bytes" where
  "name_key c name = blake3 c name"

definition pad_name :: "bytes \<Rightarrow> bytes" where
  "pad_name name = (let n = min (length name) 32 in take n name @ replicate (32 - n) 0)"

definition p2sh_script :: "crypto \<Rightarrow> bytes \<Rightarrow> bytes" where
  "p2sh_script c redeem = [0xaa, 0x20] @ blake2b c redeem @ [0x87]"

definition commit_domain :: bytes where
  "commit_domain = ascii ''kachat-commit:v1''"

definition commitment :: "crypto \<Rightarrow> bytes \<Rightarrow> bytes \<Rightarrow> bytes \<Rightarrow> bytes" where
  "commitment c name owner salt = blake3 c (commit_domain @ name @ owner @ salt)"

definition commit_redeem :: "bytes \<Rightarrow> bytes \<Rightarrow> bytes" where
  "commit_redeem cm owner = [0x20] @ cm @ [0x75, 0x20] @ owner @ [0xac]"

section \<open>num8\<close>

definition i64_min :: i64 where
  "i64_min = 0x8000000000000000"

definition unsigned_abs :: "i64 \<Rightarrow> u64" where
  "unsigned_abs v = (if v <s 0 then - v else v)"

definition num8_encode :: "i64 \<Rightarrow> bytes" where
  "num8_encode v =
     (let out = to_le 8 (unat (unsigned_abs v))
      in if v <s 0 then out[7 := out ! 7 OR 0x80] else out)"

definition num8_decode :: "bytes \<Rightarrow> i64" where
  "num8_decode b =
     (let negative = (b ! 7 AND 0x80 \<noteq> 0);
          mag = word_of_nat (from_le (b[7 := b ! 7 AND 0x7f]))
      in if negative then - mag else mag)"

section \<open>Minimal pushes and script numbers\<close>

datatype push = Num i64 | Data bytes

fun push_data :: "push \<Rightarrow> bytes option" where
  "push_data (Data d) = Some d"
| "push_data (Num _) = None"

text \<open>\<open>x << n\<close> on \<open>i64\<close> in a release build: the shift amount is taken modulo 64.\<close>

definition shl_i64 :: "i64 \<Rightarrow> nat \<Rightarrow> i64" where
  "shl_i64 x n = push_bit (n mod 64) x"

definition decode_script_number :: "bytes \<Rightarrow> i64" where
  "decode_script_number b =
     (if b = [] then 0
      else let result = fold (\<lambda>(i, byte) r. r OR shl_i64 (ucast byte) (8 * i)) (enumerate 0 b) 0;
               top = length b - 1
           in if b ! top AND 0x80 \<noteq> 0
              then let mask = shl_i64 0x80 (8 * top) in - (result AND NOT mask)
              else result)"

fun push_as_i64 :: "push \<Rightarrow> i64 option" where
  "push_as_i64 (Num n) = Some n"
| "push_as_i64 (Data d) = Some (decode_script_number d)"

text \<open>One token after its opcode \<open>op\<close>, and what is left of the script.\<close>

definition data_push :: "bytes \<Rightarrow> nat \<Rightarrow> nat \<Rightarrow> (push \<times> bytes) option" where
  "data_push r i n =
     (case get_range r i n of None \<Rightarrow> None | Some d \<Rightarrow> Some (Data d, drop (i + n) r))"

definition next_push :: "u8 \<Rightarrow> bytes \<Rightarrow> (push \<times> bytes) option" where
  "next_push op r =
     (if op = 0x00 then Some (Num 0, r)
      else if op = 0x4f then Some (Num (- 1), r)
      else if 0x51 \<le> op \<and> op \<le> 0x60 then Some (Num (ucast (op - 0x50)), r)
      else if 0x01 \<le> op \<and> op \<le> 0x4b then data_push r 0 (unat op)
      else if op = 0x4c then
        (case get_at r 0 of None \<Rightarrow> None | Some n \<Rightarrow> data_push r 1 (unat n))
      else if op = 0x4d then
        (case get_range r 0 2 of None \<Rightarrow> None | Some n \<Rightarrow> data_push r 2 (from_le n))
      else if op = 0x4e then
        (case get_range r 0 4 of None \<Rightarrow> None | Some n \<Rightarrow> data_push r 4 (from_le n))
      else None)"

lemma data_push_shorter: "data_push r i n = Some (p, r') \<Longrightarrow> length r' \<le> length r"
  by (auto simp: data_push_def split: option.splits)

lemma next_push_shorter: "next_push op r = Some (p, r') \<Longrightarrow> length r' \<le> length r"
  by (auto simp: next_push_def split: if_splits option.splits dest: data_push_shorter)

function parse_pushes :: "bytes \<Rightarrow> push list option" where
  "parse_pushes [] = Some []"
| "parse_pushes (op # r) =
     (case next_push op r of
        None \<Rightarrow> None
      | Some (p, r') \<Rightarrow>
          (case parse_pushes r' of None \<Rightarrow> None | Some ps \<Rightarrow> Some (p # ps)))"
  by pat_completeness auto
termination
  by (relation "measure length") (auto dest: next_push_shorter)

record sig_script =
  args :: "push list"
  dispatch_tag :: bytes
  redeem :: bytes

definition decode_sig_script :: "bytes \<Rightarrow> sig_script option" where
  "decode_sig_script script =
     (case parse_pushes script of
        None \<Rightarrow> None
      | Some pushes \<Rightarrow>
          (case rev pushes of
             Data d # Data tag # rest \<Rightarrow>
               if length tag = 4
               then Some \<lparr>args = rev rest, dispatch_tag = tag, redeem = d\<rparr> else None
           | _ \<Rightarrow> None))"

section \<open>Registry states\<close>

record gap_state =
  g_lo :: bytes
  g_hi :: bytes

record name_state =
  n_key :: bytes
  n_name :: bytes
  n_owner :: bytes
  n_price :: i64
  n_period_start :: i64
  n_expires_at :: i64

record offer_state =
  o_key :: bytes
  o_buyer :: bytes
  o_seller :: "bytes option"
  o_refund_after :: i64

record price_state =
  p_shard :: i64
  p_authority :: bytes
  p_prices :: "i64 list"

definition take32 :: "bytes \<Rightarrow> nat \<Rightarrow> bytes option" where
  "take32 b at = get_range b at 32"

definition take8 :: "bytes \<Rightarrow> nat \<Rightarrow> bytes option" where
  "take8 b at = get_range b at 8"

definition gap_encode :: "gap_state \<Rightarrow> bytes" where
  "gap_encode s = concat [[0x20], g_lo s, [0x20], g_hi s]"

definition gap_decode :: "bytes \<Rightarrow> gap_state option" where
  "gap_decode state =
     (if length state \<noteq> 66 \<or> state ! 0 \<noteq> 0x20 \<or> state ! 33 \<noteq> 0x20 then None
      else case (take32 state 1, take32 state 34) of
             (Some lo, Some hi) \<Rightarrow> Some \<lparr>g_lo = lo, g_hi = hi\<rparr>
           | _ \<Rightarrow> None)"

definition name_encode :: "name_state \<Rightarrow> bytes" where
  "name_encode s =
     concat [[0x20], n_key s, [0x20], n_name s, [0x20], n_owner s,
             [0x08], num8_encode (n_price s), [0x08], num8_encode (n_period_start s),
             [0x08], num8_encode (n_expires_at s)]"

definition name_decode :: "bytes \<Rightarrow> name_state option" where
  "name_decode state =
     (if length state \<noteq> 126 \<or> state ! 0 \<noteq> 0x20 \<or> state ! 33 \<noteq> 0x20 \<or> state ! 66 \<noteq> 0x20
         \<or> state ! 99 \<noteq> 0x08 \<or> state ! 108 \<noteq> 0x08 \<or> state ! 117 \<noteq> 0x08 then None
      else case (take32 state 1, take32 state 34, take32 state 67,
                 take8 state 100, take8 state 109, take8 state 118) of
             (Some k, Some n, Some ow, Some p, Some ps, Some e) \<Rightarrow>
               Some \<lparr>n_key = k, n_name = n, n_owner = ow, n_price = num8_decode p,
                     n_period_start = num8_decode ps, n_expires_at = num8_decode e\<rparr>
           | _ \<Rightarrow> None)"

definition name_str :: "name_state \<Rightarrow> bytes" where
  "name_str s =
     (let end_ix = (case position (\<lambda>c. c = 0) (n_name s) of
                      Some i \<Rightarrow> i | None \<Rightarrow> length (n_name s))
      in utf8_lossy (take end_ix (n_name s)))"

definition offer_encode :: "offer_state \<Rightarrow> bytes" where
  "offer_encode s =
     (case o_seller s of
        None \<Rightarrow> concat [[0x20], o_key s, [0x20], o_buyer s, [0x08], num8_encode (o_refund_after s)]
      | Some seller \<Rightarrow>
          concat [[0x20], o_key s, [0x20], o_buyer s, [0x20], seller, [0x08],
                  num8_encode (o_refund_after s)])"

definition offer_decode :: "bytes \<Rightarrow> offer_state option" where
  "offer_decode state =
     (if length state = 75 \<and> state ! 0 = 0x20 \<and> state ! 33 = 0x20 \<and> state ! 66 = 0x08 then
        (case (take32 state 1, take32 state 34, take8 state 67) of
           (Some k, Some b, Some r) \<Rightarrow>
             Some \<lparr>o_key = k, o_buyer = b, o_seller = None, o_refund_after = num8_decode r\<rparr>
         | _ \<Rightarrow> None)
      else if length state = 108 \<and> state ! 0 = 0x20 \<and> state ! 33 = 0x20 \<and> state ! 66 = 0x20
              \<and> state ! 99 = 0x08 then
        (case (take32 state 1, take32 state 34, take32 state 67, take8 state 100) of
           (Some k, Some b, Some s, Some r) \<Rightarrow>
             Some \<lparr>o_key = k, o_buyer = b, o_seller = Some s, o_refund_after = num8_decode r\<rparr>
         | _ \<Rightarrow> None)
      else None)"

definition price_encode :: "price_state \<Rightarrow> bytes" where
  "price_encode s =
     [0x08] @ num8_encode (p_shard s) @ [0x20] @ p_authority s
       @ concat (map (\<lambda>p. [0x08] @ num8_encode p) (p_prices s))"

definition price_decode :: "bytes \<Rightarrow> price_state option" where
  "price_decode state =
     (if length state \<noteq> 87 \<or> state ! 0 \<noteq> 0x08 \<or> state ! 9 \<noteq> 0x20 then None
      else case those (map (\<lambda>t. let at = 42 + t * 9
                                in if state ! at \<noteq> 0x08 then None
                                   else map_option num8_decode (take8 state (at + 1)))
                           [0, 1, 2, 3, 4]) of
             None \<Rightarrow> None
           | Some prices \<Rightarrow>
               (case (take8 state 1, take32 state 10) of
                  (Some sh, Some a) \<Rightarrow>
                    Some \<lparr>p_shard = num8_decode sh, p_authority = a, p_prices = prices\<rparr>
                | _ \<Rightarrow> None))"

definition price_for_len :: "price_state \<Rightarrow> nat \<Rightarrow> i64" where
  "price_for_len s len = p_prices s ! (max 1 (min 5 len) - 1)"

definition state_span :: "bytes \<Rightarrow> nat \<Rightarrow> nat \<Rightarrow> bytes option" where
  "state_span script offset len = get_range script offset len"

definition is_valid_name :: "bytes \<Rightarrow> bool" where
  "is_valid_name name =
     (if name = [] \<or> length name > 32 then False
      else if name ! 0 = 45 \<or> name ! (length name - 1) = 45 then False
      else list_all (\<lambda>ch. is_ascii_lowercase ch \<or> is_ascii_digit ch \<or> ch = 45) name)"

section \<open>Facts about the integer codecs\<close>

text \<open>The sign bit of a byte.\<close>

lemma sign_bit_split:
  assumes "unat (b :: u8) < 128"
  shows "b AND 0x80 = 0" "b AND 0x7f = b" "(b OR 0x80) AND 0x80 \<noteq> 0" "(b OR 0x80) AND 0x7f = b"
proof -
  have all: "list_all (\<lambda>n. let b = word_of_nat n :: u8 in
      b AND 0x80 = 0 \<and> b AND 0x7f = b \<and> (b OR 0x80) AND 0x80 \<noteq> 0 \<and> (b OR 0x80) AND 0x7f = b)
    [0..<128]" by code_simp
  have "unat b \<in> set [0..<128]" unfolding set_upt atLeastLessThan_iff using assms by simp
  with all have "let b = word_of_nat (unat b) :: u8 in
      b AND 0x80 = 0 \<and> b AND 0x7f = b \<and> (b OR 0x80) AND 0x80 \<noteq> 0 \<and> (b OR 0x80) AND 0x7f = b"
    unfolding list_all_iff by blast
  then show "b AND 0x80 = 0" "b AND 0x7f = b" "(b OR 0x80) AND 0x80 \<noteq> 0"
    "(b OR 0x80) AND 0x7f = b" by (simp_all add: Let_def)
qed

lemma sign_bit_high:
  assumes "\<not> unat (b :: u8) < 128"
  shows "b AND 0x80 \<noteq> 0" "unat (b AND 0x7f) = unat b - 128"
proof -
  have all: "list_all (\<lambda>n. let b = word_of_nat n :: u8 in
      b AND 0x80 \<noteq> 0 \<and> unat (b AND 0x7f) = unat b - 128) [128..<256]" by code_simp
  have "unat b \<in> set [128..<256]"
    unfolding set_upt atLeastLessThan_iff using assms u8_bound [of b] by linarith
  with all have "let b = word_of_nat (unat b) :: u8 in
      b AND 0x80 \<noteq> 0 \<and> unat (b AND 0x7f) = unat b - 128"
    unfolding list_all_iff by blast
  then show "b AND 0x80 \<noteq> 0" "unat (b AND 0x7f) = unat b - 128" by (simp_all add: Let_def)
qed

lemma from_le_append: "from_le (xs @ ys) = from_le xs + 256 ^ length xs * from_le ys"
  by (induction xs) (simp_all add: algebra_simps)

lemma update_snoc: "length xs = n \<Longrightarrow> (xs @ [b])[n := c] = xs @ [c]"
  by (metis list_update_length)

lemma num8_decode_snoc:
  "length xs = 7 \<Longrightarrow> num8_decode (xs @ [b]) =
     (if b AND 0x80 \<noteq> 0 then - word_of_nat (from_le (xs @ [b AND 0x7f]))
      else word_of_nat (from_le (xs @ [b AND 0x7f])))"
  by (simp add: num8_decode_def Let_def nth_append update_snoc)

lemma i64_uint_bound: "0 \<le> uint (v :: i64)" "uint (v :: i64) < 2 ^ 64"
  using unsigned_less [of v, where ?'a = int] by simp_all

lemma i64_sint: "sint (v :: i64) = (if uint v < 2 ^ 63 then uint v else uint v - 2 ^ 64)"
proof -
  note b = i64_uint_bound [of v]
  have "uint v div 2 ^ 63 = (if uint v < 2 ^ 63 then 0 else 1)"
  proof (cases "uint v < 2 ^ 63")
    case False
    then have "uint v div 2 ^ 63 = 1"
      using b by (intro int_div_pos_eq [where r = "uint v - 2 ^ 63"]) auto
    with False show ?thesis by simp
  qed (use b in simp)
  then have bit: "bit (uint v) 63 \<longleftrightarrow> \<not> uint v < 2 ^ 63" by (simp add: bit_iff_odd)
  have "sint v = signed_take_bit 63 (uint v)" by (simp add: sint_uint)
  also have "\<dots> = take_bit 64 (uint v) - 2 ^ 64 * of_bool (bit (uint v) 63)"
    by (simp add: signed_take_bit_eq_take_bit_minus)
  also have "take_bit 64 (uint v) = uint v"
    using b by (simp add: take_bit_int_eq_self)
  finally show ?thesis by (simp add: bit)
qed

lemma i64_neg_iff: "(v :: i64) <s 0 \<longleftrightarrow> \<not> uint v < 2 ^ 63"
  using i64_uint_bound [of v] by (auto simp: word_sless_alt i64_sint)

lemma uint_unsigned_abs: "uint (unsigned_abs v) = \<bar>sint v\<bar>"
proof (cases "v <s 0")
  case True
  note b = i64_uint_bound [of v]
  from True have h: "\<not> uint v < 2 ^ 63" by (simp add: i64_neg_iff)
  have "uint (- v) = (- uint v) mod 2 ^ 64" by (simp add: uint_word_ariths)
  also have "\<dots> = (2 ^ 64 - uint v) mod 2 ^ 64" by (simp add: mod_diff_right_eq [symmetric] del: mod_diff_right_eq) 
  also have "\<dots> = 2 ^ 64 - uint v" using b h by (intro mod_pos_pos_trivial) auto
  finally show ?thesis using True b h by (simp add: unsigned_abs_def i64_sint)
next
  case False
  then show ?thesis using i64_uint_bound [of v] by (simp add: unsigned_abs_def i64_neg_iff i64_sint)
qed

lemma uint_above_min [simp]: "- 9223372036854775808 < uint (v :: i64)"
  by (rule less_le_trans [OF _ uint_ge_0]) simp

lemma sint_not_min: "v \<noteq> i64_min \<Longrightarrow> - (2 ^ 63) < sint v"
proof -
  assume "v \<noteq> i64_min"
  then have "uint v \<noteq> 2 ^ 63" by (auto simp: i64_min_def word_uint_eq_iff)
  then show ?thesis using i64_uint_bound [of v] by (simp add: i64_sint)
qed

lemma sint_below: "sint (v :: i64) < 2 ^ 63"
  using i64_uint_bound [of v] by (simp add: i64_sint)

lemma unat_unsigned_abs: "v \<noteq> i64_min \<Longrightarrow> unat (unsigned_abs v) < 2 ^ 63"
proof -
  assume "v \<noteq> i64_min"
  from sint_not_min [OF this] sint_below [of v] have "uint (unsigned_abs v) < 2 ^ 63"
    unfolding uint_unsigned_abs abs_less_iff by linarith
  then have "nat (uint (unsigned_abs v)) < nat (2 ^ 63)"
    by (subst nat_less_eq_zless) (rule uint_ge_0)
  then show ?thesis by (simp only: unat_eq_nat_uint) simp
qed

lemma unsigned_abs_neg: "word_of_nat (unat (unsigned_abs v)) = (if v <s 0 then - v else v)"
  by (simp add: unsigned_abs_def)

lemma num8_roundtrip:
  assumes "v \<noteq> i64_min"
  shows "num8_decode (num8_encode v) = v"
proof -
  define m where "m = unat (unsigned_abs v)"
  define b :: u8 where "b = word_of_nat (m div 256 ^ 7)"
  have m: "m < 2 ^ 63" unfolding m_def by (rule unat_unsigned_abs [OF assms])
  then have ub: "unat b < 128" by (simp add: b_def unat_of_nat) 
  have out: "to_le 8 m = to_le 7 m @ [b]"
    using to_le_snoc [of 7 m] by (simp add: b_def)
  have "from_le (to_le 8 m) = m" using m by (simp add: from_le_to_le)
  then have fl: "from_le (to_le 7 m @ [b]) = m" by (simp add: out)
  have "num8_encode v = (if v <s 0 then to_le 7 m @ [b OR 0x80] else to_le 7 m @ [b])"
    by (simp add: num8_encode_def Let_def m_def [symmetric] out nth_append update_snoc)
  then show ?thesis
    using unsigned_abs_neg [of v] sign_bit_split [OF ub] fl
    by (simp add: num8_decode_snoc m_def [symmetric] split: if_splits)
qed

lemma length_num8_encode [simp, byte_simps]: "length (num8_encode v) = 8"
  by (simp add: num8_encode_def Let_def)

lemma disjoint_or_add:
  fixes a b :: nat
  assumes "a < 2 ^ m"
  shows "(word_of_nat a :: i64) OR push_bit m (word_of_nat b) = word_of_nat (a + 2 ^ m * b)"
proof -
  have "\<not> bit (word_of_nat a :: i64) k \<or> \<not> bit (push_bit m (word_of_nat b) :: i64) k" for k
  proof (cases "k < m")
    case True
    then show ?thesis by (simp add: bit_push_bit_iff)
  next
    case False
    then have "(2::nat) ^ m \<le> 2 ^ k" by (intro power_increasing) simp_all
    with assms have "a < 2 ^ k" by (rule less_le_trans)
    then have "\<not> bit a k" by (simp add: bit_iff_odd)
    then show ?thesis by (simp add: bit_of_nat_iff)
  qed
  then have "(word_of_nat a :: i64) OR push_bit m (word_of_nat b)
      = word_of_nat a + push_bit m (word_of_nat b)"
    by (simp add: disjunctive_add)
  then show ?thesis by (simp add: push_bit_eq_mult mult.commute)
qed

lemma pow_256: "(256::nat) ^ n = 2 ^ (8 * n)"
  by (simp add: power_mult)

lemma script_bytes:
  "length b \<le> 8 \<Longrightarrow>
     fold (\<lambda>(i, byte) r. r OR shl_i64 (ucast byte) (8 * i)) (enumerate 0 b) 0
       = word_of_nat (from_le b)"
proof (induction b rule: rev_induct)
  case Nil
  then show ?case by simp
next
  case (snoc x xs)
  then have n: "8 * length xs < 64" by simp
  have "from_le xs < 2 ^ (8 * length xs)" using from_le_bound [of xs] by (simp add: pow_256)
  from disjoint_or_add [OF this, of "unat x"] snoc n show ?case
    by (simp add: enumerate_append_eq shl_i64_def from_le_append pow_256 mult.commute)
qed

text \<open>The number a script number denotes: little-endian magnitude, sign in the top bit.\<close>

definition script_value :: "bytes \<Rightarrow> int" where
  "script_value b =
     (if b = [] then 0
      else if last b AND 0x80 \<noteq> 0 then - int (from_le (butlast b @ [last b AND 0x7f]))
      else int (from_le b))"

lemma high_byte_bound: "unat (b AND 0x7f :: u8) < 128"
proof (cases "unat b < 128")
  case False
  then show ?thesis using sign_bit_high [OF False] u8_bound [of b] by linarith
qed (simp add: sign_bit_split)

lemma magnitude_bound:
  assumes "unat b < 128"
  shows "from_le (xs @ [b]) < 2 ^ (8 * length xs + 7)"
proof -
  have "from_le xs + 256 ^ length xs * unat b < 256 ^ length xs * (1 + unat b)"
    using from_le_bound [of xs] by (simp add: algebra_simps)
  also have "\<dots> \<le> 256 ^ length xs * 128" using assms by (intro mult_le_mono2) simp
  finally show ?thesis by (simp add: from_le_append pow_256 power_add)
qed

lemma sint_small: "n < 2 ^ 63 \<Longrightarrow> sint (word_of_nat n :: i64) = int n"
  by (simp add: i64_sint unat_of_nat uint_nat del: of_nat_unat)

lemma sint_neg_small: "n < 2 ^ 63 \<Longrightarrow> sint (- word_of_nat n :: i64) = - int n"
proof (cases "n = 0")
  case False
  assume n: "n < 2 ^ 63"
  have "uint (- word_of_nat n :: i64) = (- uint (word_of_nat n :: i64)) mod 2 ^ 64"
    by (simp add: uint_word_ariths)
  also have "uint (word_of_nat n :: i64) = int n" using n by (simp add: uint_nat unat_of_nat del: of_nat_unat)
  also have "(- int n) mod 2 ^ 64 = (2 ^ 64 - int n) mod 2 ^ 64"
    by (simp add: mod_diff_right_eq [symmetric] del: mod_diff_right_eq)
  also have "\<dots> = 2 ^ 64 - int n" using n False by (intro mod_pos_pos_trivial) auto
  finally show ?thesis using n by (simp add: i64_sint)
qed simp

lemma decode_script_number_value:
  assumes "length b \<le> 8"
  shows "sint (decode_script_number b) = script_value b"
proof (cases b rule: rev_exhaust)
  case Nil
  then show ?thesis by (simp add: decode_script_number_def script_value_def)
next
  case (snoc xs t)
  with assms have len: "length xs \<le> 7" by simp
  then have pow: "(2::nat) ^ (8 * length xs + 7) \<le> 2 ^ 63" by (intro power_increasing) auto
  show ?thesis
  proof (cases "t AND 0x80 = 0")
    case True
    then have "unat t < 128" using sign_bit_high [of t] by blast
    from magnitude_bound [OF this, of xs] pow have "from_le b < 2 ^ 63" by (simp add: snoc)
    then show ?thesis using True script_bytes [OF assms] snoc
      by (simp add: decode_script_number_def script_value_def Let_def nth_append sint_small)
  next
    case False
    define a where "a = from_le (xs @ [t AND 0x7f])"
    have a: "a < 2 ^ (8 * length xs + 7)"
      unfolding a_def by (rule magnitude_bound [OF high_byte_bound])
    have "unat t = 128 + unat (t AND 0x7f)" using False sign_bit_split [of t] sign_bit_high [of t] 
      by (cases "unat t < 128") auto
    then have "from_le b = a + 2 ^ (8 * length xs + 7) * 1"
      by (simp add: snoc a_def from_le_append pow_256 power_add algebra_simps)
    then have r: "(word_of_nat (from_le b) :: i64) = word_of_nat a OR push_bit (8 * length xs + 7) 1"
      using disjoint_or_add [OF a, of 1] by simp
    have mask: "shl_i64 0x80 (8 * length xs) = push_bit (8 * length xs + 7) 1"
      using len by (simp add: shl_i64_def push_bit_eq_mult power_add)
    have "\<not> bit a (8 * length xs + 7)" using a by (simp add: bit_iff_odd)
    then have "(word_of_nat a OR push_bit (8 * length xs + 7) 1 :: i64)
        AND NOT (push_bit (8 * length xs + 7) 1) = word_of_nat a"
      by (intro bit_word_eqI) (auto simp: bit_simps)
    then have "decode_script_number b = - word_of_nat a"
      using False script_bytes [OF assms] snoc r mask
      by (simp add: decode_script_number_def Let_def nth_append)
    moreover have "a < 2 ^ 63" using a pow by linarith
    ultimately show ?thesis using False
      by (simp add: snoc script_value_def sint_neg_small a_def)
  qed
qed

lemma num8_decode_value:
  assumes "length b = 8"
  shows "sint (num8_decode b) = script_value b"
proof -
  obtain xs t where b: "b = xs @ [t]" and xs: "length xs = 7"
    using assms by (cases b rule: rev_exhaust) auto
  show ?thesis
  proof (cases "t AND 0x80 = 0")
    case True
    then have t: "unat t < 128" using sign_bit_high [of t] by blast
    with magnitude_bound [OF t, of xs] xs True sign_bit_split [OF t] b show ?thesis
      by (simp add: num8_decode_snoc script_value_def sint_small)
  next
    case False
    with magnitude_bound [OF high_byte_bound, of xs t] xs b show ?thesis
      by (simp add: num8_decode_snoc script_value_def sint_neg_small)
  qed
qed

text \<open>The two decoders of the crate agree on eight bytes.\<close>

lemma num8_decode_is_script_number:
  "length b = 8 \<Longrightarrow> num8_decode b = decode_script_number b"
  by (rule signed_word_eqI [where ?'a = int]) (simp_all add: num8_decode_value decode_script_number_value)

lemma num8_decode_not_min: "length b = 8 \<Longrightarrow> num8_decode b \<noteq> i64_min"
proof
  assume len: "length b = 8" and "num8_decode b = i64_min"
  then have "script_value b = - (2 ^ 63)"
    using num8_decode_value [OF len] by (simp add: i64_min_def)
  moreover obtain xs t where b: "b = xs @ [t]" and xs: "length xs = 7"
    using len by (cases b rule: rev_exhaust) auto
  ultimately show False
    using magnitude_bound [OF high_byte_bound, of xs t] by (auto simp: script_value_def split: if_splits)
qed

section \<open>Round trip of signature scripts\<close>

text \<open>The encoders of the crate's own tests.\<close>

definition push_bytes :: "bytes \<Rightarrow> bytes" where
  "push_bytes d =
     (if d = [] then [0x00]
      else if length d \<le> 75 then [word_of_nat (length d)] @ d
      else if length d \<le> 255 then [0x4c, word_of_nat (length d)] @ d
      else [0x4d] @ to_le 2 (length d) @ d)"

definition sig_script_of :: "bytes list \<Rightarrow> bytes \<Rightarrow> bytes \<Rightarrow> bytes" where
  "sig_script_of as tag script = concat (map push_bytes as) @ push_bytes tag @ push_bytes script"

text \<open>The token an argument travels as.\<close>

definition push_of :: "bytes \<Rightarrow> push" where
  "push_of d = (if d = [] then Num 0 else Data d)"

lemma data_push_append: "length d = n \<Longrightarrow> length h = i \<Longrightarrow> data_push (h @ d @ r) i n = Some (Data d, r)"
  by (auto simp: data_push_def get_range_def)

lemma next_push_small:
  assumes "0 < length d" "length d \<le> 75"
  shows "next_push (word_of_nat (length d)) (d @ r) = Some (Data d, r)"
proof -
  let ?w = "word_of_nat (length d) :: u8"
  have u: "unat ?w = length d" using assms by (simp add: unat_of_nat)
  have "?w \<noteq> 0" "?w \<noteq> 0x4f" "\<not> (0x51 \<le> ?w \<and> ?w \<le> 0x60)" "0x01 \<le> ?w \<and> ?w \<le> 0x4b"
    using assms u by (auto simp: word_unat_eq_iff word_le_nat_alt Suc_le_eq)
  then show ?thesis
    using data_push_append [of d "length d" "[]" 0 r] u by (simp add: next_push_def)
qed

lemma parse_push_bytes:
  assumes "length d < 65536"
  shows "parse_pushes (push_bytes d @ r) = map_option (\<lambda>ps. push_of d # ps) (parse_pushes r)"
proof -
  consider "d = []" | "0 < length d" "length d \<le> 75" | "75 < length d" "length d \<le> 255"
    | "255 < length d" by fastforce
  then show ?thesis
  proof cases
    case 1
    then show ?thesis
      by (simp add: push_bytes_def push_of_def next_push_def split: option.split)
  next
    case 2
    then have "d \<noteq> []" by auto
    with 2 show ?thesis
      by (simp add: push_bytes_def push_of_def next_push_small split: option.split)
  next
    case 3
    then have "d \<noteq> []" by auto
    have "unat (word_of_nat (length d) :: u8) = length d" using 3 by (simp add: unat_of_nat)
    then have "next_push 0x4c (word_of_nat (length d) # d @ r) = Some (Data d, r)"
      using data_push_append [of d "length d" "[word_of_nat (length d)]" 1 r]
      by (simp add: next_push_def get_at_def)
    with 3 \<open>d \<noteq> []\<close> show ?thesis
      by (simp add: push_bytes_def push_of_def split: option.split)
  next
    case 4
    then have "d \<noteq> []" by auto
    have "from_le (to_le 2 (length d)) = length d" using assms by (simp add: from_le_to_le)
    then have "next_push 0x4d (to_le 2 (length d) @ d @ r) = Some (Data d, r)"
      using data_push_append [of d "length d" "to_le 2 (length d)" 2 r]
      by (simp add: next_push_def get_range_append1)
    with 4 \<open>d \<noteq> []\<close> show ?thesis
      by (simp add: push_bytes_def push_of_def split: option.split)
  qed
qed

lemma parse_push_bytes_all:
  "(\<forall>d \<in> set ds. length d < 65536) \<Longrightarrow> parse_pushes (concat (map push_bytes ds)) = Some (map push_of ds)"
  by (induction ds) (simp_all add: parse_push_bytes)

lemma decode_sig_script_of:
  assumes "\<forall>d \<in> set as. length d < 65536" and "length tag = 4"
    and "script \<noteq> []" and "length script < 65536"
  shows "decode_sig_script (sig_script_of as tag script)
    = Some \<lparr>args = map push_of as, dispatch_tag = tag, redeem = script\<rparr>"
proof -
  have "sig_script_of as tag script = concat (map push_bytes (as @ [tag, script]))"
    by (simp add: sig_script_of_def)
  moreover have "\<forall>d \<in> set (as @ [tag, script]). length d < 65536" using assms by auto
  ultimately have "parse_pushes (sig_script_of as tag script) = Some (map push_of (as @ [tag, script]))"
    by (simp only: parse_push_bytes_all)
  moreover have "tag \<noteq> []" using assms(2) by auto
  ultimately show ?thesis using assms(2,3)
    by (simp add: decode_sig_script_def push_of_def rev_map)
qed

section \<open>State codecs\<close>

text \<open>
  What the applier relies on of a state encoding: decoding inverts encoding on well-formed
  states, the width is determined by the state, and only well-formed states are decoded.
\<close>

locale state_codec =
  fixes enc :: "'s \<Rightarrow> bytes" and dec :: "bytes \<Rightarrow> 's option"
    and ok :: "'s \<Rightarrow> bool" and width :: "'s \<Rightarrow> nat"
  assumes dec_enc: "ok s \<Longrightarrow> dec (enc s) = Some s"
    and enc_width: "ok s \<Longrightarrow> length (enc s) = width s"
    and dec_ok: "dec b = Some s \<Longrightarrow> ok s"
    and dec_width: "dec b = Some s \<Longrightarrow> length b = width s"
begin

lemma enc_inj: "ok s \<Longrightarrow> ok t \<Longrightarrow> enc s = enc t \<Longrightarrow> s = t"
  by (metis dec_enc option.inject)

lemma dec_canonical: "dec b = Some s \<Longrightarrow> dec (enc s) = Some s"
  by (simp add: dec_enc dec_ok)

lemma dec_only: "dec b = Some s \<Longrightarrow> length (enc s) = length b"
  by (simp add: enc_width dec_ok dec_width)

text \<open>A state spliced between a prefix and a suffix is read back by its offset.\<close>

lemma span_splice:
  "ok s \<Longrightarrow> Option.bind (state_span (pre @ enc s @ suf) (length pre) (width s)) dec = Some s"
  by (simp add: state_span_def get_range_def enc_width [symmetric] dec_enc)

end

definition is32 :: "bytes \<Rightarrow> bool" where
  "is32 b \<longleftrightarrow> length b = 32"

definition gap_ok :: "gap_state \<Rightarrow> bool" where
  "gap_ok s \<longleftrightarrow> is32 (g_lo s) \<and> is32 (g_hi s)"

definition name_ok :: "name_state \<Rightarrow> bool" where
  "name_ok s \<longleftrightarrow> is32 (n_key s) \<and> is32 (n_name s) \<and> is32 (n_owner s) \<and>
     n_price s \<noteq> i64_min \<and> n_period_start s \<noteq> i64_min \<and> n_expires_at s \<noteq> i64_min"

definition offer_ok :: "offer_state \<Rightarrow> bool" where
  "offer_ok s \<longleftrightarrow> is32 (o_key s) \<and> is32 (o_buyer s) \<and> pred_option is32 (o_seller s) \<and>
     o_refund_after s \<noteq> i64_min"

definition price_ok :: "price_state \<Rightarrow> bool" where
  "price_ok s \<longleftrightarrow> is32 (p_authority s) \<and> length (p_prices s) = 5 \<and> p_shard s \<noteq> i64_min \<and>
     i64_min \<notin> set (p_prices s)"

definition offer_width :: "offer_state \<Rightarrow> nat" where
  "offer_width s = (if o_seller s = None then 75 else 108)"

lemma take_sizes: "take32 b i = Some x \<Longrightarrow> is32 x" "take8 b i = Some y \<Longrightarrow> num8_decode y \<noteq> i64_min"
  "take8 b i = Some y \<Longrightarrow> i64_min \<noteq> num8_decode y"
  by (auto simp: take32_def take8_def is32_def dest!: get_range_length dest: num8_decode_not_min)

lemmas take_defs = take32_def take8_def get_range_def

interpretation gapc: state_codec gap_encode gap_decode gap_ok "\<lambda>_. 66"
proof
  fix s assume "gap_ok s"
  then show "gap_decode (gap_encode s) = Some s"
    by (simp add: gap_ok_def is32_def gap_encode_def gap_decode_def take_defs nth_append)
  show "length (gap_encode s) = 66"
    using \<open>gap_ok s\<close> by (simp add: gap_ok_def is32_def gap_encode_def)
qed (auto simp: gap_decode_def gap_ok_def dest: take_sizes split: if_splits option.splits)

interpretation namec: state_codec name_encode name_decode name_ok "\<lambda>_. 126"
proof
  fix s assume "name_ok s"
  then show "name_decode (name_encode s) = Some s"
    by (simp add: name_ok_def is32_def name_encode_def name_decode_def take_defs nth_append
        num8_roundtrip)
  show "length (name_encode s) = 126"
    using \<open>name_ok s\<close> by (simp add: name_ok_def is32_def name_encode_def)
qed (auto simp: name_decode_def name_ok_def dest: take_sizes split: if_splits option.splits)

interpretation offerc: state_codec offer_encode offer_decode offer_ok offer_width
proof
  fix s assume "offer_ok s"
  then show "offer_decode (offer_encode s) = Some s"
    by (cases "o_seller s")
      (simp_all add: offer_ok_def is32_def offer_encode_def offer_decode_def take_defs nth_append
        num8_roundtrip)
  show "length (offer_encode s) = offer_width s"
    using \<open>offer_ok s\<close>
    by (cases "o_seller s") (simp_all add: offer_ok_def is32_def offer_encode_def offer_width_def)
qed (auto simp: offer_decode_def offer_ok_def offer_width_def dest: take_sizes
      split: if_splits option.splits)

lemma length_5: "length xs = 5 \<longleftrightarrow> (\<exists>a b c d e. xs = [a, b, c, d, e])"
  by (auto simp: numeral_eq_Suc length_Suc_conv)

interpretation pricec: state_codec price_encode price_decode price_ok "\<lambda>_. 87"
proof
  fix s assume ok: "price_ok s"
  then obtain a b c d e where p: "p_prices s = [a, b, c, d, e]"
    by (auto simp: price_ok_def length_5)
  from ok p show "price_decode (price_encode s) = Some s"
    by (simp add: price_ok_def is32_def price_encode_def price_decode_def take_defs nth_append
        num8_roundtrip [OF not_sym] num8_roundtrip Let_def)
  show "length (price_encode s) = 87"
    using ok p by (simp add: price_ok_def is32_def price_encode_def)
next
  fix b s assume "price_decode b = Some s"
  then show "price_ok s" and "length b = 87"
    by (auto simp: price_decode_def price_ok_def Let_def dest: take_sizes
        split: if_splits option.splits)
qed

section \<open>Names\<close>

lemma valid_name_ascii:
  assumes "is_valid_name n" and "b \<in> set n"
  shows "b < 0x80" and "b \<noteq> 0"
proof -
  have "list_all (\<lambda>ch. is_ascii_lowercase ch \<or> is_ascii_digit ch \<or> ch = 45) n"
    using assms(1) by (simp add: is_valid_name_def split: if_splits)
  then have "97 \<le> b \<and> b \<le> 122 \<or> 48 \<le> b \<and> b \<le> 57 \<or> b = 45"
    using assms(2) by (auto simp: list_all_iff ascii_class_defs)
  then show "b < 0x80" and "b \<noteq> 0"
    by (auto simp: word_less_nat_alt word_le_nat_alt word_unat_eq_iff)
qed

lemma valid_name_length: "is_valid_name n \<Longrightarrow> length n \<le> 32"
  by (auto simp: is_valid_name_def split: if_splits)

lemma pad_name_width [simp]: "length (pad_name n) = 32"
  by (simp add: pad_name_def Let_def)

lemma name_str_pad_name:
  assumes "is_valid_name n"
  shows "name_str (s\<lparr>n_name := pad_name n\<rparr>) = n"
proof -
  have ascii: "\<forall>b \<in> set n. b < 0x80" and nz: "\<forall>b \<in> set n. \<not> b = 0"
    using valid_name_ascii [OF assms] by blast+
  have pad: "pad_name n = n @ replicate (32 - length n) 0"
    using valid_name_length [OF assms] by (simp add: pad_name_def Let_def)
  have "take (case position (\<lambda>c. c = 0) (pad_name n) of Some i \<Rightarrow> i | None \<Rightarrow> length (pad_name n))
      (pad_name n) = n"
  proof (cases "32 - length n")
    case 0
    with nz have "position (\<lambda>c. c = 0) (pad_name n) = None" by (simp add: pad position_None)
    with 0 show ?thesis by (simp add: pad)
  next
    case (Suc k)
    then have "position (\<lambda>c. c = 0) (pad_name n) = Some (length n)"
      using nz by (simp add: pad position_append_hit)
    then show ?thesis by (simp add: pad)
  qed
  then show ?thesis using ascii by (simp add: name_str_def Let_def ascii_utf8_lossy cong: option.case_cong)
qed

end
