(* ===== verification/Transition.thy ===== *)
theory Transition
  imports Codec
begin

text \<open>
  \<open>kachat-names/src/transition.rs\<close>: the contracts and their entries, the dispatch tags, the
  states each entry of a spend produces, and the status of a name at a moment.
\<close>

section \<open>Contracts and entries\<close>

definition year_ms :: i64 where
  "year_ms = 31536000000"

datatype contract = Gap | Name | Offer | Price

datatype entry =
    GapRegister | GapImport | GapMerge | GapAbsorbed
  | NameTransfer | NameList | NameBuy | NameRenew | NameExtend | NameRelease | NameReclaim
  | OfferAccept | OfferWithdraw | OfferRefund | OfferDecline
  | PriceUse | PriceUpdate | PriceFollow

definition manifest_names :: "((contract \<times> bytes) \<times> entry) list" where
  "manifest_names =
     [((Gap, ascii ''register''), GapRegister),
      ((Gap, ascii ''import''), GapImport),
      ((Gap, ascii ''merge''), GapMerge),
      ((Gap, ascii ''absorbed''), GapAbsorbed),
      ((Name, ascii ''transfer''), NameTransfer),
      ((Name, ascii ''list''), NameList),
      ((Name, ascii ''buy''), NameBuy),
      ((Name, ascii ''renew''), NameRenew),
      ((Name, ascii ''extend''), NameExtend),
      ((Name, ascii ''release''), NameRelease),
      ((Name, ascii ''reclaim''), NameReclaim),
      ((Offer, ascii ''accept''), OfferAccept),
      ((Offer, ascii ''withdraw''), OfferWithdraw),
      ((Offer, ascii ''refund''), OfferRefund),
      ((Offer, ascii ''decline''), OfferDecline),
      ((Price, ascii ''use''), PriceUse),
      ((Price, ascii ''update''), PriceUpdate),
      ((Price, ascii ''follow''), PriceFollow)]"

definition from_manifest_name :: "contract \<Rightarrow> bytes \<Rightarrow> entry option" where
  "from_manifest_name ct nm = map_of manifest_names (ct, nm)"

fun entry_contract :: "entry \<Rightarrow> contract" where
  "entry_contract GapRegister = Gap"
| "entry_contract GapImport = Gap"
| "entry_contract GapMerge = Gap"
| "entry_contract GapAbsorbed = Gap"
| "entry_contract NameTransfer = Name"
| "entry_contract NameList = Name"
| "entry_contract NameBuy = Name"
| "entry_contract NameRenew = Name"
| "entry_contract NameExtend = Name"
| "entry_contract NameRelease = Name"
| "entry_contract NameReclaim = Name"
| "entry_contract OfferAccept = Offer"
| "entry_contract OfferWithdraw = Offer"
| "entry_contract OfferRefund = Offer"
| "entry_contract OfferDecline = Offer"
| "entry_contract PriceUse = Price"
| "entry_contract PriceUpdate = Price"
| "entry_contract PriceFollow = Price"

definition is_exit :: "entry \<Rightarrow> bool" where
  "is_exit e \<longleftrightarrow> e \<in> {GapMerge, GapAbsorbed, NameRelease, NameReclaim,
     OfferAccept, OfferWithdraw, OfferRefund, OfferDecline}"

text \<open>The pinned tags of registry v2.\<close>

definition v2_tags :: "(bytes \<times> entry) list" where
  "v2_tags =
     [([0x86, 0x67, 0xaf, 0x5e], GapRegister),
      ([0x63, 0xd2, 0x5b, 0xc2], GapMerge),
      ([0xda, 0xb7, 0x63, 0x55], GapAbsorbed),
      ([0x79, 0x4d, 0xca, 0x54], NameTransfer),
      ([0x67, 0x4a, 0x8e, 0xa4], NameList),
      ([0x76, 0xa0, 0x2e, 0xb9], NameBuy),
      ([0xb7, 0x06, 0xac, 0x38], NameRenew),
      ([0x2c, 0xe7, 0xcc, 0xeb], NameExtend),
      ([0x38, 0x8a, 0xd0, 0xb4], NameRelease),
      ([0xf5, 0x6a, 0xf4, 0xdf], NameReclaim),
      ([0x9d, 0x40, 0x43, 0xb4], OfferAccept),
      ([0x80, 0x34, 0x4f, 0xf1], OfferWithdraw),
      ([0x77, 0x7f, 0x5b, 0x11], OfferRefund)]"

definition entry_for_tag :: "bytes \<Rightarrow> entry option" where
  "entry_for_tag tag = map_of v2_tags tag"

section \<open>Transitions\<close>

definition register_with_period ::
    "crypto \<Rightarrow> gap_state \<Rightarrow> bytes \<Rightarrow> bytes \<Rightarrow> i64 \<Rightarrow> i64 \<Rightarrow> i64 \<Rightarrow> gap_state \<times> gap_state \<times> name_state" where
  "register_with_period c gap name owner_key now_ms years period_ms =
     (let k = name_key c name
      in (\<lparr>g_lo = g_lo gap, g_hi = k\<rparr>,
          \<lparr>g_lo = k, g_hi = g_hi gap\<rparr>,
          \<lparr>n_key = k, n_name = pad_name name, n_owner = owner_key, n_price = 0,
           n_period_start = now_ms, n_expires_at = now_ms + years * period_ms\<rparr>))"

definition register ::
    "crypto \<Rightarrow> gap_state \<Rightarrow> bytes \<Rightarrow> bytes \<Rightarrow> i64 \<Rightarrow> i64 \<Rightarrow> gap_state \<times> gap_state \<times> name_state" where
  "register c gap name owner_key now_ms years =
     register_with_period c gap name owner_key now_ms years year_ms"

definition import_name ::
    "crypto \<Rightarrow> gap_state \<Rightarrow> bytes \<Rightarrow> bytes \<Rightarrow> i64 \<Rightarrow> i64 \<Rightarrow> gap_state \<times> gap_state \<times> name_state" where
  "import_name c gap name owner_key period_start expires_at =
     (let k = name_key c name
      in (\<lparr>g_lo = g_lo gap, g_hi = k\<rparr>,
          \<lparr>g_lo = k, g_hi = g_hi gap\<rparr>,
          \<lparr>n_key = k, n_name = pad_name name, n_owner = owner_key, n_price = 0,
           n_period_start = period_start, n_expires_at = expires_at\<rparr>))"

definition name_transfer :: "name_state \<Rightarrow> bytes \<Rightarrow> name_state" where
  "name_transfer n new_owner = n\<lparr>n_owner := new_owner, n_price := 0\<rparr>"

definition name_list :: "name_state \<Rightarrow> i64 \<Rightarrow> name_state" where
  "name_list n price = n\<lparr>n_price := price\<rparr>"

definition name_buy :: "name_state \<Rightarrow> bytes \<Rightarrow> name_state" where
  "name_buy n new_owner = n\<lparr>n_owner := new_owner, n_price := 0\<rparr>"

definition name_renew_with_period :: "name_state \<Rightarrow> i64 \<Rightarrow> i64 \<Rightarrow> name_state" where
  "name_renew_with_period n years period_ms =
     n\<lparr>n_period_start := n_expires_at n, n_expires_at := n_expires_at n + years * period_ms\<rparr>"

definition name_renew :: "name_state \<Rightarrow> i64 \<Rightarrow> name_state" where
  "name_renew n years = name_renew_with_period n years year_ms"

definition name_extend_with_period :: "name_state \<Rightarrow> i64 \<Rightarrow> i64 \<Rightarrow> name_state" where
  "name_extend_with_period n years period_ms =
     n\<lparr>n_expires_at := n_expires_at n + years * period_ms\<rparr>"

definition name_extend :: "name_state \<Rightarrow> i64 \<Rightarrow> name_state" where
  "name_extend n years = name_extend_with_period n years year_ms"

definition offer_accept :: "name_state \<Rightarrow> offer_state \<Rightarrow> name_state" where
  "offer_accept n offer = n\<lparr>n_owner := o_buyer offer, n_price := 0\<rparr>"

definition merge_gaps :: "gap_state \<Rightarrow> gap_state \<Rightarrow> gap_state" where
  "merge_gaps lo_gap hi_gap = \<lparr>g_lo = g_lo lo_gap, g_hi = g_hi hi_gap\<rparr>"

section \<open>Name status\<close>

datatype name_status = Active | Grace | Lapsed

definition name_status_at :: "i64 \<Rightarrow> i64 \<Rightarrow> i64 \<Rightarrow> name_status" where
  "name_status_at expires_at grace_ms now_ms =
     (if now_ms <s expires_at then Active
      else if now_ms <s expires_at + grace_ms then Grace
      else Lapsed)"

section \<open>Laws\<close>

lemma manifest_names_contract:
  "from_manifest_name ct nm = Some e \<Longrightarrow> entry_contract e = ct"
  unfolding from_manifest_name_def manifest_names_def
  by (drule map_of_SomeD) auto

lemma distinct_v2_tags: "distinct (map fst v2_tags)" "distinct (map snd v2_tags)"
  by (simp_all add: v2_tags_def)

lemma entry_for_tag_inj:
  assumes "entry_for_tag s = Some e" and "entry_for_tag t = Some e"
  shows "s = t"
proof -
  have "(s, e) \<in> set v2_tags" "(t, e) \<in> set v2_tags"
    using assms by (auto simp: entry_for_tag_def dest: map_of_SomeD)
  then show ?thesis
    using distinct_v2_tags(2) by (metis Pair_inject distinct_map inj_onD snd_conv)
qed

text \<open>A registration split is undone by the exit that merges its two gaps.\<close>

lemma register_merge:
  assumes "register_with_period c gap name owner now years period = (left, right, nm)"
  shows "merge_gaps left right = gap" and "g_hi left = n_key nm" and "g_lo right = n_key nm"
    and "n_key nm = name_key c name"
  using assms by (auto simp: register_with_period_def merge_gaps_def Let_def)

text \<open>Signed sums and products that stay inside \<open>i64\<close> are exact.\<close>

definition i64_fits :: "int \<Rightarrow> bool" where
  "i64_fits k \<longleftrightarrow> - (2 ^ 63) \<le> k \<and> k < 2 ^ 63"

lemma sint_of_int: "i64_fits k \<Longrightarrow> sint (word_of_int k :: i64) = k"
  by (simp add: i64_fits_def sint_sbintrunc' signed_take_bit_int_eq_self)

lemma sint_add_mult:
  assumes "i64_fits (sint a + sint b * sint p)"
  shows "sint (a + b * p :: i64) = sint a + sint b * sint p"
proof -
  have "a + b * p = word_of_int (sint a + sint b * sint p)"
    by (simp add: wi_hom_add [symmetric] wi_hom_mult [symmetric])
  then show ?thesis using sint_of_int [OF assms] by simp
qed

lemma sint_add_exact: "i64_fits (sint a + sint b) \<Longrightarrow> sint (a + b :: i64) = sint a + sint b"
  using sint_add_mult [of a b 1] by simp

end
