(* ===== verification/Templates.thy ===== *)
theory Templates
  imports Transition "HOL-Library.Monad_Syntax"
begin

text \<open>
  The first half of \<open>kachat-names/src/ingest.rs\<close>: tracked UTXOs, contract templates built from a
  manifest, transactions. The JSON value of the manifest (\<open>serde_json::Value\<close>) is known only by
  its accessors, the fields of a record the definitions take.
\<close>

section \<open>Tracked UTXOs and templates\<close>

type_synonym outpoint = "bytes \<times> u32"

datatype tracked = TGap gap_state | TName name_state | TOffer offer_state | TShard price_state

fun tracked_contract :: "tracked \<Rightarrow> contract" where
  "tracked_contract (TGap _) = Gap"
| "tracked_contract (TName _) = Name"
| "tracked_contract (TOffer _) = Offer"
| "tracked_contract (TShard _) = Price"

record contract_template =
  prefix :: bytes
  suffix :: bytes
  state_offset :: nat
  state_len :: nat

definition template_redeem :: "contract_template \<Rightarrow> bytes \<Rightarrow> bytes" where
  "template_redeem t state = prefix t @ state @ suffix t"

definition template_spk :: "crypto \<Rightarrow> contract_template \<Rightarrow> bytes \<Rightarrow> bytes" where
  "template_spk c t state = p2sh_script c (template_redeem t state)"

record templates =
  t_version :: u32
  t_gap :: contract_template
  t_name :: contract_template
  t_offer :: contract_template
  t_price :: "contract_template option"
  t_tags :: "(contract \<times> bytes \<times> entry) list"
  t_period_ms :: i64
  t_registry_id :: "bytes option"
  t_price_id :: "bytes option"

definition templates_new ::
    "contract_template \<Rightarrow> contract_template \<Rightarrow> contract_template \<Rightarrow> templates" where
  "templates_new gap name offer =
     \<lparr>t_version = 2, t_gap = gap, t_name = name, t_offer = offer, t_price = None, t_tags = [],
      t_period_ms = year_ms, t_registry_id = None, t_price_id = None\<rparr>"

section \<open>Reading a manifest\<close>

record 'j json_api =
  j_get :: "'j \<Rightarrow> bytes \<Rightarrow> 'j option" \<comment> \<open>\<open>Value::get\<close>\<close>
  j_str :: "'j \<Rightarrow> bytes option" \<comment> \<open>\<open>Value::as_str\<close>\<close>
  j_u64 :: "'j \<Rightarrow> u64 option" \<comment> \<open>\<open>Value::as_u64\<close>\<close>
  j_i64 :: "'j \<Rightarrow> i64 option" \<comment> \<open>\<open>Value::as_i64\<close>\<close>
  j_object :: "'j \<Rightarrow> (bytes \<times> 'j) list option" \<comment> \<open>\<open>Value::as_object\<close>, in iteration order\<close>

definition sized :: "nat \<Rightarrow> bytes \<Rightarrow> bytes option" where
  "sized n b = (if length b = n then Some b else None)"

definition decode32 :: "crypto \<Rightarrow> bytes \<Rightarrow> bytes option" where
  "decode32 c s = Option.bind (hex_decode c s) (sized 32)"

definition manifest_template :: "crypto \<Rightarrow> 'j json_api \<Rightarrow> 'j \<Rightarrow> string \<Rightarrow> contract_template option" where
  "manifest_template c J manifest ct = do {
     arts \<leftarrow> j_get J manifest (ascii ''artifacts'');
     a \<leftarrow> j_get J arts (ascii ct);
     ph \<leftarrow> j_get J a (ascii ''prefixHex'');
     ps \<leftarrow> j_str J ph;
     pre \<leftarrow> hex_decode c ps;
     sh \<leftarrow> j_get J a (ascii ''suffixHex'');
     ss \<leftarrow> j_str J sh;
     suf \<leftarrow> hex_decode c ss;
     span \<leftarrow> j_get J a (ascii ''stateSpan'');
     offv \<leftarrow> j_get J span (ascii ''offset'');
     off \<leftarrow> j_u64 J offv;
     lenv \<leftarrow> j_get J span (ascii ''len'');
     len \<leftarrow> j_u64 J lenv;
     Some \<lparr>prefix = pre, suffix = suf, state_offset = unat off, state_len = unat len\<rparr>
   }"

definition manifest_version :: "'j json_api \<Rightarrow> 'j \<Rightarrow> u64" where
  "manifest_version J manifest =
     (let v = (case j_get J manifest (ascii ''registryVersion'') of
                 Some x \<Rightarrow> Some x
               | None \<Rightarrow> do { p \<leftarrow> j_get J manifest (ascii ''params'');
                              j_get J p (ascii ''registryVersion'') })
      in case Option.bind v (j_u64 J) of Some n \<Rightarrow> n | None \<Rightarrow> 2)"

definition manifest_id :: "crypto \<Rightarrow> 'j json_api \<Rightarrow> 'j \<Rightarrow> string \<Rightarrow> bytes option" where
  "manifest_id c J manifest k = do {
     v \<leftarrow> j_get J manifest (ascii k);
     s \<leftarrow> j_str J v;
     decode32 c s
   }"

text \<open>The tags of one contract; \<open>None\<close> when an entry or a tag is malformed.\<close>

fun contract_tags ::
    "crypto \<Rightarrow> 'j json_api \<Rightarrow> contract \<Rightarrow> (bytes \<times> 'j) list \<Rightarrow> (contract \<times> bytes \<times> entry) list option" where
  "contract_tags c J ct [] = Some []"
| "contract_tags c J ct ((nm, tag) # rest) = do {
     e \<leftarrow> from_manifest_name ct nm;
     s \<leftarrow> j_str J tag;
     h \<leftarrow> hex_decode c s;
     b \<leftarrow> sized 4 h;
     more \<leftarrow> contract_tags c J ct rest;
     Some ((ct, b, e) # more)
   }"

fun manifest_tags ::
    "crypto \<Rightarrow> 'j json_api \<Rightarrow> 'j \<Rightarrow> (string \<times> contract) list \<Rightarrow> (contract \<times> bytes \<times> entry) list option" where
  "manifest_tags c J manifest [] = Some []"
| "manifest_tags c J manifest ((artifact, ct) # rest) =
     (case do { arts \<leftarrow> j_get J manifest (ascii ''artifacts'');
                a \<leftarrow> j_get J arts (ascii artifact);
                j_get J a (ascii ''dispatchTags'') } of
        None \<Rightarrow> manifest_tags c J manifest rest
      | Some tags \<Rightarrow> do {
          obj \<leftarrow> j_object J tags;
          here \<leftarrow> contract_tags c J ct obj;
          more \<leftarrow> manifest_tags c J manifest rest;
          Some (here @ more)
        })"

definition from_manifest :: "crypto \<Rightarrow> 'j json_api \<Rightarrow> 'j \<Rightarrow> templates option" where
  "from_manifest c J manifest = do {
     gap \<leftarrow> manifest_template c J manifest ''KachatGap'';
     name \<leftarrow> manifest_template c J manifest ''KachatName'';
     offer \<leftarrow> manifest_template c J manifest ''KachatOffer'';
     let t = templates_new gap name offer;
     let version = manifest_version J manifest;
     if version > 5 then None else do {
       let t = t\<lparr>t_version := ucast version\<rparr>;
       t \<leftarrow> (if version \<ge> 3 then do {
               rid \<leftarrow> manifest_id c J manifest ''registryCovenantId'';
               params \<leftarrow> j_get J manifest (ascii ''params'');
               pm \<leftarrow> j_get J params (ascii ''periodMs'');
               period \<leftarrow> j_i64 J pm;
               Some (t\<lparr>t_registry_id := Some rid, t_period_ms := period\<rparr>)
             } else Some t);
       t \<leftarrow> (if version = 3 then do {
               price \<leftarrow> manifest_template c J manifest ''KachatPrice'';
               pid \<leftarrow> manifest_id c J manifest ''priceCovenantId'';
               Some (t\<lparr>t_price := Some price, t_price_id := Some pid\<rparr>)
             } else Some t);
       tags \<leftarrow> manifest_tags c J manifest
         [(''KachatGap'', Gap), (''KachatName'', Name), (''KachatOffer'', Offer),
          (''KachatPrice'', Price)];
       let t = t\<lparr>t_tags := tags\<rparr>;
       (if version \<ge> 3 \<and> tags = [] then None else Some t)
     }
   }"

definition is_covenant_registry :: "templates \<Rightarrow> bool" where
  "is_covenant_registry t \<longleftrightarrow> t_version t \<ge> 3"

definition has_price_record :: "templates \<Rightarrow> bool" where
  "has_price_record t \<longleftrightarrow> t_price t \<noteq> None"

text \<open>The entry a spend of \<open>contract\<close> with a dispatch tag calls.\<close>

definition templates_entry :: "templates \<Rightarrow> contract \<Rightarrow> bytes \<Rightarrow> entry option" where
  "templates_entry t ct tag =
     (if t_tags t = [] then
        (case entry_for_tag tag of
           None \<Rightarrow> None | Some e \<Rightarrow> if entry_contract e = ct then Some e else None)
      else map_option (\<lambda>(_, _, e). e) (find (\<lambda>(ct', tag', _). ct' = ct \<and> tag' = tag) (t_tags t)))"

definition gap_spk :: "crypto \<Rightarrow> templates \<Rightarrow> gap_state \<Rightarrow> bytes" where
  "gap_spk c t s = template_spk c (t_gap t) (gap_encode s)"

definition name_spk :: "crypto \<Rightarrow> templates \<Rightarrow> name_state \<Rightarrow> bytes" where
  "name_spk c t s = template_spk c (t_name t) (name_encode s)"

definition offer_spk :: "crypto \<Rightarrow> templates \<Rightarrow> offer_state \<Rightarrow> bytes" where
  "offer_spk c t s = template_spk c (t_offer t) (offer_encode s)"

definition price_spk :: "crypto \<Rightarrow> templates \<Rightarrow> price_state \<Rightarrow> bytes" where
  "price_spk c t s =
     (case t_price t of None \<Rightarrow> [] | Some p \<Rightarrow> template_spk c p (price_encode s))"

fun tracked_spk :: "crypto \<Rightarrow> templates \<Rightarrow> tracked \<Rightarrow> bytes" where
  "tracked_spk c t (TGap g) = gap_spk c t g"
| "tracked_spk c t (TName n) = name_spk c t n"
| "tracked_spk c t (TOffer ofr) = offer_spk c t ofr"
| "tracked_spk c t (TShard p) = price_spk c t p"

section \<open>Transactions\<close>

record covenant_binding =
  authorizing_input :: u16
  covenant_id :: bytes

record tx_input =
  previous_outpoint :: outpoint
  signature_script :: bytes
  spent_script :: bytes
  spent_amount :: "u64 option"

record tx_output =
  script_public_key :: bytes
  out_value :: u64
  covenant :: "covenant_binding option"

record tx =
  tx_id :: bytes
  inputs :: "tx_input list"
  outputs :: "tx_output list"
  payload :: bytes
  accepting_block :: bytes
  accepting_daa :: u64
  block_time :: i64

text \<open>The running sum of amounts; \<open>None\<close> once one is unknown or the sum overflows.\<close>

fun checked_sum :: "u64 \<Rightarrow> u64 option list \<Rightarrow> u64 option" where
  "checked_sum acc [] = Some acc"
| "checked_sum acc (v # vs) = do { a \<leftarrow> v; s \<leftarrow> u64_checked_add acc a; checked_sum s vs }"

definition tx_fee :: "tx \<Rightarrow> i64 option" where
  "tx_fee t = do {
     spent \<leftarrow> checked_sum 0 (map spent_amount (inputs t));
     out \<leftarrow> checked_sum 0 (map (\<lambda>x. Some (out_value x)) (outputs t));
     d \<leftarrow> u64_checked_sub spent out;
     i64_try_from_u64 d
   }"

end
