(* ===== verification/Profile.thy ===== *)
theory Profile
  imports Codec
begin

text \<open>
  \<open>kachat-names/src/profile.rs\<close>: validation of an address profile record. The JSON decoder
  (\<open>serde_json::from_str\<close> into \<open>RawProfile\<close>) is a parameter.
\<close>

section \<open>The record and its allowlists\<close>

definition max_profile_bytes :: nat where
  "max_profile_bytes = 2048"

definition host_x :: bytes where "host_x = ascii ''https://x.com/''"
definition host_youtube :: bytes where "host_youtube = ascii ''https://www.youtube.com/''"
definition host_discord :: bytes where "host_discord = ascii ''https://discord.gg/''"
definition host_telegram :: bytes where "host_telegram = ascii ''https://t.me/''"
definition host_twitch :: bytes where "host_twitch = ascii ''https://www.twitch.tv/''"
definition host_github :: bytes where "host_github = ascii ''https://github.com/''"
definition host_facebook :: bytes where "host_facebook = ascii ''https://www.facebook.com/''"
definition host_instagram :: bytes where "host_instagram = ascii ''https://www.instagram.com/''"
definition host_tiktok :: bytes where "host_tiktok = ascii ''https://www.tiktok.com/''"
definition host_linkedin :: bytes where "host_linkedin = ascii ''https://www.linkedin.com/''"

lemmas host_defs = host_x_def host_youtube_def host_discord_def host_telegram_def host_twitch_def
  host_github_def host_facebook_def host_instagram_def host_tiktok_def host_linkedin_def

definition avatar_hosts :: "bytes list" where
  "avatar_hosts = [host_x, host_youtube, host_discord, host_telegram, host_twitch, host_github,
     host_facebook, host_instagram, host_tiktok, host_linkedin]"

definition banner_hosts :: "bytes list" where
  "banner_hosts = [host_x, host_youtube, host_discord]"

definition bio_hosts :: "bytes list" where
  "bio_hosts = [host_x, host_youtube, host_discord, host_telegram, host_twitch, host_github]"

definition linktree_prefix :: bytes where
  "linktree_prefix = ascii ''https://linktr.ee/''"

record profile =
  avatar :: "bytes option"
  banner :: "bytes option"
  bio :: "bytes option"
  linktree :: "bytes option"
  primary_name :: "bytes option"

record raw_profile =
  raw_v :: "u32 option"
  raw_avatar :: "bytes option"
  raw_banner :: "bytes option"
  raw_bio :: "bytes option"
  raw_linktree :: "bytes option"
  raw_primary_name :: "bytes option"

section \<open>Validation\<close>

definition allowed :: "bytes \<Rightarrow> bytes list \<Rightarrow> bool" where
  "allowed url hosts \<longleftrightarrow> list_ex (\<lambda>h. starts_with h url \<and> length url > length h) hosts"

text \<open>\<open>Option::filter\<close>.\<close>

definition option_filter :: "('a \<Rightarrow> bool) \<Rightarrow> 'a option \<Rightarrow> 'a option" where
  "option_filter p x = (case x of None \<Rightarrow> None | Some a \<Rightarrow> if p a then Some a else None)"

definition parse_profile :: "(bytes \<Rightarrow> raw_profile option) \<Rightarrow> bytes \<Rightarrow> profile option" where
  "parse_profile from_json json =
     (if length json > max_profile_bytes then None
      else case from_json json of
             None \<Rightarrow> None
           | Some raw \<Rightarrow>
               if raw_v raw \<noteq> Some 1 then None
               else Some
                 \<lparr>avatar = option_filter (\<lambda>s. allowed s avatar_hosts) (raw_avatar raw),
                  banner = option_filter (\<lambda>s. allowed s banner_hosts) (raw_banner raw),
                  bio = option_filter (\<lambda>s. allowed s bio_hosts) (raw_bio raw),
                  linktree = option_filter
                    (\<lambda>s. starts_with linktree_prefix s \<and> length s > length linktree_prefix)
                    (raw_linktree raw),
                  primary_name = option_filter is_valid_name (raw_primary_name raw)\<rparr>)"

definition platform_of :: "bytes \<Rightarrow> string option" where
  "platform_of url =
     map_option snd (find (\<lambda>(h, _). starts_with h url)
       [(host_x, ''x''), (host_youtube, ''youtube''), (host_discord, ''discord''),
        (host_telegram, ''telegram''), (host_twitch, ''twitch''), (host_github, ''github''),
        (host_facebook, ''facebook''), (host_instagram, ''instagram''),
        (host_tiktok, ''tiktok''), (host_linkedin, ''linkedin'')])"

section \<open>Laws\<close>

lemma option_filter_Some [simp]:
  "option_filter p x = Some a \<longleftrightarrow> x = Some a \<and> p a"
  by (auto simp: option_filter_def split: option.splits if_splits)

lemma allowed_mono: "allowed url hs \<Longrightarrow> set hs \<subseteq> set hs' \<Longrightarrow> allowed url hs'"
  by (auto simp: allowed_def list_ex_iff)

lemma hosts_nested: "set banner_hosts \<subseteq> set bio_hosts" "set bio_hosts \<subseteq> set avatar_hosts"
  by (simp_all add: banner_hosts_def bio_hosts_def avatar_hosts_def)

lemma find_Some_ex: "\<exists>x \<in> set xs. p x \<Longrightarrow> \<exists>y. find p xs = Some y"
  by (induction xs) auto

lemma allowed_platform: "allowed url avatar_hosts \<Longrightarrow> platform_of url \<noteq> None"
proof -
  assume "allowed url avatar_hosts"
  then obtain h where h: "h \<in> set avatar_hosts" "starts_with h url"
    by (auto simp: allowed_def list_ex_iff)
  let ?ps = "[(host_x, ''x''), (host_youtube, ''youtube''), (host_discord, ''discord''),
        (host_telegram, ''telegram''), (host_twitch, ''twitch''), (host_github, ''github''),
        (host_facebook, ''facebook''), (host_instagram, ''instagram''),
        (host_tiktok, ''tiktok''), (host_linkedin, ''linkedin'')]"
  have "set avatar_hosts = fst ` set ?ps" by (simp add: avatar_hosts_def)
  with h have "\<exists>x \<in> set ?ps. case x of (h, _) \<Rightarrow> starts_with h url" by fastforce
  from find_Some_ex [OF this] show ?thesis by (auto simp: platform_of_def)
qed

end
