(* ===== verification/Ingest.thy ===== *)
theory Ingest
  imports Templates Profile "HOL-Library.List_Lexorder" "HOL-Library.Product_Lexorder"
begin

text \<open>
  The registry applier of \<open>kachat-names/src/ingest.rs\<close>: one accepted transaction against the
  tracked UTXOs and profiles, the undo journal, and the rollback of a removed chain block.
  \<open>&mut self\<close>, the claimed outputs and the event list are threaded as one state.
\<close>

section \<open>State\<close>

type_synonym order_key = "u64 \<times> bytes" \<comment> \<open>accepting DAA score, transaction id\<close>
type_synonym profile_entry = "bytes \<times> order_key"

text \<open>What one applied transaction changed.\<close>

record undo_entry =
  ue_block :: bytes
  ue_added :: "outpoint list"
  ue_removed :: "(outpoint \<times> tracked) list"
  ue_profile :: "(bytes \<times> profile_entry option) option"

record event =
  ev_op :: string
  ev_key :: bytes
  ev_tx_id :: bytes
  ev_block :: bytes
  ev_daa :: u64
  ev_at :: i64
  ev_from :: "bytes option"
  ev_to :: "bytes option"
  ev_price :: "i64 option"
  ev_years :: "i64 option"
  ev_fee :: "i64 option"

record registry =
  utxos :: "(outpoint, tracked) hash_map"
  profiles :: "(bytes, profile_entry) hash_map"
  journal :: "undo_entry list"

text \<open>The crates the applier calls.\<close>

record deps =
  hashes :: crypto
  profile_json :: "bytes \<Rightarrow> raw_profile option"

record spend =
  sp_index :: nat
  sp_outpoint :: outpoint
  sp_tracked :: tracked
  sp_entry :: entry
  sp_sig :: sig_script

text \<open>The registry, the outputs already claimed, the events so far.\<close>

record run =
  r_reg :: registry
  r_used :: "nat list"
  r_events :: "event list"

definition registry_new :: registry where
  "registry_new = \<lparr>utxos = [], profiles = [], journal = []\<rparr>"

definition utxo_put :: "outpoint \<Rightarrow> tracked \<Rightarrow> registry \<Rightarrow> registry" where
  "utxo_put x t r = r\<lparr>utxos := hm_insert x t (utxos r)\<rparr>"

definition seed_genesis :: "registry \<Rightarrow> outpoint \<Rightarrow> gap_state \<Rightarrow> registry" where
  "seed_genesis r x gap = utxo_put x (TGap gap) r"

definition seed_shard :: "registry \<Rightarrow> outpoint \<Rightarrow> price_state \<Rightarrow> registry" where
  "seed_shard r x shard = utxo_put x (TShard shard) r"

definition registry_names :: "registry \<Rightarrow> (outpoint \<times> name_state) list" where
  "registry_names r =
     List.map_filter (\<lambda>(x, t). case t of TName n \<Rightarrow> Some (x, n) | _ \<Rightarrow> None) (utxos r)"

definition name_by_key :: "registry \<Rightarrow> bytes \<Rightarrow> (outpoint \<times> name_state) option" where
  "name_by_key r k = find (\<lambda>(_, n). n_key n = k) (registry_names r)"

text \<open>The live price shards in shard order (a stable sort on the signed shard number).\<close>

definition registry_shards :: "registry \<Rightarrow> (outpoint \<times> price_state) list" where
  "registry_shards r =
     sort_key (\<lambda>(_, p). sint (p_shard p))
       (List.map_filter (\<lambda>(x, t). case t of TShard p \<Rightarrow> Some (x, p) | _ \<Rightarrow> None) (utxos r))"

section \<open>Claiming outputs\<close>

definition find_output ::
    "tx \<Rightarrow> bytes \<Rightarrow> nat list \<Rightarrow> (nat \<times> bytes) option \<Rightarrow> (nat \<times> nat list) option" where
  "find_output t spk used bnd =
     (let bindings_known = list_ex (\<lambda>x. covenant x \<noteq> None) (outputs t)
      in case find (\<lambda>(i, x).
                \<not> (i \<in> set used \<or> script_public_key x \<noteq> spk) \<and>
                \<not> (case bnd of
                     Some (auth, cid) \<Rightarrow> bindings_known \<and>
                       covenant x \<noteq> Some \<lparr>authorizing_input = word_of_nat auth, covenant_id = cid\<rparr>
                   | None \<Rightarrow> False))
              (enumerate 0 (outputs t)) of
           None \<Rightarrow> None
         | Some (i, _) \<Rightarrow> Some (i, used @ [i]))"

definition reg_bind :: "templates \<Rightarrow> nat \<Rightarrow> (nat \<times> bytes) option" where
  "reg_bind tp auth = map_option (\<lambda>cid. (auth, cid)) (t_registry_id tp)"

text \<open>
  The step every continuation makes: find an unclaimed output with the script of the predicted
  state and, if there is one, track the state there. The flag says whether it was found.
\<close>

definition track_output ::
    "crypto \<Rightarrow> templates \<Rightarrow> tx \<Rightarrow> tracked \<Rightarrow> (nat \<times> bytes) option \<Rightarrow> run \<Rightarrow> run \<times> bool" where
  "track_output c tp t s bnd st =
     (case find_output t (tracked_spk c tp s) (r_used st) bnd of
        None \<Rightarrow> (st, False)
      | Some (i, used) \<Rightarrow>
          (st\<lparr>r_reg := utxo_put (tx_id t, word_of_nat i) s (r_reg st), r_used := used\<rparr>, True))"

definition new_event :: "string \<Rightarrow> bytes \<Rightarrow> tx \<Rightarrow> event" where
  "new_event op k t =
     \<lparr>ev_op = op, ev_key = k, ev_tx_id = tx_id t, ev_block = accepting_block t,
      ev_daa = accepting_daa t, ev_at = block_time t, ev_from = None, ev_to = None,
      ev_price = None, ev_years = None, ev_fee = tx_fee t\<rparr>"

definition push_event :: "event \<Rightarrow> run \<Rightarrow> run" where
  "push_event e st = st\<lparr>r_events := r_events st @ [e]\<rparr>"

definition record_name ::
    "crypto \<Rightarrow> templates \<Rightarrow> tx \<Rightarrow> nat \<Rightarrow> name_state \<Rightarrow> string \<Rightarrow> name_state option \<Rightarrow> i64 option
       \<Rightarrow> i64 option \<Rightarrow> run \<Rightarrow> run" where
  "record_name c tp t auth ns op old price years st =
     (case track_output c tp t (TName ns) (reg_bind tp auth) st of
        (st', False) \<Rightarrow> st'
      | (st', True) \<Rightarrow>
          let e = new_event op (n_key ns) t;
              e = (case old of
                     Some ol \<Rightarrow> if n_owner ol \<noteq> n_owner ns
                                then e\<lparr>ev_from := Some (n_owner ol), ev_to := Some (n_owner ns)\<rparr>
                                else e
                   | None \<Rightarrow> e)
          in push_event (e\<lparr>ev_price := price, ev_years := years\<rparr>) st')"

section \<open>Arguments of an entry\<close>

definition arg_data :: "sig_script \<Rightarrow> nat \<Rightarrow> bytes option" where
  "arg_data sg k = Option.bind (get_at (args sg) k) push_data"

definition arg_32 :: "sig_script \<Rightarrow> nat \<Rightarrow> bytes option" where
  "arg_32 sg k = Option.bind (arg_data sg k) (sized 32)"

definition arg_i64 :: "sig_script \<Rightarrow> nat \<Rightarrow> i64 option" where
  "arg_i64 sg k = Option.bind (get_at (args sg) k) push_as_i64"

definition has_entry :: "spend list \<Rightarrow> entry \<Rightarrow> bool" where
  "has_entry spends e = list_ex (\<lambda>s. sp_entry s = e) spends"

section \<open>Price shards\<close>

definition shard_inputs :: "spend list \<Rightarrow> (nat \<times> price_state) list" where
  "shard_inputs spends =
     List.map_filter (\<lambda>s. case sp_tracked s of TShard p \<Rightarrow> Some (sp_index s, p) | _ \<Rightarrow> None) spends"

text \<open>The inner loop of an update: every shard's continuation, counting those found.\<close>

definition move_shard ::
    "crypto \<Rightarrow> templates \<Rightarrow> tx \<Rightarrow> bytes \<Rightarrow> bytes \<Rightarrow> i64 list \<Rightarrow> nat \<times> price_state
       \<Rightarrow> run \<times> nat \<Rightarrow> run \<times> nat" where
  "move_shard c tp t price_id authority prices x acc =
     (let shard = \<lparr>p_shard = p_shard (snd x), p_authority = authority, p_prices = prices\<rparr>;
          r = track_output c tp t (TShard shard) (Some (fst x, price_id)) (fst acc)
      in (fst r, if snd r then Suc (snd acc) else snd acc))"

definition update_shards ::
    "crypto \<Rightarrow> templates \<Rightarrow> tx \<Rightarrow> bytes \<Rightarrow> bytes \<Rightarrow> i64 list \<Rightarrow> (nat \<times> price_state) list
       \<Rightarrow> run \<Rightarrow> run \<times> nat" where
  "update_shards c tp t price_id authority prices shard_ins st =
     fold (move_shard c tp t price_id authority prices) shard_ins (st, 0)"

definition apply_price_spend ::
    "crypto \<Rightarrow> templates \<Rightarrow> tx \<Rightarrow> bytes \<Rightarrow> (nat \<times> price_state) list \<Rightarrow> spend \<Rightarrow> run \<Rightarrow> run" where
  "apply_price_spend c tp t price_id shard_ins s st =
     (case sp_tracked s of
        TShard cur \<Rightarrow>
          (case sp_entry s of
             PriceUse \<Rightarrow>
               fst (track_output c tp t (TShard cur) (Some (sp_index s, price_id)) st)
           | PriceUpdate \<Rightarrow>
               (case (arg_32 (sp_sig s) 0, those (map (arg_i64 (sp_sig s)) [1, 2, 3, 4, 5])) of
                  (Some authority, Some prices) \<Rightarrow>
                    if list_ex (\<lambda>p. p <s 0) prices then st
                    else
                      let (st', moved) =
                            update_shards c tp t price_id authority prices shard_ins st
                      in if moved > 0
                         then push_event
                                ((new_event (if prices = p_prices cur then ''price_authority''
                                             else ''prices'') (replicate 32 0) t)
                                   \<lparr>ev_from := Some (p_authority cur), ev_to := Some authority\<rparr>) st'
                         else st'
                | _ \<Rightarrow> st)
           | _ \<Rightarrow> st)
      | _ \<Rightarrow> st)"

definition apply_price_spends ::
    "crypto \<Rightarrow> templates \<Rightarrow> tx \<Rightarrow> spend list \<Rightarrow> run \<Rightarrow> run" where
  "apply_price_spends c tp t spends st =
     (case t_price_id tp of
        None \<Rightarrow> st
      | Some price_id \<Rightarrow>
          fold (apply_price_spend c tp t price_id (shard_inputs spends)) spends st)"

section \<open>Spends of gaps\<close>

text \<open>The outputs of a split in order: left gap, right gap, name; then the event of the name.\<close>

definition track_split ::
    "crypto \<Rightarrow> templates \<Rightarrow> tx \<Rightarrow> nat \<Rightarrow> gap_state \<times> gap_state \<times> name_state \<Rightarrow> string \<Rightarrow> i64 option
       \<Rightarrow> run \<Rightarrow> run" where
  "track_split c tp t auth split op years st =
     (case split of (left, right, nm) \<Rightarrow>
        let bnd = reg_bind tp auth;
            st1 = fst (track_output c tp t (TGap left) bnd st);
            st2 = fst (track_output c tp t (TGap right) bnd st1)
        in case track_output c tp t (TName nm) bnd st2 of
             (st3, False) \<Rightarrow> st3
           | (st3, True) \<Rightarrow>
               push_event ((new_event op (n_key nm) t)\<lparr>ev_to := Some (n_owner nm),
                           ev_years := years\<rparr>) st3)"

definition apply_register ::
    "crypto \<Rightarrow> templates \<Rightarrow> tx \<Rightarrow> spend list \<Rightarrow> run \<Rightarrow> run" where
  "apply_register c tp t spends st =
     (case find (\<lambda>s. sp_entry s = GapRegister) spends of
        None \<Rightarrow> st
      | Some s \<Rightarrow>
          (case sp_tracked s of
             TGap gap \<Rightarrow>
               (let sg = sp_sig s in
                case (arg_data sg 0, arg_32 sg 1, arg_i64 sg 3, arg_i64 sg 4) of
                  (Some name, Some owner, Some now, Some years) \<Rightarrow>
                    if \<not> is_valid_name name then st
                    else track_split c tp t (sp_index s)
                           (register_with_period c gap name owner now years (t_period_ms tp))
                           ''register'' (Some years) st
                | _ \<Rightarrow> st)
           | _ \<Rightarrow> st))"

definition apply_import ::
    "crypto \<Rightarrow> templates \<Rightarrow> tx \<Rightarrow> spend list \<Rightarrow> run \<Rightarrow> run" where
  "apply_import c tp t spends st =
     (case find (\<lambda>s. sp_entry s = GapImport) spends of
        None \<Rightarrow> st
      | Some s \<Rightarrow>
          (case sp_tracked s of
             TGap gap \<Rightarrow>
               (let sg = sp_sig s in
                case (arg_data sg 0, arg_32 sg 1, arg_i64 sg 2, arg_i64 sg 3) of
                  (Some name, Some owner, Some period_start, Some expires_at) \<Rightarrow>
                    if \<not> is_valid_name name then st
                    else track_split c tp t (sp_index s)
                           (import_name c gap name owner period_start expires_at)
                           ''import'' None st
                | _ \<Rightarrow> st)
           | _ \<Rightarrow> st))"

text \<open>The exit: two gaps around a released or reclaimed name collapse into one.\<close>

definition find_gap :: "entry \<Rightarrow> spend list \<Rightarrow> (nat \<times> gap_state) option" where
  "find_gap e spends =
     (case List.map_filter (\<lambda>s. case sp_tracked s of
                         TGap g \<Rightarrow> if sp_entry s = e then Some (sp_index s, g) else None
                       | _ \<Rightarrow> None) spends of
        [] \<Rightarrow> None | x # _ \<Rightarrow> Some x)"

definition exit_event :: "tx \<Rightarrow> spend \<Rightarrow> run \<Rightarrow> run" where
  "exit_event t s st =
     (case sp_tracked s of
        TName n \<Rightarrow>
          push_event ((new_event (if sp_entry s = NameReclaim then ''reclaim'' else ''release'')
                        (n_key n) t)\<lparr>ev_from := Some (n_owner n)\<rparr>) st
      | _ \<Rightarrow> st)"

definition apply_exit :: "crypto \<Rightarrow> templates \<Rightarrow> tx \<Rightarrow> spend list \<Rightarrow> run \<Rightarrow> run" where
  "apply_exit c tp t spends st =
     fold (exit_event t) spends
       (case (find_gap GapMerge spends, find_gap GapAbsorbed spends) of
          (Some (auth, lo_gap), Some (_, hi_gap)) \<Rightarrow>
            fst (track_output c tp t (TGap (merge_gaps lo_gap hi_gap)) (reg_bind tp auth) st)
        | _ \<Rightarrow> st)"

section \<open>Spends of names and offers\<close>

definition offer_exit_event :: "tx \<Rightarrow> spend \<Rightarrow> run \<Rightarrow> run" where
  "offer_exit_event t s st =
     (case sp_tracked s of
        TOffer ofr \<Rightarrow>
          (case (case sp_entry s of
                   OfferDecline \<Rightarrow> Some ''offer_decline''
                 | OfferWithdraw \<Rightarrow> Some ''offer_withdraw''
                 | OfferRefund \<Rightarrow> Some ''offer_refund''
                 | _ \<Rightarrow> None) of
             None \<Rightarrow> st
           | Some op \<Rightarrow>
               push_event ((new_event op (o_key ofr) t)
                 \<lparr>ev_to := Some (o_buyer ofr), ev_from := o_seller ofr\<rparr>) st)
      | _ \<Rightarrow> st)"

definition continue_name ::
    "crypto \<Rightarrow> templates \<Rightarrow> tx \<Rightarrow> spend list \<Rightarrow> spend \<Rightarrow> name_state \<Rightarrow> run \<Rightarrow> run" where
  "continue_name c tp t spends s old st =
     (let auth = sp_index s; sg = sp_sig s; e = sp_entry s in
      if e = NameTransfer \<or> e = NameBuy then
        (case arg_32 sg 0 of
           None \<Rightarrow> st
         | Some owner \<Rightarrow>
             let ns = name_transfer old owner;
                 op = (if e = NameBuy then ''sale''
                       else if has_entry spends OfferAccept then ''offer_accepted''
                       else ''transfer'');
                 price = (if e = NameBuy then Some (n_price old) else None)
             in record_name c tp t auth ns op (Some old) price None st)
      else if e = NameList then
        (case arg_i64 sg 0 of
           None \<Rightarrow> st
         | Some price \<Rightarrow>
             record_name c tp t auth (name_list old price)
               (if price = 0 then ''delist'' else ''list'') (Some old) (Some price) None st)
      else if e = NameRenew then
        (case arg_i64 sg 0 of
           None \<Rightarrow> st
         | Some years \<Rightarrow>
             record_name c tp t auth (name_renew_with_period old years (t_period_ms tp))
               ''renew'' (Some old) None (Some years) st)
      else if e = NameExtend then
        (case arg_i64 sg 0 of
           None \<Rightarrow> st
         | Some years \<Rightarrow>
             record_name c tp t auth (name_extend_with_period old years (t_period_ms tp))
               ''extend'' (Some old) None (Some years) st)
      else st)"

definition accept_offer ::
    "crypto \<Rightarrow> templates \<Rightarrow> tx \<Rightarrow> nat \<Rightarrow> offer_state \<Rightarrow> run \<Rightarrow> run" where
  "accept_offer c tp t auth offer st =
     (case name_by_key (r_reg st) (o_key offer) of
        None \<Rightarrow> st
      | Some (_, name) \<Rightarrow>
          record_name c tp t auth (offer_accept name offer) ''offer_accepted''
            (Some name) None None st)"

definition apply_continuation ::
    "crypto \<Rightarrow> templates \<Rightarrow> tx \<Rightarrow> spend list \<Rightarrow> spend \<Rightarrow> run \<Rightarrow> run" where
  "apply_continuation c tp t spends s st =
     (case sp_tracked s of
        TName old \<Rightarrow> continue_name c tp t spends s old st
      | TOffer offer \<Rightarrow>
          if sp_entry s = OfferAccept \<and> \<not> has_entry spends NameTransfer
          then accept_offer c tp t (sp_index s) offer st else st
      | _ \<Rightarrow> st)"

definition apply_spends ::
    "crypto \<Rightarrow> templates \<Rightarrow> tx \<Rightarrow> spend list \<Rightarrow> run \<Rightarrow> run" where
  "apply_spends c tp t spends st =
     (let st = apply_price_spends c tp t spends st;
          st = fold (offer_exit_event t) spends st
      in if has_entry spends GapMerge then apply_exit c tp t spends st
         else if has_entry spends GapRegister then apply_register c tp t spends st
         else if has_entry spends GapImport then apply_import c tp t spends st
         else fold (apply_continuation c tp t spends) spends st)"

section \<open>Payload markers\<close>

definition usable_key :: "crypto \<Rightarrow> bytes \<Rightarrow> bool" where
  "usable_key c k \<longleftrightarrow> k \<noteq> replicate 32 0 \<and> xonly_ok c k"

text \<open>The offer a marker's text announces, for an offer template of this state length.\<close>

definition parse_offer_marker :: "crypto \<Rightarrow> nat \<Rightarrow> bytes \<Rightarrow> offer_state option" where
  "parse_offer_marker c len rest =
     (let parts = split_on 58 rest in
      if len = 75 then
        (case parts of
           [key_hex, buyer_hex, refund_dec] \<Rightarrow> do {
             k \<leftarrow> decode32 c key_hex;
             b \<leftarrow> decode32 c buyer_hex;
             r \<leftarrow> parse_i64 refund_dec;
             Some \<lparr>o_key = k, o_buyer = b, o_seller = None, o_refund_after = r\<rparr>
           }
         | _ \<Rightarrow> None)
      else if len = 108 then
        (case parts of
           [key_hex, buyer_hex, seller_hex, refund_dec] \<Rightarrow> do {
             k \<leftarrow> decode32 c key_hex;
             b \<leftarrow> decode32 c buyer_hex;
             s \<leftarrow> decode32 c seller_hex;
             r \<leftarrow> parse_i64 refund_dec;
             Some \<lparr>o_key = k, o_buyer = b, o_seller = Some s, o_refund_after = r\<rparr>
           }
         | _ \<Rightarrow> None)
      else None)"

definition marker_offer :: "crypto \<Rightarrow> templates \<Rightarrow> tx \<Rightarrow> offer_state option" where
  "marker_offer c tp t = do {
     text \<leftarrow> from_utf8 (payload t);
     rest \<leftarrow> strip_prefix (ascii ''kchat:1:offer:'') text;
     offer \<leftarrow> parse_offer_marker c (state_len (t_offer tp)) rest;
     (if o_refund_after offer <s 0 then None
      else if \<not> usable_key c (o_buyer offer)
              \<or> (case o_seller offer of None \<Rightarrow> False | Some s \<Rightarrow> \<not> usable_key c s) then None
      else Some offer)
   }"

definition apply_offer_marker :: "crypto \<Rightarrow> templates \<Rightarrow> tx \<Rightarrow> run \<Rightarrow> run" where
  "apply_offer_marker c tp t st =
     (case marker_offer c tp t of
        None \<Rightarrow> st
      | Some offer \<Rightarrow>
          (case find (\<lambda>(i, x). script_public_key x = offer_spk c tp offer \<and> covenant x = None)
                  (enumerate 0 (outputs t)) of
             None \<Rightarrow> st
           | Some (i, x) \<Rightarrow>
               push_event ((new_event ''offer'' (o_key offer) t)
                   \<lparr>ev_to := Some (o_buyer offer), ev_from := o_seller offer,
                    ev_price := Some (out_value x)\<rparr>)
                 (st\<lparr>r_reg := utxo_put (tx_id t, word_of_nat i) (TOffer offer) (r_reg st)\<rparr>)))"

text \<open>The record a transaction carries: the address, the JSON text and its order key.\<close>

definition profile_record ::
    "(bytes \<Rightarrow> raw_profile option) \<Rightarrow> tx \<Rightarrow> (bytes \<times> profile_entry) option" where
  "profile_record from_json t = do {
     text \<leftarrow> from_utf8 (payload t);
     json \<leftarrow> strip_prefix (ascii ''kchat:1:profile:'') text;
     _ \<leftarrow> parse_profile from_json json;
     x \<leftarrow> first (outputs t);
     let addr = script_public_key x;
     if list_ex (\<lambda>i. spent_script i \<noteq> [] \<and> spent_script i = addr) (inputs t)
     then Some (addr, json, accepting_daa t, tx_id t) else None
   }"

definition apply_profile ::
    "(bytes \<Rightarrow> raw_profile option) \<Rightarrow> tx \<Rightarrow> registry
       \<Rightarrow> registry \<times> (bytes \<times> profile_entry option) option" where
  "apply_profile from_json t r =
     (case profile_record from_json t of
        None \<Rightarrow> (r, None)
      | Some (addr, json, order) \<Rightarrow>
          (let prior = hm_get (profiles r) addr;
               newer = (case prior of None \<Rightarrow> True | Some (_, ord) \<Rightarrow> ord < order)
           in if newer
              then (r\<lparr>profiles := hm_insert addr (json, order) (profiles r)\<rparr>, Some (addr, prior))
              else (r, None)))"

section \<open>Applying a transaction\<close>

text \<open>Which inputs spend a tracked UTXO, under which entry.\<close>

definition find_spends :: "templates \<Rightarrow> registry \<Rightarrow> tx \<Rightarrow> spend list" where
  "find_spends tp r t =
     List.map_filter (\<lambda>(idx, inp). do {
         tracked \<leftarrow> hm_get (utxos r) (previous_outpoint inp);
         sg \<leftarrow> decode_sig_script (signature_script inp);
         e \<leftarrow> templates_entry tp (tracked_contract tracked) (dispatch_tag sg);
         Some \<lparr>sp_index = idx, sp_outpoint = previous_outpoint inp, sp_tracked = tracked,
               sp_entry = e, sp_sig = sg\<rparr>
       }) (enumerate 0 (inputs t))"

definition remove_all :: "outpoint list \<Rightarrow> registry \<Rightarrow> registry" where
  "remove_all xs r = r\<lparr>utxos := fold hm_remove xs (utxos r)\<rparr>"

definition apply_tx :: "deps \<Rightarrow> templates \<Rightarrow> tx \<Rightarrow> registry \<Rightarrow> registry \<times> event list" where
  "apply_tx d tp t r =
     (let before = hm_keys (utxos r);
          spends = find_spends tp r t;
          st = apply_offer_marker (hashes d) tp t \<lparr>r_reg = r, r_used = [], r_events = []\<rparr>;
          (reg1, profile_prior) = apply_profile (profile_json d) t (r_reg st);
          st = st\<lparr>r_reg := reg1\<rparr>;
          st = (if spends \<noteq> [] then apply_spends (hashes d) tp t spends st else st);
          removed = map (\<lambda>s. (sp_outpoint s, sp_tracked s)) spends;
          reg2 = remove_all (map fst removed) (r_reg st);
          added = filter (\<lambda>k. k \<notin> set before) (hm_keys (utxos reg2));
          reg3 = (if added \<noteq> [] \<or> removed \<noteq> [] \<or> profile_prior \<noteq> None
                  then reg2\<lparr>journal := journal reg2 @
                     [\<lparr>ue_block = accepting_block t, ue_added = added, ue_removed = removed,
                       ue_profile = profile_prior\<rparr>]\<rparr>
                  else reg2)
      in (reg3, r_events st))"

definition apply_profile_only ::
    "(bytes \<Rightarrow> raw_profile option) \<Rightarrow> tx \<Rightarrow> registry \<Rightarrow> registry \<times> bool" where
  "apply_profile_only from_json t r =
     (case apply_profile from_json t r of
        (r', None) \<Rightarrow> (r', False)
      | (r', Some prior) \<Rightarrow>
          (r'\<lparr>journal := journal r' @
             [\<lparr>ue_block = accepting_block t, ue_added = [], ue_removed = [],
               ue_profile = Some prior\<rparr>]\<rparr>, True))"

section \<open>The undo journal\<close>

definition undo_one :: "undo_entry \<Rightarrow> registry \<Rightarrow> registry" where
  "undo_one e r =
     (let r = r\<lparr>utxos := fold (\<lambda>(k, v). hm_insert k v) (ue_removed e)
                          (fold hm_remove (ue_added e) (utxos r))\<rparr>
      in case ue_profile e of
           None \<Rightarrow> r
         | Some (addr, Some v) \<Rightarrow> r\<lparr>profiles := hm_insert addr v (profiles r)\<rparr>
         | Some (addr, None) \<Rightarrow> r\<lparr>profiles := hm_remove addr (profiles r)\<rparr>)"

definition undo_block :: "bytes \<Rightarrow> registry \<Rightarrow> registry" where
  "undo_block block r =
     (let undo = filter (\<lambda>e. ue_block e = block) (journal r);
          keep = filter (\<lambda>e. ue_block e \<noteq> block) (journal r)
      in fold undo_one (rev undo) (r\<lparr>journal := keep\<rparr>))"

definition prune_journal :: "nat \<Rightarrow> registry \<Rightarrow> registry" where
  "prune_journal keep_last r =
     (if length (journal r) > keep_last
      then r\<lparr>journal := drop (length (journal r) - keep_last) (journal r)\<rparr> else r)"

definition journal_len :: "registry \<Rightarrow> nat" where
  "journal_len r = length (journal r)"

definition restore_journal :: "undo_entry list \<Rightarrow> registry \<Rightarrow> registry" where
  "restore_journal j r = r\<lparr>journal := j\<rparr>"

definition journal_has_block :: "bytes \<Rightarrow> registry \<Rightarrow> bool" where
  "journal_has_block block r \<longleftrightarrow> list_ex (\<lambda>e. ue_block e = block) (journal r)"

section \<open>What a claimed output satisfies\<close>

lemma find_SomeD': "find p xs = Some x \<Longrightarrow> x \<in> set xs \<and> p x"
  by (induction xs) (auto split: if_splits)

lemma enumerate_0_mem: "(i, x) \<in> set (enumerate 0 xs) \<longleftrightarrow> i < length xs \<and> x = xs ! i"
  by (auto simp: in_set_enumerate_eq)

definition bindings_known :: "tx \<Rightarrow> bool" where
  "bindings_known t \<longleftrightarrow> list_ex (\<lambda>x. covenant x \<noteq> None) (outputs t)"

lemma find_output_Some:
  assumes "find_output t spk used bnd = Some (i, used')"
  shows "i < length (outputs t)" and "i \<notin> set used" and "used' = used @ [i]"
    and "script_public_key (outputs t ! i) = spk"
    and "bnd = Some (auth, cid) \<Longrightarrow> bindings_known t \<Longrightarrow>
      covenant (outputs t ! i) = Some \<lparr>authorizing_input = word_of_nat auth, covenant_id = cid\<rparr>"
  using assms
  by (auto simp: find_output_def bindings_known_def enumerate_0_mem Let_def
      dest!: find_SomeD' split: option.splits prod.splits)

text \<open>The covenant id a tracked state's output must carry.\<close>

fun state_covenant :: "templates \<Rightarrow> tracked \<Rightarrow> bytes option" where
  "state_covenant tp (TGap _) = t_registry_id tp"
| "state_covenant tp (TName _) = t_registry_id tp"
| "state_covenant tp (TShard _) = t_price_id tp"
| "state_covenant tp (TOffer _) = None"

text \<open>
  An outpoint of the transaction whose script is that of the state. When the node reports
  covenants, a gap, a name and a shard sit on an output bound to their covenant; an offer sits
  on an output with none.
\<close>

definition verified :: "crypto \<Rightarrow> templates \<Rightarrow> tx \<Rightarrow> outpoint \<Rightarrow> tracked \<Rightarrow> bool" where
  "verified c tp t k s \<longleftrightarrow>
     (\<exists>i < length (outputs t).
        k = (tx_id t, word_of_nat i) \<and>
        script_public_key (outputs t ! i) = tracked_spk c tp s \<and>
        (case s of TOffer _ \<Rightarrow> covenant (outputs t ! i) = None | _ \<Rightarrow> True) \<and>
        (\<forall>cid. state_covenant tp s = Some cid \<longrightarrow> bindings_known t \<longrightarrow>
           (\<exists>auth. covenant (outputs t ! i)
              = Some \<lparr>authorizing_input = auth, covenant_id = cid\<rparr>)))"

section \<open>Invariants of the applier\<close>

text \<open>
  Every handler of a spend changes the run only by tracking predicted states on outputs and by
  emitting events. A predicate those two steps keep is kept by all of them.
\<close>

locale run_invariant =
  fixes c :: crypto and tp :: templates and t :: tx and P :: "run \<Rightarrow> bool"
  assumes track_gap: "P st \<Longrightarrow> P (fst (track_output c tp t (TGap g) (reg_bind tp auth) st))"
    and track_name: "P st \<Longrightarrow> P (fst (track_output c tp t (TName n) (reg_bind tp auth) st))"
    and track_shard: "t_price_id tp = Some pid \<Longrightarrow> P st \<Longrightarrow>
      P (fst (track_output c tp t (TShard p) (Some (j, pid)) st))"
    and event: "P st \<Longrightarrow> P (push_event e st)"
begin

lemma fold_keeps: "(\<And>x st. P st \<Longrightarrow> P (f x st)) \<Longrightarrow> P st \<Longrightarrow> P (fold f xs st)"
  by (induction xs arbitrary: st) auto

lemma record_name: "P st \<Longrightarrow> P (record_name c tp t auth ns op old price years st)"
  using track_name [of st ns auth]
  by (auto simp: record_name_def Let_def intro: event split: prod.split bool.split)

lemma track_split: "P st \<Longrightarrow> P (track_split c tp t auth split op years st)"
proof -
  assume "P st"
  obtain l r nm where s: "split = (l, r, nm)" by (cases split)
  let ?b = "reg_bind tp auth"
  let ?st1 = "fst (track_output c tp t (TGap l) ?b st)"
  let ?st2 = "fst (track_output c tp t (TGap r) ?b ?st1)"
  have "P (fst (track_output c tp t (TName nm) ?b ?st2))"
    by (intro track_name track_gap \<open>P st\<close>)
  then show ?thesis
    by (auto simp: track_split_def s Let_def intro: event split: prod.split bool.split)
qed

lemma apply_register: "P st \<Longrightarrow> P (apply_register c tp t spends st)"
  by (auto simp: apply_register_def Let_def intro: track_split split: option.split tracked.split)

lemma apply_import: "P st \<Longrightarrow> P (apply_import c tp t spends st)"
  by (auto simp: apply_import_def Let_def intro: track_split split: option.split tracked.split)

lemma apply_exit: "P st \<Longrightarrow> P (apply_exit c tp t spends st)"
  unfolding apply_exit_def
  by (rule fold_keeps)
    (auto simp: exit_event_def intro: event track_gap split: tracked.split option.split)

lemma offer_exits: "P st \<Longrightarrow> P (fold (offer_exit_event t) spends st)"
  by (rule fold_keeps)
    (auto simp: offer_exit_event_def intro: event split: tracked.split option.split)

lemma update_shards:
  assumes "t_price_id tp = Some pid" and "P st"
  shows "P (fst (update_shards c tp t pid a ps shard_ins st))"
proof -
  have "P (fst (fold (move_shard c tp t pid a ps) shard_ins acc))" if "P (fst acc)" for acc
    using that
    by (induction shard_ins arbitrary: acc)
      (simp_all add: move_shard_def Let_def track_shard [OF assms(1)])
  then show ?thesis using assms(2) by (simp add: update_shards_def)
qed

lemma apply_price_spend:
  assumes pid: "t_price_id tp = Some pid" and "P st"
  shows "P (apply_price_spend c tp t pid sh s st)"
proof (cases "sp_tracked s")
  case (TShard cur)
  show ?thesis
  proof (cases "sp_entry s")
    case PriceUse
    then show ?thesis
      using track_shard [OF pid \<open>P st\<close>] by (simp add: apply_price_spend_def TShard)
  next
    case PriceUpdate
    show ?thesis
    proof (cases "arg_32 (sp_sig s) 0")
      case None
      then show ?thesis using \<open>P st\<close> by (simp add: apply_price_spend_def TShard PriceUpdate)
    next
      case (Some a)
      show ?thesis
      proof (cases "those (map (arg_i64 (sp_sig s)) [1, 2, 3, 4, 5])")
        case None
        then show ?thesis using \<open>P st\<close>
          by (simp only: apply_price_spend_def TShard PriceUpdate tracked.case entry.case
              prod.case option.case Some)
      next
        case (Some ps)
        obtain st' m where st': "update_shards c tp t pid a ps sh st = (st', m)"
          by (cases "update_shards c tp t pid a ps sh st")
        have "P st'" using update_shards [OF pid \<open>P st\<close>, of a ps sh] by (simp add: st')
        then show ?thesis using \<open>P st\<close>
          by (simp only: apply_price_spend_def TShard PriceUpdate tracked.case entry.case
              prod.case option.case Some \<open>arg_32 (sp_sig s) 0 = Some a\<close> st' Let_def
              event if_split) simp
      qed
    qed
  qed (use \<open>P st\<close> in \<open>simp_all add: apply_price_spend_def TShard\<close>)
qed (use \<open>P st\<close> in \<open>simp_all add: apply_price_spend_def\<close>)

lemma apply_price_spends: "P st \<Longrightarrow> P (apply_price_spends c tp t spends st)"
proof (cases "t_price_id tp")
  case (Some pid)
  assume "P st"
  then show ?thesis
    unfolding apply_price_spends_def Some option.case
    by (intro fold_keeps apply_price_spend [OF Some])
qed (simp add: apply_price_spends_def)

lemma continue_name: "P st \<Longrightarrow> P (continue_name c tp t spends s old st)"
  by (simp add: continue_name_def Let_def record_name split: option.split)

lemma accept_offer: "P st \<Longrightarrow> P (accept_offer c tp t auth x st)"
  by (auto simp: accept_offer_def record_name split: option.split)

lemma apply_continuation: "P st \<Longrightarrow> P (apply_continuation c tp t spends s st)"
  by (cases "sp_tracked s") (simp_all add: apply_continuation_def continue_name accept_offer)

lemma apply_spends:
  assumes "P st"
  shows "P (apply_spends c tp t spends st)"
proof -
  have "P (fold (offer_exit_event t) spends (apply_price_spends c tp t spends st))"
    by (intro offer_exits apply_price_spends assms)
  then show ?thesis
    unfolding apply_spends_def Let_def
    by (simp add: apply_exit apply_register apply_import fold_keeps [OF apply_continuation])
qed

end

section \<open>What one transaction does to the registry\<close>

lemma track_output_cases:
  obtains (miss) "track_output c tp t s bnd st = (st, False)"
  | (hit) i where "track_output c tp t s bnd st =
        (st\<lparr>r_reg := utxo_put (tx_id t, word_of_nat i) s (r_reg st), r_used := r_used st @ [i]\<rparr>, True)"
      and "find_output t (tracked_spk c tp s) (r_used st) bnd = Some (i, r_used st @ [i])"
proof (cases "find_output t (tracked_spk c tp s) (r_used st) bnd")
  case None
  then show ?thesis by (intro miss) (simp add: track_output_def)
next
  case (Some p)
  obtain i u where p: "p = (i, u)" by (cases p)
  then have "u = r_used st @ [i]" using find_output_Some(3) Some by simp
  then show ?thesis using Some p by (intro hit) (simp_all add: track_output_def)
qed

lemma utxo_put_simps [simp]:
  "hm_get (utxos (utxo_put x s r)) k = (if k = x then Some s else hm_get (utxos r) k)"
  "profiles (utxo_put x s r) = profiles r"
  "journal (utxo_put x s r) = journal r"
  "hm_ok (utxos r) \<Longrightarrow> hm_ok (utxos (utxo_put x s r))"
  by (simp_all add: utxo_put_def)

lemma push_event_reg [simp]: "r_reg (push_event e st) = r_reg st" "r_used (push_event e st) = r_used st"
  by (simp_all add: push_event_def)

text \<open>A state claimed under the binding of its own covenant is verified.\<close>

lemma claimed_verified:
  assumes "find_output t (tracked_spk c tp s) used bnd = Some (i, used')"
    and "\<forall>x. s \<noteq> TOffer x"
    and "\<And>cid. state_covenant tp s = Some cid \<Longrightarrow> \<exists>auth. bnd = Some (auth, cid)"
  shows "verified c tp t (tx_id t, word_of_nat i) s"
proof -
  note hit = find_output_Some [OF assms(1)]
  have "\<exists>auth. covenant (outputs t ! i) = Some \<lparr>authorizing_input = auth, covenant_id = cid\<rparr>"
    if "state_covenant tp s = Some cid" "bindings_known t" for cid
    using hit(5) assms(3) [OF that(1)] that(2) by blast
  then show ?thesis
    unfolding verified_def using hit(1,4) assms(2)
    by (intro exI [of _ i]) (simp split: tracked.split)
qed

text \<open>Only verified states are tracked.\<close>

definition tracks_verified :: "crypto \<Rightarrow> templates \<Rightarrow> tx \<Rightarrow> registry \<Rightarrow> run \<Rightarrow> bool" where
  "tracks_verified c tp t r0 st \<longleftrightarrow>
     (\<forall>k s. hm_get (utxos (r_reg st)) k = Some s \<longrightarrow>
        hm_get (utxos r0) k = Some s \<or> verified c tp t k s)"

lemma tracks_verified_track:
  assumes "tracks_verified c tp t r0 st" and "\<forall>x. s \<noteq> TOffer x"
    and "\<And>cid. state_covenant tp s = Some cid \<Longrightarrow> \<exists>auth. bnd = Some (auth, cid)"
  shows "tracks_verified c tp t r0 (fst (track_output c tp t s bnd st))"
proof (cases rule: track_output_cases [of c tp t s bnd st])
  case miss
  then show ?thesis using assms(1) by simp
next
  case (hit i)
  then show ?thesis using assms(1) claimed_verified [OF hit(2) assms(2,3)]
    by (simp add: tracks_verified_def)
qed

interpretation vrf: run_invariant c tp t "tracks_verified c tp t r0" for c tp t r0
proof unfold_locales
  show "tracks_verified c tp t r0 (push_event e st)" if "tracks_verified c tp t r0 st" for st e
    using that by (simp add: tracks_verified_def)
qed (auto intro!: tracks_verified_track simp: reg_bind_def)

text \<open>
  Spends touch only the outpoints of their own transaction, and neither profiles nor journal;
  every claimed output is claimed once.
\<close>

definition local_change :: "tx \<Rightarrow> registry \<Rightarrow> run \<Rightarrow> bool" where
  "local_change t r0 st \<longleftrightarrow>
     (\<forall>k. fst k \<noteq> tx_id t \<longrightarrow> hm_get (utxos (r_reg st)) k = hm_get (utxos r0) k) \<and>
     profiles (r_reg st) = profiles r0 \<and> journal (r_reg st) = journal r0 \<and>
     (hm_ok (utxos r0) \<longrightarrow> hm_ok (utxos (r_reg st)))"

lemma local_change_track:
  assumes "local_change t r0 st"
  shows "local_change t r0 (fst (track_output c tp t s bnd st))"
  using assms
  by (cases rule: track_output_cases [of c tp t s bnd st]) (auto simp: local_change_def)

interpretation loc: run_invariant c tp t "local_change t r0" for c tp t r0
proof unfold_locales
  show "local_change t r0 (push_event e st)" if "local_change t r0 st" for st e
    using that by (simp add: local_change_def)
qed (rule local_change_track, assumption)+

lemma distinct_used_track:
  "distinct (r_used st) \<Longrightarrow> distinct (r_used (fst (track_output c tp t s bnd st)))"
proof (cases rule: track_output_cases [of c tp t s bnd st])
  case (hit i)
  then show "distinct (r_used st) \<Longrightarrow> ?thesis" using find_output_Some(2) [OF hit(2)] by simp
qed simp

interpretation once: run_invariant c tp t "\<lambda>st. distinct (r_used st)" for c tp t
  by unfold_locales (auto intro: distinct_used_track)

section \<open>The steps of a transaction\<close>

text \<open>The registry before the journal entry of the transaction is appended.\<close>

definition marked :: "deps \<Rightarrow> templates \<Rightarrow> tx \<Rightarrow> registry \<Rightarrow> run" where
  "marked d tp t r =
     (let st = apply_offer_marker (hashes d) tp t \<lparr>r_reg = r, r_used = [], r_events = []\<rparr>
      in st\<lparr>r_reg := fst (apply_profile (profile_json d) t (r_reg st))\<rparr>)"

definition after_spends :: "deps \<Rightarrow> templates \<Rightarrow> tx \<Rightarrow> registry \<Rightarrow> run" where
  "after_spends d tp t r =
     (if find_spends tp r t \<noteq> [] then apply_spends (hashes d) tp t (find_spends tp r t) (marked d tp t r)
      else marked d tp t r)"

definition tx_removed :: "templates \<Rightarrow> tx \<Rightarrow> registry \<Rightarrow> (outpoint \<times> tracked) list" where
  "tx_removed tp t r = map (\<lambda>s. (sp_outpoint s, sp_tracked s)) (find_spends tp r t)"

definition consumed :: "deps \<Rightarrow> templates \<Rightarrow> tx \<Rightarrow> registry \<Rightarrow> registry" where
  "consumed d tp t r = remove_all (map fst (tx_removed tp t r)) (r_reg (after_spends d tp t r))"

definition tx_prior :: "deps \<Rightarrow> tx \<Rightarrow> registry \<Rightarrow> (bytes \<times> profile_entry option) option" where
  "tx_prior d t r = snd (apply_profile (profile_json d) t r)"

definition tx_entry :: "deps \<Rightarrow> templates \<Rightarrow> tx \<Rightarrow> registry \<Rightarrow> undo_entry" where
  "tx_entry d tp t r =
     \<lparr>ue_block = accepting_block t,
      ue_added = filter (\<lambda>k. k \<notin> set (hm_keys (utxos r))) (hm_keys (utxos (consumed d tp t r))),
      ue_removed = tx_removed tp t r, ue_profile = tx_prior d t r\<rparr>"

definition trivial_entry :: "undo_entry \<Rightarrow> bool" where
  "trivial_entry e \<longleftrightarrow> ue_added e = [] \<and> ue_removed e = [] \<and> ue_profile e = None"

lemma apply_profile_upd:
  "apply_profile fj t (r\<lparr>utxos := u\<rparr>) =
     ((fst (apply_profile fj t r))\<lparr>utxos := u\<rparr>, snd (apply_profile fj t r))"
  by (simp add: apply_profile_def Let_def split: option.split)

lemma apply_profile_frame [simp]:
  "utxos (fst (apply_profile fj t r)) = utxos r"
  "journal (fst (apply_profile fj t r)) = journal r"
  by (simp_all add: apply_profile_def Let_def split: option.split)

lemma offer_marker_reg:
  "\<exists>u. r_reg (apply_offer_marker c tp t st) = r_reg st\<lparr>utxos := u\<rparr>"
  by (auto simp: apply_offer_marker_def utxo_put_def split: option.split prod.split
      intro: exI [of _ "utxos (r_reg st)"])

lemma remove_all_simps [simp]:
  "hm_get (utxos (remove_all xs r)) k = (if k \<in> set xs then None else hm_get (utxos r) k)"
  "profiles (remove_all xs r) = profiles r"
  "journal (remove_all xs r) = journal r"
  by (simp_all add: remove_all_def hm.lookup_remove_all)

lemma apply_tx_steps:
  "apply_tx d tp t r =
     ((if trivial_entry (tx_entry d tp t r) then consumed d tp t r
       else (consumed d tp t r)\<lparr>journal := journal (consumed d tp t r) @ [tx_entry d tp t r]\<rparr>),
      r_events (after_spends d tp t r))"
proof -
  let ?st = "apply_offer_marker (hashes d) tp t \<lparr>r_reg = r, r_used = [], r_events = []\<rparr>"
  obtain u where "r_reg ?st = r\<lparr>utxos := u\<rparr>" 
    using offer_marker_reg [of "hashes d" tp t "\<lparr>r_reg = r, r_used = [], r_events = []\<rparr>"] by auto
  then have "snd (apply_profile (profile_json d) t (r_reg ?st)) = tx_prior d t r"
    by (simp add: apply_profile_upd tx_prior_def)
  then show ?thesis
    unfolding apply_tx_def
    by (cases "find_spends tp r t = []"; cases "tx_prior d t r")
      (simp_all add: Let_def case_prod_beta tx_entry_def trivial_entry_def consumed_def
        tx_removed_def after_spends_def marked_def)
qed

section \<open>Manifests\<close>

definition tags_ok :: "(contract \<times> bytes \<times> entry) list \<Rightarrow> bool" where
  "tags_ok tags \<longleftrightarrow> list_all (\<lambda>(ct, tag, e). entry_contract e = ct \<and> length tag = 4) tags"

lemma sized_Some [simp]: "sized n b = Some x \<longleftrightarrow> x = b \<and> length b = n"
  by (auto simp: sized_def)

lemma decode32_length: "decode32 c s = Some b \<Longrightarrow> length b = 32"
  by (auto simp: decode32_def bind_eq_Some_conv)

lemma contract_tags_ok: "contract_tags c J ct obj = Some tags \<Longrightarrow> tags_ok tags"
proof (induction obj arbitrary: tags)
  case (Cons x obj)
  obtain nm tag where "x = (nm, tag)" by (cases x)
  with Cons show ?case
    by (auto simp: tags_ok_def bind_eq_Some_conv dest: manifest_names_contract)
qed (simp add: tags_ok_def)

lemma manifest_tags_ok: "manifest_tags c J m arts = Some tags \<Longrightarrow> tags_ok tags"
proof (induction arts arbitrary: tags)
  case (Cons x arts)
  obtain a ct where x: "x = (a, ct)" by (cases x)
  show ?case
  proof (cases "do { ar \<leftarrow> j_get J m (ascii ''artifacts''); y \<leftarrow> j_get J ar (ascii a);
                     j_get J y (ascii ''dispatchTags'') }")
    case None
    then show ?thesis using Cons by (simp add: x)
  next
    case (Some v)
    obtain here more where "tags = here @ more" "contract_tags c J ct (the (j_object J v)) = Some here"
        "manifest_tags c J m arts = Some more"
      using Cons.prems by (auto simp: x Some bind_eq_Some_conv)
    then have "tags = here @ more" "tags_ok here" "tags_ok more"
      using Cons.IH contract_tags_ok by blast+
    then show ?thesis by (simp add: tags_ok_def)
  qed
qed (simp add: tags_ok_def)

lemma manifest_id_length: "manifest_id c J m k = Some b \<Longrightarrow> length b = 32"
  by (auto simp: manifest_id_def bind_eq_Some_conv dest: decode32_length)

lemmas from_manifest_unfold =
  from_manifest_def templates_new_def Let_def bind_eq_Some_conv

lemma from_manifest_tags: "from_manifest c J m = Some tp \<Longrightarrow> tags_ok (t_tags tp)"
  by (auto simp: from_manifest_unfold simp del: manifest_tags.simps dest!: manifest_tags_ok
      split: if_splits)

lemma from_manifest_cases:
  assumes "from_manifest c J m = Some tp"
  obtains v where "v = manifest_version J m" "v \<le> 5" "t_version tp = ucast v"
    "v \<ge> 3 \<longrightarrow> (\<exists>rid. t_registry_id tp = Some rid \<and> length rid = 32) \<and> t_tags tp \<noteq> []"
    "t_price tp \<noteq> None \<longleftrightarrow> v = 3"
    "t_price_id tp \<noteq> None \<longleftrightarrow> v = 3"
  using assms
  by (auto simp: from_manifest_unfold simp del: manifest_tags.simps dest: manifest_id_length
      split: if_splits)

lemma from_manifest_parts:
  assumes "from_manifest c J m = Some tp"
  shows "manifest_version J m \<le> 5" and "t_version tp = ucast (manifest_version J m)"
    and "manifest_version J m \<ge> 3 \<Longrightarrow>
      (\<exists>rid. t_registry_id tp = Some rid \<and> length rid = 32) \<and> t_tags tp \<noteq> []"
    and "t_price tp \<noteq> None \<longleftrightarrow> manifest_version J m = 3"
    and "t_price_id tp \<noteq> None \<longleftrightarrow> manifest_version J m = 3"
  by (rule from_manifest_cases [OF assms], simp)+

lemma templates_entry_contract:
  assumes "tags_ok (t_tags tp)" and "templates_entry tp ct tag = Some e"
  shows "entry_contract e = ct"
  using assms
  by (auto simp: templates_entry_def tags_ok_def list_all_iff dest!: find_SomeD'
      split: if_splits option.splits)

lemma find_spends_entry:
  "s \<in> set (find_spends tp r t) \<Longrightarrow>
     templates_entry tp (tracked_contract (sp_tracked s)) (dispatch_tag (sp_sig s)) = Some (sp_entry s)"
  by (auto simp: find_spends_def map_filter_def bind_eq_Some_conv split: prod.splits)

section \<open>Fees and markers\<close>

lemma u64_bound [simp]: "unat (a :: u64) < 18446744073709551616"
  using unsigned_less [of a] by simp

lemma small_version: "(v :: u64) \<le> 5 \<Longrightarrow> unat (ucast v :: u32) = unat v"
  by (simp add: word_le_nat_alt unsigned_ucast_eq take_bit_nat_eq_self)

lemma checked_sum_Some:
  "checked_sum acc vs = Some s \<longleftrightarrow>
     (\<exists>as. vs = map Some as \<and> unat acc + sum_list (map unat as) < 2 ^ 64 \<and>
           unat s = unat acc + sum_list (map unat as))"
proof (induction vs arbitrary: acc)
  case Nil
  then show ?case using u64_bound [of acc] by (auto simp: word_unat_eq_iff simp del: u64_bound)
next
  case (Cons v vs)
  show ?case
  proof (cases v)
    case (Some a)
    show ?thesis
    proof (cases "unat acc + unat a < 2 ^ 64")
      case True
      then obtain b where b: "u64_checked_add acc a = Some b" "unat b = unat acc + unat a"
        by (metis u64_checked_add_Some u64_checked_add_def)
      then show ?thesis
        by (auto simp: Some Cons.IH Cons_eq_map_conv add.assoc)
    next
      case False
      then show ?thesis
        by (auto simp: Some u64_checked_add_def Cons_eq_map_conv)
    qed
  qed auto
qed

lemma i64_try_from_Some: "i64_try_from_u64 a = Some b \<longleftrightarrow> unat a < 2 ^ 63 \<and> sint b = int (unat a)"
proof
  assume "i64_try_from_u64 a = Some b"
  then show "unat a < 2 ^ 63 \<and> sint b = int (unat a)"
    by (auto simp: i64_try_from_u64_def i64_nonneg_sint simp del: of_nat_unat split: if_splits)
next
  assume b: "unat a < 2 ^ 63 \<and> sint b = int (unat a)"
  then have "sint b = sint a" by (simp add: i64_nonneg_sint del: of_nat_unat)
  then have "b = a" by (rule signed_word_eqI [where ?'a = int])
  with b show "i64_try_from_u64 a = Some b" by (simp add: i64_try_from_u64_def)
qed

lemma tx_fee_sum:
  "tx_fee t = Some f \<longleftrightarrow>
     (\<exists>amounts. map spent_amount (inputs t) = map Some amounts \<and>
        sum_list (map unat amounts) < 2 ^ 64 \<and>
        sum_list (map (unat \<circ> out_value) (outputs t)) \<le> sum_list (map unat amounts) \<and>
        sum_list (map unat amounts) - sum_list (map (unat \<circ> out_value) (outputs t)) < 2 ^ 63 \<and>
        sint f = int (sum_list (map unat amounts) - sum_list (map (unat \<circ> out_value) (outputs t))))"
  (is "_ = ?R")
proof -
  let ?paid = "sum_list (map (unat \<circ> out_value) (outputs t))"
  have out: "checked_sum 0 (map (\<lambda>x. Some (out_value x)) (outputs t)) = Some s \<longleftrightarrow>
      ?paid < 2 ^ 64 \<and> unat s = ?paid" for s
  proof -
    have "map (\<lambda>x. Some (out_value x)) (outputs t) = map Some as \<longleftrightarrow> as = map out_value (outputs t)" for as
      by (metis (no_types, lifting) inj_Some inj_map_eq_map map_map o_def map_eq_conv)
    then show ?thesis by (auto simp: checked_sum_Some)
  qed
  have ex: "\<exists>s :: u64. unat s = n" if "n < 2 ^ 64" for n
    using that by (intro exI [of _ "word_of_nat n"]) (simp add: unat_of_nat)
  show ?thesis
  proof
    assume "tx_fee t = Some f"
    then obtain s p d where "checked_sum 0 (map spent_amount (inputs t)) = Some s"
      and p: "checked_sum 0 (map (\<lambda>x. Some (out_value x)) (outputs t)) = Some p"
      and "u64_checked_sub s p = Some d" "i64_try_from_u64 d = Some f"
      by (auto simp: tx_fee_def bind_eq_Some_conv)
    moreover from p have "unat p = ?paid" using out by blast
    ultimately show ?R
      by (auto simp: checked_sum_Some u64_checked_sub_Some i64_try_from_Some simp del: of_nat_unat)
  next
    assume ?R
    then obtain as where as: "map spent_amount (inputs t) = map Some as"
      "sum_list (map unat as) < 2 ^ 64" "?paid \<le> sum_list (map unat as)"
      "sum_list (map unat as) - ?paid < 2 ^ 63" "sint f = int (sum_list (map unat as) - ?paid)" by blast
    obtain s :: u64 where s: "unat s = sum_list (map unat as)" using ex as(2) by blast
    have "?paid < 2 ^ 64" using as(2,3) by linarith
    then obtain p :: u64 where p: "unat p = ?paid" using ex by blast
    have "sum_list (map unat as) - ?paid < 2 ^ 64" using as(2) by linarith
    then obtain d :: u64 where d: "unat d = sum_list (map unat as) - ?paid" using ex by blast
    have "checked_sum 0 (map spent_amount (inputs t)) = Some s"
      using as(1,2) s by (auto simp: checked_sum_Some)
    moreover have "checked_sum 0 (map (\<lambda>x. Some (out_value x)) (outputs t)) = Some p"
      using out p \<open>?paid < 2 ^ 64\<close> by blast
    moreover have "u64_checked_sub s p = Some d" using s p d as(3) by (simp add: u64_checked_sub_Some)
    moreover have "i64_try_from_u64 d = Some f" using d as(4,5) by (simp add: i64_try_from_Some)
    ultimately show "tx_fee t = Some f" by (simp add: tx_fee_def)
  qed
qed

lemma parse_offer_marker_parts:
  assumes "parse_offer_marker c len rest = Some ofr"
  shows "len = (if o_seller ofr = None then 75 else 108)" and "length (o_key ofr) = 32"
  using assms
  by (auto simp: parse_offer_marker_def Let_def bind_eq_Some_conv dest: decode32_length
      split: if_splits list.splits)

lemma marker_offer_parts:
  assumes "marker_offer c tp t = Some ofr"
  shows "usable_key c (o_buyer ofr)" and "pred_option (usable_key c) (o_seller ofr)"
    and "0 \<le> sint (o_refund_after ofr)"
    and "state_len (t_offer tp) = (if o_seller ofr = None then 75 else 108)"
    and "length (o_key ofr) = 32"
    and "starts_with (ascii ''kchat:1:offer:'') (payload t)"
proof -
  obtain str rest where p: "from_utf8 (payload t) = Some str"
    "strip_prefix (ascii ''kchat:1:offer:'') str = Some rest"
    "parse_offer_marker c (state_len (t_offer tp)) rest = Some ofr"
    "\<not> o_refund_after ofr <s 0" "usable_key c (o_buyer ofr)" "pred_option (usable_key c) (o_seller ofr)"
    using assms
    by (auto simp: marker_offer_def bind_eq_Some_conv split: if_splits option.splits)
  show "usable_key c (o_buyer ofr)" "pred_option (usable_key c) (o_seller ofr)" using p by simp_all
  show "0 \<le> sint (o_refund_after ofr)" using p(4) by (simp add: word_sless_alt)
  show "state_len (t_offer tp) = (if o_seller ofr = None then 75 else 108)" "length (o_key ofr) = 32"
    using parse_offer_marker_parts [OF p(3)] by simp_all
  show "starts_with (ascii ''kchat:1:offer:'') (payload t)"
    using p(1,2) by (auto simp: from_utf8_def strip_prefix_eq_Some starts_with_iff split: if_splits)
qed

end
