(* ===== verification/Rollback.thy ===== *)
theory Rollback
  imports Ingest
begin

text \<open>
  Following a chain that reorganises. The interface of a journal that is undone block by block,
  the theorem that undoing the blocks of a removed chain segment newest first restores the state
  before it, and its two providers: the registry applier and the profile-only applier of
  \<open>kachat-names/src/ingest.rs\<close>.
\<close>

section \<open>The interface\<close>

text \<open>
  A step appends at most one entry to the log, and undoing that entry restores the view before
  the step; undoing a block undoes its entries, newest first, and drops them from the log. A
  step is only trusted to be undone when it is \<open>fresh\<close> in the state.
\<close>

locale block_journal =
  fixes step :: "'x \<Rightarrow> 's \<Rightarrow> 's"
    and block_of :: "'x \<Rightarrow> 'b"
    and log :: "'s \<Rightarrow> 'e list"
    and entry_block :: "'e \<Rightarrow> 'b"
    and undo_entry :: "'e \<Rightarrow> 'v \<Rightarrow> 'v"
    and undo :: "'b \<Rightarrow> 's \<Rightarrow> 's"
    and view :: "'s \<Rightarrow> 'v"
    and fresh :: "'x \<Rightarrow> 's \<Rightarrow> bool"
  assumes step_logged: "fresh x s \<Longrightarrow>
      (log (step x s) = log s \<and> view (step x s) = view s) \<or>
      (\<exists>e. entry_block e = block_of x \<and> log (step x s) = log s @ [e] \<and>
           undo_entry e (view (step x s)) = view s)"
    and undo_view: "view (undo b s) =
      fold undo_entry (rev (filter (\<lambda>e. entry_block e = b) (log s))) (view s)"
    and undo_log: "log (undo b s) = filter (\<lambda>e. entry_block e \<noteq> b) (log s)"
begin

fun all_fresh :: "'x list \<Rightarrow> 's \<Rightarrow> bool" where
  "all_fresh [] s \<longleftrightarrow> True"
| "all_fresh (x # xs) s \<longleftrightarrow> fresh x s \<and> all_fresh xs (step x s)"

lemma all_fresh_append: "all_fresh (xs @ ys) s \<longleftrightarrow> all_fresh xs s \<and> all_fresh ys (fold step xs s)"
  by (induction xs arbitrary: s) auto

lemma steps_logged:
  assumes "all_fresh xs s" and "\<And>x. x \<in> set xs \<Longrightarrow> block_of x = b"
  obtains es where "log (fold step xs s) = log s @ es"
    and "\<forall>e \<in> set es. entry_block e = b"
    and "fold undo_entry (rev es) (view (fold step xs s)) = view s"
  using assms
proof (induction xs arbitrary: s thesis)
  case Nil
  then show ?case by (metis append_Nil2 empty_iff fold_simps(1) list.set(1) rev.simps(1))
next
  case (Cons x xs)
  obtain es where es: "log (fold step xs (step x s)) = log (step x s) @ es"
      "\<forall>e \<in> set es. entry_block e = b"
      "fold undo_entry (rev es) (view (fold step xs (step x s))) = view (step x s)"
    using Cons.IH [of "step x s"] Cons.prems by auto
  from Cons.prems(2) have "fresh x s" by simp
  from step_logged [OF this] show ?case
  proof (elim disjE exE conjE)
    assume "log (step x s) = log s" "view (step x s) = view s"
    then show ?thesis using es by (intro Cons.prems(1) [of es]) simp_all
  next
    fix e
    assume "entry_block e = block_of x" "log (step x s) = log s @ [e]"
      "undo_entry e (view (step x s)) = view s"
    then show ?thesis using es Cons.prems(3) [of x] by (intro Cons.prems(1) [of "e # es"]) simp_all
  qed
qed

text \<open>What undoing sees of a state.\<close>

definition same :: "'s \<Rightarrow> 's \<Rightarrow> bool" where
  "same s s' \<longleftrightarrow> view s = view s' \<and> log s = log s'"

lemma undo_same: "same s s' \<Longrightarrow> same (undo b s) (undo b s')"
  by (simp add: same_def undo_view undo_log)

lemma undo_all_same: "same s s' \<Longrightarrow> same (fold undo bs s) (fold undo bs s')"
  by (induction bs arbitrary: s s') (simp_all add: undo_same)

lemma undo_steps:
  assumes "all_fresh xs s" and "\<And>x. x \<in> set xs \<Longrightarrow> block_of x = b"
    and "b \<notin> entry_block ` set (log s)"
  shows "same (undo b (fold step xs s)) s"
proof -
  obtain es where es: "log (fold step xs s) = log s @ es" "\<forall>e \<in> set es. entry_block e = b"
      "fold undo_entry (rev es) (view (fold step xs s)) = view s"
    using steps_logged [OF assms(1,2)] by metis
  have "filter (\<lambda>e. entry_block e = b) (log s) = []" "filter (\<lambda>e. entry_block e \<noteq> b) (log s) = log s"
    using assms(3) by (auto simp: filter_empty_conv filter_id_conv)
  moreover have "filter (\<lambda>e. entry_block e = b) es = es" "filter (\<lambda>e. entry_block e \<noteq> b) es = []"
    using es(2) by (auto simp: filter_empty_conv filter_id_conv)
  ultimately show ?thesis by (simp add: same_def undo_view undo_log es(1,3))
qed

text \<open>A chain segment: blocks with the steps each accepts, in chain order.\<close>

definition run_chain :: "('b \<times> 'x list) list \<Rightarrow> 's \<Rightarrow> 's" where
  "run_chain chain s = fold (\<lambda>(b, xs). fold step xs) chain s"

definition chain_ok :: "('b \<times> 'x list) list \<Rightarrow> 's \<Rightarrow> bool" where
  "chain_ok chain s \<longleftrightarrow>
     distinct (map fst chain) \<and> (\<forall>(b, xs) \<in> set chain. \<forall>x \<in> set xs. block_of x = b) \<and>
     fst ` set chain \<inter> entry_block ` set (log s) = {} \<and>
     all_fresh (concat (map snd chain)) s"

lemma log_grows:
  assumes "all_fresh xs s"
  shows "entry_block ` set (log (fold step xs s)) \<subseteq> entry_block ` set (log s) \<union> block_of ` set xs"
  using assms
proof (induction xs arbitrary: s)
  case (Cons x xs)
  have "fresh x s" using Cons.prems by simp
  from step_logged [OF this] have
    "entry_block ` set (log (step x s)) \<subseteq> entry_block ` set (log s) \<union> {block_of x}" by auto
  moreover have "entry_block ` set (log (fold step xs (step x s)))
      \<subseteq> entry_block ` set (log (step x s)) \<union> block_of ` set xs"
    using Cons by simp
  moreover have "A \<subseteq> B \<union> C \<Longrightarrow> B \<subseteq> D \<union> {z} \<Longrightarrow> A \<subseteq> D \<union> insert z C" for A B C D :: "'b set" and z
    by blast
  ultimately show ?case by simp
qed simp

lemma chain_ok_Cons:
  assumes "chain_ok ((b, xs) # chain) s"
  shows "all_fresh xs s" and "\<And>x. x \<in> set xs \<Longrightarrow> block_of x = b"
    and "b \<notin> entry_block ` set (log s)" and "chain_ok chain (fold step xs s)"
proof -
  note ok = assms [unfolded chain_ok_def]
  show fr: "all_fresh xs s" using ok by (simp add: all_fresh_append)
  show bl: "\<And>x. x \<in> set xs \<Longrightarrow> block_of x = b" using ok by simp
  show "b \<notin> entry_block ` set (log s)" using ok by simp
  have "entry_block ` set (log (fold step xs s)) \<subseteq> entry_block ` set (log s) \<union> {b}"
    using log_grows [OF fr] bl by blast
  moreover have "b \<notin> fst ` set chain" "fst ` set chain \<inter> entry_block ` set (log s) = {}"
    using ok by simp_all
  ultimately have "fst ` set chain \<inter> entry_block ` set (log (fold step xs s)) = {}"
    by blast
  then show "chain_ok chain (fold step xs s)"
    using ok by (simp add: chain_ok_def all_fresh_append)
qed

theorem undo_chain:
  assumes "chain_ok chain s"
  shows "same (fold undo (rev (map fst chain)) (run_chain chain s)) s"
  using assms
proof (induction chain arbitrary: s)
  case Nil
  then show ?case by (simp add: run_chain_def same_def)
next
  case (Cons bx chain)
  obtain b xs where bx: "bx = (b, xs)" by (cases bx)
  note ok = chain_ok_Cons [OF Cons.prems [unfolded bx]]
  have "same (fold undo (rev (map fst chain)) (run_chain chain (fold step xs s))) (fold step xs s)"
    using Cons.IH ok(4) .
  from undo_same [OF this, of b] undo_steps [OF ok(1,2,3)] show ?case
    by (simp add: bx run_chain_def same_def)
qed

end

section \<open>The effect of one transaction\<close>

lemma spend_tracked:
  "s \<in> set (find_spends tp r t) \<Longrightarrow> hm_get (utxos r) (sp_outpoint s) = Some (sp_tracked s)"
  by (auto simp: find_spends_def map_filter_def bind_eq_Some_conv split: prod.splits)

lemma tx_removed_tracked: "(k, s) \<in> set (tx_removed tp t r) \<Longrightarrow> hm_get (utxos r) k = Some s"
  by (auto simp: tx_removed_def spend_tracked)

lemma offer_marker_cases:
  obtains (none) "r_reg (apply_offer_marker c tp t st) = r_reg st"
  | (offer) i x where "i < length (outputs t)" "covenant (outputs t ! i) = None"
      "script_public_key (outputs t ! i) = offer_spk c tp x" "marker_offer c tp t = Some x"
      "r_reg (apply_offer_marker c tp t st) = utxo_put (tx_id t, word_of_nat i) (TOffer x) (r_reg st)"
proof (cases "marker_offer c tp t")
  case None
  then show ?thesis by (intro none) (simp add: apply_offer_marker_def)
next
  case (Some x)
  let ?f = "find (\<lambda>(i, y). script_public_key y = offer_spk c tp x \<and> covenant y = None)
              (enumerate 0 (outputs t))"
  show ?thesis
  proof (cases ?f)
    case None
    with Some show ?thesis by (intro none) (simp add: apply_offer_marker_def)
  next
    case (Some ix)
    obtain i y where ix: "ix = (i, y)" by (cases ix)
    have "i < length (outputs t)" "script_public_key (outputs t ! i) = offer_spk c tp x"
        "covenant (outputs t ! i) = None"
      using find_SomeD' [OF Some] by (auto simp: ix enumerate_0_mem)
    then show ?thesis using Some \<open>marker_offer c tp t = Some x\<close>
      by (intro offer [of i x]) (auto simp: apply_offer_marker_def ix)
  qed
qed

lemma marked_utxos:
  "utxos (r_reg (marked d tp t r)) =
     utxos (r_reg (apply_offer_marker (hashes d) tp t \<lparr>r_reg = r, r_used = [], r_events = []\<rparr>))"
  by (simp add: marked_def Let_def)

lemma marked_verified: "tracks_verified (hashes d) tp t r (marked d tp t r)"
proof (cases rule: offer_marker_cases [of "hashes d" tp t "\<lparr>r_reg = r, r_used = [], r_events = []\<rparr>"])
  case none
  then show ?thesis by (simp add: tracks_verified_def marked_utxos)
next
  case (offer i x)
  then show ?thesis by (auto simp: tracks_verified_def marked_utxos verified_def)
qed

lemma marked_frame:
  "(fst k \<noteq> tx_id t \<longrightarrow> hm_get (utxos (r_reg (marked d tp t r))) k = hm_get (utxos r) k) \<and>
   journal (r_reg (marked d tp t r)) = journal r \<and>
   profiles (r_reg (marked d tp t r)) = profiles (fst (apply_profile (profile_json d) t r)) \<and>
   (hm_ok (utxos r) \<longrightarrow> hm_ok (utxos (r_reg (marked d tp t r))))"
proof (cases rule: offer_marker_cases [of "hashes d" tp t "\<lparr>r_reg = r, r_used = [], r_events = []\<rparr>"])
  case (offer i x)
  have "profiles (fst (apply_profile fj t (utxo_put k s r))) = profiles (fst (apply_profile fj t r))"
    for fj k s
    by (simp add: utxo_put_def apply_profile_upd)
  then show ?thesis using offer by (auto simp: marked_def Let_def)
qed (simp add: marked_def Let_def)

lemma after_spends_verified: "tracks_verified (hashes d) tp t r (after_spends d tp t r)"
  by (simp add: after_spends_def vrf.apply_spends marked_verified)

lemma after_spends_frame:
  shows "fst k \<noteq> tx_id t \<Longrightarrow> hm_get (utxos (r_reg (after_spends d tp t r))) k = hm_get (utxos r) k"
    and "journal (r_reg (after_spends d tp t r)) = journal r"
    and "profiles (r_reg (after_spends d tp t r)) = profiles (fst (apply_profile (profile_json d) t r))"
    and "hm_ok (utxos r) \<Longrightarrow> hm_ok (utxos (r_reg (after_spends d tp t r)))"
proof -
  have "local_change t (r_reg (marked d tp t r)) (after_spends d tp t r)"
  proof -
    have "local_change t (r_reg (marked d tp t r)) (marked d tp t r)" by (simp add: local_change_def)
    then show ?thesis by (simp add: after_spends_def loc.apply_spends)
  qed
  then show "fst k \<noteq> tx_id t \<Longrightarrow> hm_get (utxos (r_reg (after_spends d tp t r))) k = hm_get (utxos r) k"
    "journal (r_reg (after_spends d tp t r)) = journal r"
    "profiles (r_reg (after_spends d tp t r)) = profiles (fst (apply_profile (profile_json d) t r))"
    "hm_ok (utxos r) \<Longrightarrow> hm_ok (utxos (r_reg (after_spends d tp t r)))"
    using marked_frame [of k t d tp r] by (simp_all add: local_change_def del: split_paired_All)
qed

lemma consumed_get:
  "hm_get (utxos (consumed d tp t r)) k =
     (if k \<in> fst ` set (tx_removed tp t r) then None
      else hm_get (utxos (r_reg (after_spends d tp t r))) k)"
  by (simp add: consumed_def)

lemma consumed_frame [simp]:
  "journal (consumed d tp t r) = journal r"
  "profiles (consumed d tp t r) = profiles (fst (apply_profile (profile_json d) t r))"
  by (simp_all add: consumed_def after_spends_frame)

lemma apply_tx_utxos: "utxos (fst (apply_tx d tp t r)) = utxos (consumed d tp t r)"
  by (simp add: apply_tx_steps)

lemma apply_tx_profiles:
  "profiles (fst (apply_tx d tp t r)) = profiles (fst (apply_profile (profile_json d) t r))"
  by (simp add: apply_tx_steps)

lemma apply_tx_journal:
  "journal (fst (apply_tx d tp t r)) =
     (if trivial_entry (tx_entry d tp t r) then journal r else journal r @ [tx_entry d tp t r])"
  by (simp add: apply_tx_steps)

lemma apply_tx_outside:
  assumes "fst k \<noteq> tx_id t" and "k \<notin> fst ` set (tx_removed tp t r)"
  shows "hm_get (utxos (fst (apply_tx d tp t r))) k = hm_get (utxos r) k"
  using assms by (simp add: apply_tx_utxos consumed_get after_spends_frame)

lemma apply_tx_verified:
  assumes "hm_get (utxos (fst (apply_tx d tp t r))) k = Some s"
  shows "hm_get (utxos r) k = Some s \<or> verified (hashes d) tp t k s"
  using assms after_spends_verified [of d tp t r]
  by (auto simp: apply_tx_utxos consumed_get tracks_verified_def simp del: split_paired_All
      split: if_splits)

section \<open>The registry applier as a journal\<close>

type_synonym names_view = "(outpoint \<Rightarrow> tracked option) \<times> (bytes \<Rightarrow> profile_entry option)"

definition names_view :: "registry \<Rightarrow> names_view" where
  "names_view r = (hm_get (utxos r), hm_get (profiles r))"

definition undo_view :: "undo_entry \<Rightarrow> names_view \<Rightarrow> names_view" where
  "undo_view e v =
     ((\<lambda>k. case map_of (rev (ue_removed e)) k of
             Some s \<Rightarrow> Some s | None \<Rightarrow> if k \<in> set (ue_added e) then None else fst v k),
      case ue_profile e of None \<Rightarrow> snd v | Some (addr, prior) \<Rightarrow> (snd v)(addr := prior))"

text \<open>No tracked outpoint is an output of the transaction yet.\<close>

definition unseen :: "tx \<Rightarrow> registry \<Rightarrow> bool" where
  "unseen t r \<longleftrightarrow> (\<forall>i. hm_get (utxos r) (tx_id t, i) = None)"

lemma names_view_undo_one: "names_view (undo_one e r) = undo_view e (names_view r)"
  by (auto simp: names_view_def undo_view_def undo_one_def Let_def fun_eq_iff hm.lookup_insert_all
      hm.lookup_remove_all split: option.split)

lemma journal_undo_one [simp]: "journal (undo_one e r) = journal r"
  by (simp add: undo_one_def Let_def split: option.split prod.split)

lemma names_view_undo_all: "names_view (fold undo_one es r) = fold undo_view es (names_view r)"
  by (induction es arbitrary: r) (simp_all add: names_view_undo_one)

lemma journal_undo_all [simp]: "journal (fold undo_one es r) = journal r"
  by (induction es arbitrary: r) simp_all

lemma undo_block_view:
  "names_view (undo_block b r) =
     fold undo_view (rev (filter (\<lambda>e. ue_block e = b) (journal r))) (names_view r)"
  by (simp add: undo_block_def Let_def names_view_undo_all) (simp add: names_view_def)

lemma undo_block_journal: "journal (undo_block b r) = filter (\<lambda>e. ue_block e \<noteq> b) (journal r)"
  by (simp add: undo_block_def Let_def)

lemma apply_profile_undone:
  "hm_get (profiles r) =
     (case snd (apply_profile fj t r) of
        None \<Rightarrow> hm_get (profiles (fst (apply_profile fj t r)))
      | Some (addr, prior) \<Rightarrow> (hm_get (profiles (fst (apply_profile fj t r))))(addr := prior))"
  by (auto simp: apply_profile_def Let_def fun_eq_iff split: option.split)

lemma utxos_undone:
  assumes "unseen t r"
  shows "hm_get (utxos r) k =
    (case map_of (rev (tx_removed tp t r)) k of
       Some s \<Rightarrow> Some s
     | None \<Rightarrow> if k \<in> set (ue_added (tx_entry d tp t r)) then None
               else hm_get (utxos (consumed d tp t r)) k)"
proof (cases "map_of (rev (tx_removed tp t r)) k")
  case None
  then have out: "k \<notin> fst ` set (tx_removed tp t r)" by (simp add: map_of_eq_None_iff)
  show ?thesis
  proof (cases "fst k = tx_id t")
    case True
    then have "hm_get (utxos r) k = None" using assms by (cases k) (simp add: unseen_def)
    then show ?thesis using None by (auto simp: tx_entry_def hm_keys_get)
  next
    case False
    then have "hm_get (utxos (consumed d tp t r)) k = hm_get (utxos r) k"
      using out by (simp add: consumed_get after_spends_frame)
    then show ?thesis using None by (auto simp: tx_entry_def hm_keys_get)
  qed
next
  case (Some s)
  then have "(k, s) \<in> set (tx_removed tp t r)" by (auto dest: map_of_SomeD)
  then show ?thesis using Some by (simp add: tx_removed_tracked)
qed

lemma tx_entry_undone:
  assumes "unseen t r"
  shows "undo_view (tx_entry d tp t r) (names_view (fst (apply_tx d tp t r))) = names_view r"
proof -
  have "ue_removed (tx_entry d tp t r) = tx_removed tp t r"
    "ue_profile (tx_entry d tp t r) = snd (apply_profile (profile_json d) t r)"
    by (simp_all add: tx_entry_def tx_prior_def)
  moreover have "names_view (fst (apply_tx d tp t r)) =
      (hm_get (utxos (consumed d tp t r)),
       hm_get (profiles (fst (apply_profile (profile_json d) t r))))"
    by (simp add: names_view_def apply_tx_utxos apply_tx_profiles)
  moreover have "(\<lambda>k. case map_of (rev (tx_removed tp t r)) k of
         Some s \<Rightarrow> Some s
       | None \<Rightarrow> if k \<in> set (ue_added (tx_entry d tp t r)) then None
                 else hm_get (utxos (consumed d tp t r)) k) = hm_get (utxos r)"
    by (rule ext) (rule utxos_undone [OF assms, symmetric])
  moreover note apply_profile_undone [of r "profile_json d" t]
  ultimately show ?thesis
    unfolding undo_view_def names_view_def by (simp only: fst_conv snd_conv prod.inject)
qed

lemma undo_trivial: "trivial_entry e \<Longrightarrow> undo_view e v = v"
  by (simp add: trivial_entry_def undo_view_def)

interpretation reg: block_journal "\<lambda>t r. fst (apply_tx d tp t r)" accepting_block journal ue_block
    undo_view undo_block names_view unseen for d tp
proof unfold_locales
  fix t r
  assume "unseen t r"
  from tx_entry_undone [OF this, of d tp] show
    "journal (fst (apply_tx d tp t r)) = journal r \<and>
       names_view (fst (apply_tx d tp t r)) = names_view r \<or>
     (\<exists>e. ue_block e = accepting_block t \<and> journal (fst (apply_tx d tp t r)) = journal r @ [e] \<and>
        undo_view e (names_view (fst (apply_tx d tp t r))) = names_view r)"
    by (cases "trivial_entry (tx_entry d tp t r)")
      (simp_all add: apply_tx_journal undo_trivial, simp add: tx_entry_def)
qed (simp_all add: undo_block_view undo_block_journal)

text \<open>The profile-only applier of the profiles follower.\<close>

interpretation prof: block_journal "\<lambda>t r. fst (apply_profile_only fj t r)" accepting_block journal
    ue_block undo_view undo_block names_view "\<lambda>_ _. True" for fj
proof unfold_locales
  fix t r
  have u: "undo_view \<lparr>ue_block = b, ue_added = [], ue_removed = [], ue_profile = Some p\<rparr> v
      = (fst v, (snd v)(fst p := snd p))" for b p v
    by (auto simp: undo_view_def split: prod.split)
  show "journal (fst (apply_profile_only fj t r)) = journal r \<and>
       names_view (fst (apply_profile_only fj t r)) = names_view r \<or>
     (\<exists>e. ue_block e = accepting_block t \<and>
        journal (fst (apply_profile_only fj t r)) = journal r @ [e] \<and>
        undo_view e (names_view (fst (apply_profile_only fj t r))) = names_view r)"
  proof (cases "snd (apply_profile fj t r)")
    case None
    then show ?thesis using apply_profile_undone [of r fj t]
      by (simp add: apply_profile_only_def case_prod_beta names_view_def)
  next
    case (Some p)
    then show ?thesis using apply_profile_undone [of r fj t]
      by (simp add: apply_profile_only_def case_prod_beta names_view_def u split: prod.splits)
  qed
qed (simp_all add: undo_block_view undo_block_journal)

end
