(* ===== verification/Follower.thy ===== *)
theory Follower
  imports Rollback "HOL-Library.Multiset"
begin

text \<open>
  The follower loop of \<open>kachat-names/src/follower.rs\<close>: pull a batch of the virtual chain, undo
  the removed blocks, apply the accepted transactions, advance the checkpoint, prune the
  journal. The chain source (\<open>ChainSource::next_batch\<close>) is a function argument: from its own
  state and the checkpoint it returns its next state and a batch or an error.
\<close>

section \<open>The loop\<close>

record vcc_batch =
  removed_blocks :: "bytes list"
  accepted :: "tx list"
  batch_tip :: "bytes option"

record follower =
  fl_registry :: registry
  checkpoint :: "bytes option"
  finality_keep :: nat

type_synonym ('src, 'e) chain_source = "'src \<Rightarrow> bytes option \<Rightarrow> 'src \<times> ('e + vcc_batch)"

definition follower_new :: "nat \<Rightarrow> follower" where
  "follower_new keep = \<lparr>fl_registry = registry_new, checkpoint = None, finality_keep = keep\<rparr>"

definition seed :: "bytes \<Rightarrow> outpoint \<Rightarrow> gap_state \<Rightarrow> follower \<Rightarrow> follower" where
  "seed scan_from genesis_outpoint genesis_gap f =
     f\<lparr>fl_registry := seed_genesis (fl_registry f) genesis_outpoint genesis_gap,
       checkpoint := Some scan_from\<rparr>"

definition seed_shards :: "(outpoint \<times> price_state) list \<Rightarrow> follower \<Rightarrow> follower" where
  "seed_shards shards f =
     f\<lparr>fl_registry := fold (\<lambda>(x, p) r. seed_shard r x p) shards (fl_registry f)\<rparr>"

definition undo_removed :: "vcc_batch \<Rightarrow> registry \<Rightarrow> registry" where
  "undo_removed b r = fold undo_block (removed_blocks b) r"

definition apply_accepted ::
    "deps \<Rightarrow> templates \<Rightarrow> tx list \<Rightarrow> registry \<Rightarrow> registry \<times> event list" where
  "apply_accepted d tp ts r =
     fold (\<lambda>t (r, evs). case apply_tx d tp t r of (r', es) \<Rightarrow> (r', evs @ es)) ts (r, [])"

definition finish_step :: "vcc_batch \<Rightarrow> registry \<Rightarrow> follower \<Rightarrow> follower" where
  "finish_step b r f =
     f\<lparr>fl_registry := prune_journal (finality_keep f) r,
       checkpoint := (case batch_tip b of Some tip \<Rightarrow> Some tip | None \<Rightarrow> checkpoint f)\<rparr>"

definition follower_step ::
    "deps \<Rightarrow> templates \<Rightarrow> ('src, 'e) chain_source \<Rightarrow> 'src \<Rightarrow> follower
       \<Rightarrow> 'src \<times> follower \<times> ('e + vcc_batch \<times> event list)" where
  "follower_step d tp next_batch src f =
     (case next_batch src (checkpoint f) of
        (src', Inl err) \<Rightarrow> (src', f, Inl err)
      | (src', Inr b) \<Rightarrow>
          (case apply_accepted d tp (accepted b) (undo_removed b (fl_registry f)) of
             (r, evs) \<Rightarrow> (src', finish_step b r f, Inr (b, evs))))"

definition apply_profiles ::
    "(bytes \<Rightarrow> raw_profile option) \<Rightarrow> tx list \<Rightarrow> registry \<Rightarrow> registry \<times> bytes list" where
  "apply_profiles fj ts r =
     fold (\<lambda>t (r, ids). case apply_profile_only fj t r of
             (r', ok) \<Rightarrow> (r', if ok then ids @ [tx_id t] else ids)) ts (r, [])"

definition step_profiles ::
    "(bytes \<Rightarrow> raw_profile option) \<Rightarrow> ('src, 'e) chain_source \<Rightarrow> 'src \<Rightarrow> follower
       \<Rightarrow> 'src \<times> follower \<times> ('e + vcc_batch \<times> bytes list)" where
  "step_profiles fj next_batch src f =
     (case next_batch src (checkpoint f) of
        (src', Inl err) \<Rightarrow> (src', f, Inl err)
      | (src', Inr b) \<Rightarrow>
          (case apply_profiles fj (accepted b) (undo_removed b (fl_registry f)) of
             (r, ids) \<Rightarrow> (src', finish_step b r f, Inr (b, ids))))"

section \<open>Applying a chain segment\<close>

lemma apply_accepted_fst:
  "fst (apply_accepted d tp ts r) = fold (\<lambda>t r. fst (apply_tx d tp t r)) ts r"
proof -
  have "fst (fold (\<lambda>t (r, evs). case apply_tx d tp t r of (r', es) \<Rightarrow> (r', evs @ es)) ts acc) =
      fold (\<lambda>t r. fst (apply_tx d tp t r)) ts (fst acc)" for acc
    by (induction ts arbitrary: acc) (simp_all add: case_prod_beta)
  then show ?thesis by (simp add: apply_accepted_def)
qed

lemma apply_profiles_fst:
  "fst (apply_profiles fj ts r) = fold (\<lambda>t r. fst (apply_profile_only fj t r)) ts r"
proof -
  have "fst (fold (\<lambda>t (r, ids). case apply_profile_only fj t r of
             (r', ok) \<Rightarrow> (r', if ok then ids @ [tx_id t] else ids)) ts acc) =
      fold (\<lambda>t r. fst (apply_profile_only fj t r)) ts (fst acc)" for acc
    by (induction ts arbitrary: acc) (simp_all add: case_prod_beta)
  then show ?thesis by (simp add: apply_profiles_def)
qed

lemma unseen_apply_tx:
  assumes "unseen t' r" and "tx_id t \<noteq> tx_id t'"
  shows "unseen t' (fst (apply_tx d tp t r))"
  using assms by (auto simp: unseen_def apply_tx_utxos consumed_get after_spends_frame)

lemma all_fresh_txs:
  assumes "distinct (map tx_id ts)" and "\<forall>t \<in> set ts. unseen t r"
  shows "reg.all_fresh d tp ts r"
  using assms
proof (induction ts arbitrary: r)
  case (Cons t ts)
  have "\<forall>t' \<in> set ts. unseen t' (fst (apply_tx d tp t r))"
    using Cons.prems by (auto intro!: unseen_apply_tx)
  then show ?case using Cons by simp
qed simp

lemma all_fresh_profiles: "prof.all_fresh fj ts r"
  by (induction ts arbitrary: r) simp_all

lemma run_chain_concat:
  "reg.run_chain d tp chain r = fold (\<lambda>t r. fst (apply_tx d tp t r)) (concat (map snd chain)) r"
  by (induction chain arbitrary: r) (auto simp: reg.run_chain_def)

lemma run_chain_profiles:
  "prof.run_chain fj chain r =
     fold (\<lambda>t r. fst (apply_profile_only fj t r)) (concat (map snd chain)) r"
  by (induction chain arbitrary: r) (auto simp: prof.run_chain_def)

lemma journal_apply_tx: "length (journal (fst (apply_tx d tp t r))) \<le> Suc (length (journal r))"
  by (simp add: apply_tx_journal)

lemma apply_accepted_journal:
  "length (journal (fst (apply_accepted d tp ts r))) \<le> length (journal r) + length ts"
proof -
  have "length (journal (fold (\<lambda>t r. fst (apply_tx d tp t r)) ts r)) \<le> length (journal r) + length ts"
  proof (induction ts arbitrary: r)
    case (Cons t ts)
    show ?case using Cons.IH [of "fst (apply_tx d tp t r)"] journal_apply_tx [of d tp t r] by simp
  qed simp
  then show ?thesis by (simp add: apply_accepted_fst)
qed

text \<open>A segment of new blocks, each transaction under the block that accepts it.\<close>

definition new_segment :: "(bytes \<times> tx list) list \<Rightarrow> registry \<Rightarrow> bool" where
  "new_segment chain r \<longleftrightarrow>
     distinct (map fst chain) \<and> (\<forall>(b, ts) \<in> set chain. \<forall>t \<in> set ts. accepting_block t = b) \<and>
     (\<forall>b \<in> set (map fst chain). \<not> journal_has_block b r)"

definition segment_txs :: "(bytes \<times> tx list) list \<Rightarrow> tx list" where
  "segment_txs chain = concat (map snd chain)"

lemma journal_has_block_iff: "journal_has_block b r \<longleftrightarrow> b \<in> ue_block ` set (journal r)"
  by (auto simp: journal_has_block_def list_ex_iff)

lemma undo_segment:
  assumes "new_segment chain r" and "distinct (map tx_id (segment_txs chain))"
    and "\<forall>t \<in> set (segment_txs chain). unseen t r"
  shows "reg.same (fold undo_block (rev (map fst chain))
           (fst (apply_accepted d tp (segment_txs chain) r))) r"
proof -
  have "reg.chain_ok d tp chain r"
    using assms all_fresh_txs [OF assms(2,3)]
    by (auto simp: reg.chain_ok_def new_segment_def segment_txs_def journal_has_block_iff)
  from reg.undo_chain [OF this] show ?thesis
    by (simp add: run_chain_concat apply_accepted_fst segment_txs_def)
qed

lemma undo_profile_segment:
  assumes "new_segment chain r"
  shows "prof.same (fold undo_block (rev (map fst chain))
           (fst (apply_profiles fj (segment_txs chain) r))) r"
proof -
  have "prof.chain_ok fj chain r"
    using assms
    by (auto simp: prof.chain_ok_def new_segment_def journal_has_block_iff all_fresh_profiles)
  from prof.undo_chain [OF this] show ?thesis
    by (simp add: run_chain_profiles apply_profiles_fst segment_txs_def)
qed

section \<open>Pruning\<close>

lemma prune_frame [simp]:
  "utxos (prune_journal n r) = utxos r" "profiles (prune_journal n r) = profiles r"
  by (simp_all add: prune_journal_def)

lemma prune_journal_drop: "journal (prune_journal n r) = drop (length (journal r) - n) (journal r)"
  by (simp add: prune_journal_def)

lemma prune_keeps_undo:
  assumes "\<forall>e \<in> set (take (length (journal r) - n) (journal r)). ue_block e \<noteq> b"
  shows "names_view (undo_block b (prune_journal n r)) = names_view (undo_block b r)"
proof -
  let ?k = "length (journal r) - n"
  have "filter (\<lambda>e. ue_block e = b) (take ?k (journal r)) = []"
    using assms by (simp add: filter_empty_conv)
  then have "filter (\<lambda>e. ue_block e = b) (drop ?k (journal r)) = filter (\<lambda>e. ue_block e = b) (journal r)"
    by (metis append_Nil append_take_drop_id filter_append)
  then show ?thesis
    by (simp add: undo_block_view prune_journal_drop) (simp add: names_view_def)
qed

section \<open>The newest profile wins\<close>

fun newer :: "profile_entry option \<Rightarrow> profile_entry \<Rightarrow> profile_entry option" where
  "newer None e = Some e"
| "newer (Some p) e = (if snd p < snd e then Some e else Some p)"

definition post_profile ::
    "(bytes \<Rightarrow> raw_profile option) \<Rightarrow> tx \<Rightarrow> (bytes \<Rightarrow> profile_entry option)
       \<Rightarrow> bytes \<Rightarrow> profile_entry option" where
  "post_profile fj t m =
     (case profile_record fj t of None \<Rightarrow> m | Some (a, e) \<Rightarrow> m(a := newer (m a) e))"

lemma apply_profile_post:
  "hm_get (profiles (fst (apply_profile fj t r))) = post_profile fj t (hm_get (profiles r))"
  by (auto simp: apply_profile_def post_profile_def Let_def fun_eq_iff split: option.split)

lemma apply_profile_only_post:
  "hm_get (profiles (fst (apply_profile_only fj t r))) = post_profile fj t (hm_get (profiles r))"
  using apply_profile_post [of fj t r]
  by (simp add: apply_profile_only_def case_prod_beta split: option.split)

lemma apply_profiles_post:
  "hm_get (profiles (fst (apply_profiles fj ts r))) = fold (post_profile fj) ts (hm_get (profiles r))"
proof -
  have "hm_get (profiles (fold (\<lambda>t r. fst (apply_profile_only fj t r)) ts r)) =
      fold (post_profile fj) ts (hm_get (profiles r))"
    by (induction ts arbitrary: r) (simp_all add: apply_profile_only_post)
  then show ?thesis by (simp add: apply_profiles_fst)
qed

lemma record_order: "profile_record fj t = Some (a, e) \<Longrightarrow> snd e = (accepting_daa t, tx_id t)"
  by (auto simp: profile_record_def Let_def bind_eq_Some_conv split: if_splits)

lemma newer_Some:
  "newer m e = Some (case m of None \<Rightarrow> e | Some p \<Rightarrow> if snd p < snd e then e else p)"
  by (cases m) simp_all

lemma pick_swap:
  fixes k :: "'a \<Rightarrow> 'o::linorder"
  assumes "k a \<noteq> k b" and "pick = (\<lambda>p x. if k p < k x then x else p)"
  shows "pick (pick p a) b = pick (pick p b) a" and "pick a b = pick b a"
  using assms by auto

lemma newer_newer:
  assumes "snd e \<noteq> snd e'"
  shows "newer (newer m e) e' = newer (newer m e') e"
  using pick_swap [of snd, OF assms refl] by (cases m) (simp_all only: newer_Some option.case option.inject)

lemma post_commute:
  assumes "tx_id t \<noteq> tx_id t'"
  shows "post_profile fj t \<circ> post_profile fj t' = post_profile fj t' \<circ> post_profile fj t"
proof -
  have "snd e \<noteq> snd e'" if "profile_record fj t = Some (a, e)" "profile_record fj t' = Some (a', e')"
    for a e a' e'
    using that [THEN record_order] assms by simp
  then show ?thesis
    by (auto simp: post_profile_def fun_eq_iff newer_newer split: option.split)
qed

lemma profiles_commute:
  assumes "distinct (map tx_id ts)" and "mset ts = mset ts'"
  shows "hm_get (profiles (fst (apply_profiles fj ts r))) =
         hm_get (profiles (fst (apply_profiles fj ts' r)))"
proof -
  have "fold (post_profile fj) ts = fold (post_profile fj) ts'"
  proof (rule fold_multiset_equiv [OF _ assms(2)])
    fix t t'
    assume "t \<in> set ts" "t' \<in> set ts"
    then show "post_profile fj t \<circ> post_profile fj t' = post_profile fj t' \<circ> post_profile fj t"
      using post_commute [of t t' fj] assms(1) by (cases "t = t'") (auto simp: distinct_map inj_on_def)
  qed
  then show ?thesis by (simp add: apply_profiles_post)
qed

text \<open>The order key kept for an address never goes down, and every record is topped.\<close>

definition at_least :: "order_key \<Rightarrow> profile_entry option \<Rightarrow> bool" where
  "at_least k m \<longleftrightarrow> (case m of None \<Rightarrow> False | Some p \<Rightarrow> k \<le> snd p)"

lemma at_least_newer: "at_least k m \<Longrightarrow> at_least k (newer m e)"
  by (cases m) (auto simp: at_least_def newer_Some simp del: less_prod_simp intro: order_trans less_imp_le)

lemma at_least_post: "at_least k (m a) \<Longrightarrow> at_least k (post_profile fj t m a)"
  by (simp add: post_profile_def at_least_newer split: option.split prod.split)

lemma at_least_posts: "at_least k (m a) \<Longrightarrow> at_least k (fold (post_profile fj) ts m a)"
  by (induction ts arbitrary: m) (simp_all add: at_least_post)

lemma profile_kept:
  assumes "t \<in> set ts" and "profile_record fj t = Some (a, e)"
  shows "at_least (snd e) (fold (post_profile fj) ts m a)"
  using assms(1)
proof (induction ts arbitrary: m)
  case (Cons t' ts)
  show ?case
  proof (cases "t' = t")
    case True
    have "at_least (snd e) (post_profile fj t m a)"
      by (cases "m a") (auto simp: at_least_def post_profile_def assms(2))
    then show ?thesis using True by (simp add: at_least_posts)
  qed (use Cons in simp)
qed simp

lemma profile_from_record:
  assumes "fold (post_profile fj) ts m a = Some e"
  shows "m a = Some e \<or> (\<exists>t \<in> set ts. profile_record fj t = Some (a, e))"
  using assms
proof (induction ts arbitrary: m)
  case (Cons t ts)
  then have "post_profile fj t m a = Some e \<or> (\<exists>t \<in> set ts. profile_record fj t = Some (a, e))"
    by simp
  moreover have "post_profile fj t m a = Some e \<Longrightarrow> m a = Some e \<or> profile_record fj t = Some (a, e)"
    by (cases "m a") (auto simp: post_profile_def split: option.splits if_splits)
  ultimately show ?case by auto
qed simp

end
