(* ===== verification/Samples.thy ===== *)
theory Samples
  imports Ingest "HOL-Library.Code_Target_Numeral"
begin

text \<open>
  Concrete inputs for the witnesses of the registry: small functions in place of the hash, curve
  and JSON crates, the contract templates of the crate's own tests (\<open>[0x6b]\<close>, \<open>[0xaa, 0xbb,
  0xcc]\<close>), and a transaction that registers a name in a gap.
\<close>

definition sample_digest :: "bytes \<Rightarrow> bytes" where
  "sample_digest b = take 32 (rev b @ replicate 32 0x55)"

fun hex_value :: "u8 \<Rightarrow> u8 option" where
  "hex_value b =
     (if is_ascii_digit b then Some (b - 48)
      else if is_lower_af b then Some (b - 87)
      else if 65 \<le> b \<and> b \<le> 70 then Some (b - 55) else None)"

fun sample_hex :: "bytes \<Rightarrow> bytes option" where
  "sample_hex [] = Some []"
| "sample_hex [_] = None"
| "sample_hex (a # b # r) =
     (case (hex_value a, hex_value b, sample_hex r) of
        (Some x, Some y, Some z) \<Rightarrow> Some ((16 * x + y) # z) | _ \<Rightarrow> None)"

definition sample_crypto :: crypto where
  "sample_crypto = \<lparr>blake3 = sample_digest, blake2b = sample_digest,
     xonly_ok = (\<lambda>k. length k = 32), hex_decode = sample_hex\<rparr>"

definition sample_deps :: deps where
  "sample_deps = \<lparr>hashes = sample_crypto,
     profile_json = (\<lambda>j. Some \<lparr>raw_v = Some 1, raw_avatar = None, raw_banner = None, raw_bio = None,
       raw_linktree = None, raw_primary_name = None\<rparr>)\<rparr>"

definition sample_template :: "nat \<Rightarrow> contract_template" where
  "sample_template len =
     \<lparr>prefix = [0x6b], suffix = [0xaa, 0xbb, 0xcc], state_offset = 1, state_len = len\<rparr>"

definition sample_templates :: templates where
  "sample_templates = templates_new (sample_template 66) (sample_template 126) (sample_template 75)"

definition sample_gap :: gap_state where
  "sample_gap = \<lparr>g_lo = replicate 32 0, g_hi = replicate 32 0xff\<rparr>"

definition gap_outpoint :: outpoint where
  "gap_outpoint = (replicate 32 1, 0)"

definition sample_registry :: registry where
  "sample_registry = seed_genesis registry_new gap_outpoint sample_gap"

definition sample_owner :: bytes where
  "sample_owner = replicate 32 5"

definition sample_split :: "gap_state \<times> gap_state \<times> name_state" where
  "sample_split =
     register_with_period sample_crypto sample_gap (ascii ''bob'') sample_owner 1000 1 year_ms"

definition plain_output :: "bytes \<Rightarrow> tx_output" where
  "plain_output spk = \<lparr>script_public_key = spk, out_value = 1000, covenant = None\<rparr>"

definition register_tx :: tx where
  "register_tx =
     (case sample_split of (left, right, nm) \<Rightarrow>
        \<lparr>tx_id = replicate 32 2,
         inputs = [\<lparr>previous_outpoint = gap_outpoint,
                    signature_script = sig_script_of
                      [ascii ''bob'', sample_owner, replicate 32 9, [0xe8, 0x03], [1]]
                      [0x86, 0x67, 0xaf, 0x5e] [0x6b],
                    spent_script = [], spent_amount = Some 5000\<rparr>],
         outputs = [plain_output (gap_spk sample_crypto sample_templates left),
                    plain_output (gap_spk sample_crypto sample_templates right),
                    plain_output (name_spk sample_crypto sample_templates nm)],
         payload = [], accepting_block = replicate 32 3, accepting_daa = 7, block_time = 99\<rparr>)"

text \<open>A manifest as a tree of objects, strings and numbers.\<close>

datatype sample_json = JStr bytes | JNum nat | JObj "(bytes \<times> sample_json) list"

fun sj_get :: "sample_json \<Rightarrow> bytes \<Rightarrow> sample_json option" where
  "sj_get (JObj kvs) k = map_of kvs k"
| "sj_get _ k = None"

fun sj_str :: "sample_json \<Rightarrow> bytes option" where
  "sj_str (JStr s) = Some s"
| "sj_str _ = None"

fun sj_num :: "sample_json \<Rightarrow> u64 option" where
  "sj_num (JNum n) = Some (word_of_nat n)"
| "sj_num _ = None"

fun sj_object :: "sample_json \<Rightarrow> (bytes \<times> sample_json) list option" where
  "sj_object (JObj kvs) = Some kvs"
| "sj_object _ = None"

definition sample_api :: "sample_json json_api" where
  "sample_api = \<lparr>j_get = sj_get, j_str = sj_str, j_u64 = sj_num, j_i64 = sj_num, j_object = sj_object\<rparr>"

definition sample_artifact :: "nat \<Rightarrow> (string \<times> string) list \<Rightarrow> sample_json" where
  "sample_artifact len tags = JObj
     [(ascii ''prefixHex'', JStr (ascii ''6b'')), (ascii ''suffixHex'', JStr (ascii ''aabbcc'')),
      (ascii ''stateSpan'', JObj [(ascii ''offset'', JNum 1), (ascii ''len'', JNum len)]),
      (ascii ''dispatchTags'', JObj (map (\<lambda>(n, h). (ascii n, JStr (ascii h))) tags))]"

text \<open>A version 4 manifest: covenant ids, the period, and a tag per entry.\<close>

definition sample_manifest :: sample_json where
  "sample_manifest = JObj
     [(ascii ''registryVersion'', JNum 4),
      (ascii ''registryCovenantId'', JStr (concat (replicate 32 (ascii ''0e'')))),
      (ascii ''params'', JObj [(ascii ''periodMs'', JNum 31536000000)]),
      (ascii ''artifacts'', JObj
        [(ascii ''KachatGap'', sample_artifact 66 [(''register'', ''8667af5e''), (''merge'', ''63d25bc2'')]),
         (ascii ''KachatName'', sample_artifact 126 [(''transfer'', ''63d25bc2'')]),
         (ascii ''KachatOffer'', sample_artifact 108 [(''accept'', ''9d4043b4'')])])]"


definition sample_tags :: "(contract \<times> bytes \<times> entry) list" where
  "sample_tags =
     [(Gap, [0x86, 0x67, 0xaf, 0x5e], GapRegister), (Gap, [0x63, 0xd2, 0x5b, 0xc2], GapMerge),
      (Name, [0x63, 0xd2, 0x5b, 0xc2], NameTransfer), (Offer, [0x9d, 0x40, 0x43, 0xb4], OfferAccept)]"

definition manifest_templates :: templates where
  "manifest_templates =
     \<lparr>t_version = 4, t_gap = sample_template 66, t_name = sample_template 126,
      t_offer = sample_template 108, t_price = None, t_tags = sample_tags, t_period_ms = year_ms,
      t_registry_id = Some (replicate 32 0x0e), t_price_id = None\<rparr>"

lemma sample_hex_literals:
  "sample_hex (ascii ''6b'') = Some [0x6b]"
  "sample_hex (ascii ''aabbcc'') = Some [0xaa, 0xbb, 0xcc]"
  "sample_hex (ascii ''8667af5e'') = Some [0x86, 0x67, 0xaf, 0x5e]"
  "sample_hex (ascii ''63d25bc2'') = Some [0x63, 0xd2, 0x5b, 0xc2]"
  "sample_hex (ascii ''9d4043b4'') = Some [0x9d, 0x40, 0x43, 0xb4]"
  by (simp_all add: ascii_def ascii_class_defs)

lemma sample_hex_repeat: "sample_hex (concat (replicate n (ascii ''0e''))) = Some (replicate n 0x0e)"
  by (induction n) (simp_all add: ascii_def ascii_class_defs)

lemmas sample_manifest_defs = sample_crypto_def sample_api_def sample_manifest_def
  sample_artifact_def sample_template_def sample_hex_literals sample_hex_repeat sized_def decode32_def

lemma sample_manifest_parts:
  "manifest_template sample_crypto sample_api sample_manifest ''KachatGap'' = Some (sample_template 66)"
  "manifest_template sample_crypto sample_api sample_manifest ''KachatName'' = Some (sample_template 126)"
  "manifest_template sample_crypto sample_api sample_manifest ''KachatOffer'' = Some (sample_template 108)"
  "manifest_version sample_api sample_manifest = 4"
  "manifest_id sample_crypto sample_api sample_manifest ''registryCovenantId'' = Some (replicate 32 0x0e)"
  by (simp_all add: manifest_template_def manifest_version_def manifest_id_def sample_manifest_defs)

lemma sample_manifest_tags:
  "manifest_tags sample_crypto sample_api sample_manifest
     [(''KachatGap'', Gap), (''KachatName'', Name), (''KachatOffer'', Offer), (''KachatPrice'', Price)]
   = Some sample_tags"
proof -
  have "from_manifest_name Gap (ascii ''register'') = Some GapRegister"
    "from_manifest_name Gap (ascii ''merge'') = Some GapMerge"
    "from_manifest_name Name (ascii ''transfer'') = Some NameTransfer"
    "from_manifest_name Offer (ascii ''accept'') = Some OfferAccept"
    by (simp_all add: from_manifest_name_def manifest_names_def)
  then show ?thesis by (simp add: sample_tags_def sample_manifest_defs)
qed

lemma sample_manifest_period:
  "Option.bind (j_get sample_api sample_manifest (ascii ''params''))
     (\<lambda>p. Option.bind (j_get sample_api p (ascii ''periodMs'')) (j_i64 sample_api)) = Some year_ms"
  by (simp add: sample_manifest_defs year_ms_def)

lemma sample_manifest_ok:
  "from_manifest sample_crypto sample_api sample_manifest = Some manifest_templates"
  using sample_manifest_period
  by (auto simp: from_manifest_def Let_def sample_manifest_parts sample_manifest_tags bind_eq_Some_conv
      templates_new_def manifest_templates_def sample_tags_def simp del: manifest_tags.simps)

end
