(* ===== verification/Names_Properties.thy ===== *)
theory Names_Properties
  imports Follower Samples
begin

text \<open>
  The properties of the names registry, each with its witness on the sample inputs.
\<close>

section \<open>The sample registration\<close>

lemma register_tx_fields:
  "tx_id register_tx = replicate 32 2" "accepting_block register_tx = replicate 32 3"
  "payload register_tx = []"
  by (simp_all add: register_tx_def case_prod_beta)

definition register_args :: "bytes list" where
  "register_args = [ascii ''bob'', sample_owner, replicate 32 9, [0xe8, 0x03], [1]]"

definition register_spend :: "entry \<Rightarrow> spend" where
  "register_spend e =
     \<lparr>sp_index = 0, sp_outpoint = gap_outpoint, sp_tracked = TGap sample_gap, sp_entry = e,
      sp_sig = \<lparr>args = map push_of register_args, dispatch_tag = [0x86, 0x67, 0xaf, 0x5e],
                redeem = [0x6b]\<rparr>\<rparr>"

lemma register_spend_fields:
  "sp_index (register_spend e) = 0" "sp_outpoint (register_spend e) = gap_outpoint"
  "sp_tracked (register_spend e) = TGap sample_gap" "sp_entry (register_spend e) = e"
  by (simp_all add: register_spend_def)

lemma register_spends:
  "find_spends tp sample_registry register_tx =
     (case templates_entry tp Gap [0x86, 0x67, 0xaf, 0x5e] of
        None \<Rightarrow> [] | Some e \<Rightarrow> [register_spend e])"
proof -
  have "decode_sig_script (sig_script_of register_args [0x86, 0x67, 0xaf, 0x5e] [0x6b]) =
      Some \<lparr>args = map push_of register_args, dispatch_tag = [0x86, 0x67, 0xaf, 0x5e], redeem = [0x6b]\<rparr>"
    by (rule decode_sig_script_of) (simp_all add: register_args_def sample_owner_def)
  then show ?thesis
    by (simp add: find_spends_def register_tx_def case_prod_beta register_spend_def register_args_def
        sample_registry_def seed_genesis_def map_filter_def split: option.split)
qed

lemma register_entry: "templates_entry sample_templates Gap [0x86, 0x67, 0xaf, 0x5e] = Some GapRegister"
  "templates_entry manifest_templates Gap [0x86, 0x67, 0xaf, 0x5e] = Some GapRegister"
  by (simp_all add: templates_entry_def sample_templates_def templates_new_def manifest_templates_def
      sample_tags_def entry_for_tag_def v2_tags_def)

lemma register_outputs:
  "outputs register_tx =
     [plain_output (gap_spk sample_crypto sample_templates (fst sample_split)),
      plain_output (gap_spk sample_crypto sample_templates (fst (snd sample_split))),
      plain_output (name_spk sample_crypto sample_templates (snd (snd sample_split)))]"
  by (simp add: register_tx_def case_prod_beta)

lemma register_args_read:
  "arg_data (sp_sig (register_spend e)) 0 = Some (ascii ''bob'')"
  "arg_32 (sp_sig (register_spend e)) 1 = Some sample_owner"
  "arg_i64 (sp_sig (register_spend e)) 3 = Some 1000"
  "arg_i64 (sp_sig (register_spend e)) 4 = Some 1"
proof -
  have n: "decode_script_number [0xe8, 0x03] = 1000" "decode_script_number [1] = 1" by code_simp+
  show "arg_data (sp_sig (register_spend e)) 0 = Some (ascii ''bob'')"
    "arg_32 (sp_sig (register_spend e)) 1 = Some sample_owner"
    "arg_i64 (sp_sig (register_spend e)) 3 = Some 1000"
    "arg_i64 (sp_sig (register_spend e)) 4 = Some 1"
    by (simp_all add: register_spend_def register_args_def arg_data_def arg_32_def arg_i64_def
        get_at_def push_of_def sample_owner_def n)
qed

lemma register_marked:
  "marked sample_deps tp register_tx sample_registry =
     \<lparr>r_reg = sample_registry, r_used = [], r_events = []\<rparr>"
proof -
  have "strip_prefix (ascii s) [] = None" if "s \<noteq> []" for s
    using that by (simp add: strip_prefix_def ascii_def)
  then show ?thesis
    by (simp add: marked_def Let_def apply_offer_marker_def marker_offer_def apply_profile_def
        profile_record_def register_tx_fields from_utf8_def)
qed

lemma register_applied:
  "hm_get (utxos (fst (apply_tx sample_deps sample_templates register_tx sample_registry)))
     (replicate 32 2, 2) = Some (TName (snd (snd sample_split)))"
proof -
  have valid: "is_valid_name (ascii ''bob'')"
    by (simp add: is_valid_name_def ascii_def ascii_class_defs)
  have split: "register_with_period sample_crypto sample_gap (ascii ''bob'') sample_owner 1000 1 year_ms
      = sample_split" by (simp add: sample_split_def)
  have per: "t_period_ms sample_templates = year_ms" "t_registry_id sample_templates = None"
    "t_price_id sample_templates = None"
    by (simp_all add: sample_templates_def templates_new_def)
  have deps: "hashes sample_deps = sample_crypto" by (simp add: sample_deps_def)
  show ?thesis
    by (simp add: apply_tx_utxos consumed_get tx_removed_def register_spends register_entry
        after_spends_def register_marked apply_spends_def Let_def has_entry_def apply_price_spends_def
        per apply_register_def register_args_read register_args_read(2) [simplified] valid split track_split_def case_prod_beta
        track_output_def find_output_def register_outputs plain_output_def reg_bind_def
        register_tx_fields deps new_event_def register_spend_fields gap_outpoint_def
        offer_exit_event_def)
qed

section \<open>Following the chain\<close>

text \<open>C2: After a follower step that accepts a segment of new chain blocks, a step whose batch
  removes those blocks newest first leaves the tracked UTXOs, the profiles and the undo journal
  exactly as they were before the segment, provided the transactions are new (distinct ids, none
  of whose outputs is tracked yet) and the segment fits the retained history.\<close>

theorem follower_reorg_exact:
  assumes "new_segment chain (fl_registry f)"
    and "distinct (map tx_id (segment_txs chain))"
    and "\<forall>t \<in> set (segment_txs chain). unseen t (fl_registry f)"
    and "next_batch src (checkpoint f) = (src1, Inr b1)"
    and "removed_blocks b1 = []" and "accepted b1 = segment_txs chain"
    and "follower_step d tp next_batch src f = (src1, f1, res1)"
    and "length (journal (fl_registry f)) + length (segment_txs chain) \<le> finality_keep f"
    and "next_batch src1 (checkpoint f1) = (src2, Inr b2)"
    and "removed_blocks b2 = rev (map fst chain)" and "accepted b2 = []"
    and "follower_step d tp next_batch src1 f1 = (src2, f2, res2)"
  shows "hm_get (utxos (fl_registry f2)) = hm_get (utxos (fl_registry f)) \<and>
    hm_get (profiles (fl_registry f2)) = hm_get (profiles (fl_registry f)) \<and>
    journal (fl_registry f2) = journal (fl_registry f)"
proof -
  let ?r1 = "fst (apply_accepted d tp (segment_txs chain) (fl_registry f))"
  have f1: "fl_registry f1 = prune_journal (finality_keep f) ?r1" "finality_keep f1 = finality_keep f"
    using assms(4-7) by (auto simp: follower_step_def undo_removed_def finish_step_def case_prod_beta)
  have same: "reg.same (fold undo_block (rev (map fst chain)) ?r1) (fl_registry f)"
    using undo_segment assms(1-3) .
  have "length (journal ?r1) \<le> finality_keep f"
    using apply_accepted_journal [of d tp "segment_txs chain" "fl_registry f"] assms(8) by linarith
  then have r1: "fl_registry f1 = ?r1" using f1 by (simp add: prune_journal_def)
  have "fl_registry f2 = prune_journal (finality_keep f) (fold undo_block (rev (map fst chain)) ?r1)"
    using assms(9-12) r1 f1(2)
    by (auto simp: follower_step_def undo_removed_def finish_step_def apply_accepted_def)
  then show ?thesis using same assms(8) by (simp add: reg.same_def names_view_def prune_journal_def)
qed

definition sample_chain :: "(bytes \<times> tx list) list" where
  "sample_chain = [(replicate 32 3, [register_tx])]"

definition sample_follower :: follower where
  "sample_follower = \<lparr>fl_registry = sample_registry, checkpoint = Some (replicate 32 0), finality_keep = 10\<rparr>"

text \<open>A source that accepts the segment first and removes it next.\<close>

definition sample_source :: "(nat, unit) chain_source" where
  "sample_source n from =
     (Suc n, Inr (if n = 0
        then \<lparr>removed_blocks = [], accepted = segment_txs sample_chain, batch_tip = Some (replicate 32 3)\<rparr>
        else \<lparr>removed_blocks = rev (map fst sample_chain), accepted = [], batch_tip = None\<rparr>))"

definition sample_step :: "nat \<Rightarrow> follower \<Rightarrow> follower" where
  "sample_step n f = fst (snd (follower_step sample_deps sample_templates sample_source n f))"

lemma sample_step_eq:
  "follower_step sample_deps sample_templates sample_source n f =
     (Suc n, sample_step n f, snd (snd (follower_step sample_deps sample_templates sample_source n f)))"
  by (simp add: sample_step_def follower_step_def sample_source_def case_prod_beta)

theorem follower_reorg_exact_witness:
  "hm_get (utxos (fl_registry (sample_step 1 (sample_step 0 sample_follower)))) =
     hm_get (utxos sample_registry)"
proof -
  have seg: "new_segment sample_chain (fl_registry sample_follower)"
    by (simp add: new_segment_def sample_chain_def register_tx_fields sample_follower_def
        journal_has_block_def sample_registry_def seed_genesis_def registry_new_def)
  have ids: "distinct (map tx_id (segment_txs sample_chain))"
    by (simp add: segment_txs_def sample_chain_def)
  have fresh: "\<forall>t \<in> set (segment_txs sample_chain). unseen t (fl_registry sample_follower)"
    by (simp add: segment_txs_def sample_chain_def unseen_def sample_follower_def sample_registry_def
        seed_genesis_def registry_new_def register_tx_fields gap_outpoint_def)
  have keep: "length (journal (fl_registry sample_follower)) + length (segment_txs sample_chain)
      \<le> finality_keep sample_follower"
    by (simp add: segment_txs_def sample_chain_def sample_follower_def sample_registry_def
        seed_genesis_def registry_new_def)
  have "hm_get (utxos (fl_registry (sample_step (Suc 0) (sample_step 0 sample_follower)))) =
      hm_get (utxos (fl_registry sample_follower))"
    by (rule follower_reorg_exact [OF seg ids fresh _ _ _ sample_step_eq keep _ _ _ sample_step_eq,
          THEN conjunct1], (simp add: sample_source_def)+)
  then show ?thesis by (simp add: sample_follower_def)
qed

section \<open>One transaction\<close>

text \<open>C7: Whatever a transaction makes the registry track is a state whose predicted script is the
  script of the very output it is tracked at, an output bound to the registry's (or the price
  record's) covenant when the node reports covenants, and bound to none for an offer. Everything
  else tracked afterwards was tracked before.\<close>

theorem tx_tracks_only_verified:
  assumes "hm_get (utxos (fst (apply_tx d tp t r))) k = Some s"
  shows "hm_get (utxos r) k = Some s \<or> verified (hashes d) tp t k s"
  using assms by (rule apply_tx_verified)

theorem tx_tracks_only_verified_witness:
  "verified sample_crypto sample_templates register_tx (replicate 32 2, 2) (TName (snd (snd sample_split)))"
proof -
  have "hm_get (utxos (fst (apply_tx sample_deps sample_templates register_tx sample_registry)))
      (replicate 32 2, 2) = Some (TName (snd (snd sample_split)))"
    by (rule register_applied)
  from tx_tracks_only_verified [OF this] show ?thesis
    by (simp add: sample_registry_def seed_genesis_def registry_new_def gap_outpoint_def sample_deps_def)
qed

text \<open>C9: Outside the transaction's own outputs, applying it removes exactly the tracked UTXOs its
  recognised inputs spend and leaves every other one as it was.\<close>

theorem tx_consumes_exactly_its_spends:
  assumes "fst k \<noteq> tx_id t"
  shows "hm_get (utxos (fst (apply_tx d tp t r))) k =
    (if k \<in> sp_outpoint ` set (find_spends tp r t) then None else hm_get (utxos r) k)"
proof -
  have "fst ` set (tx_removed tp t r) = sp_outpoint ` set (find_spends tp r t)"
    by (force simp: tx_removed_def)
  then show ?thesis using assms by (simp add: apply_tx_utxos consumed_get after_spends_frame)
qed

theorem tx_consumes_exactly_its_spends_witness:
  "hm_get (utxos (fst (apply_tx sample_deps sample_templates register_tx sample_registry))) gap_outpoint
     = None"
proof -
  have "gap_outpoint \<in> set (map sp_outpoint (find_spends sample_templates sample_registry register_tx))"
    by (simp add: register_spends register_entry register_spend_fields)
  then show ?thesis
    by (subst tx_consumes_exactly_its_spends) (simp_all add: gap_outpoint_def register_tx_fields)
qed

text \<open>C32: The entry the applier reads off a spend is an entry of the contract being spent, for
  every set of templates a manifest yields: a dispatch tag never carries over from one contract
  to another.\<close>

theorem spend_entry_matches_contract:
  assumes "from_manifest c J m = Some tp" and "s \<in> set (find_spends tp r t)"
  shows "entry_contract (sp_entry s) = tracked_contract (sp_tracked s)"
  by (rule templates_entry_contract [OF from_manifest_tags [OF assms(1)] find_spends_entry [OF assms(2)]])

theorem spend_entry_matches_contract_witness:
  "entry_contract (sp_entry (hd (find_spends manifest_templates sample_registry register_tx))) =
   tracked_contract (sp_tracked (hd (find_spends manifest_templates sample_registry register_tx)))"
proof -
  have "find_spends manifest_templates sample_registry register_tx \<noteq> []"
    by (simp add: register_spends register_entry)
  then have "hd (find_spends manifest_templates sample_registry register_tx)
      \<in> set (find_spends manifest_templates sample_registry register_tx)" by simp
  from spend_entry_matches_contract [OF sample_manifest_ok this] show ?thesis .
qed

text \<open>Templates built from a manifest are of a known version (at most 5); a covenant registry
  (version 3 and up) always has a 32-byte covenant id and a dispatch table, every tag of the table
  has four bytes and belongs to the contract it is listed under; the price record exists exactly in
  version 3, with its covenant id.\<close>

theorem manifest_templates_sound:
  assumes "from_manifest c J m = Some tp"
  shows "unat (t_version tp) \<le> 5 \<and>
    (is_covenant_registry tp \<longrightarrow>
       (\<exists>rid. t_registry_id tp = Some rid \<and> length rid = 32) \<and> t_tags tp \<noteq> []) \<and>
    (has_price_record tp \<longleftrightarrow> t_version tp = 3) \<and> (t_price_id tp \<noteq> None \<longleftrightarrow> t_version tp = 3) \<and>
    (\<forall>(ct, tag, e) \<in> set (t_tags tp). entry_contract e = ct \<and> length tag = 4)"
proof -
  let ?v = "manifest_version J m"
  note parts = from_manifest_parts [OF assms]
  have u: "unat (t_version tp) = unat ?v" using small_version [OF parts(1)] parts(2) by simp
  have "?v \<ge> 3 \<longleftrightarrow> t_version tp \<ge> 3" "?v = 3 \<longleftrightarrow> t_version tp = 3"
    using u by (simp_all add: word_le_nat_alt word_unat_eq_iff)
  moreover have "unat ?v \<le> 5" using parts(1) by (simp add: word_le_nat_alt)
  moreover have "tags_ok (t_tags tp)" using from_manifest_tags [OF assms] .
  ultimately show ?thesis using parts(3-5) u
    by (simp add: is_covenant_registry_def has_price_record_def tags_ok_def list_all_iff)
qed

theorem manifest_templates_sound_witness:
  "(\<exists>rid. t_registry_id manifest_templates = Some rid \<and> length rid = 32) \<and>
   \<not> has_price_record manifest_templates"
  using manifest_templates_sound [OF sample_manifest_ok]
  by (simp add: manifest_templates_def is_covenant_registry_def)

text \<open>The fee of a transaction is the exact difference of what its inputs spend and its outputs
  pay, and it is known exactly when every spent amount is, neither sum leaves \<open>u64\<close>, the outputs do
  not pay more than the inputs, and the difference fits \<open>i64\<close>.\<close>

theorem tx_fee_exact:
  "tx_fee t = Some f \<longleftrightarrow>
     (\<exists>amounts. map spent_amount (inputs t) = map Some amounts \<and>
        (let spent = sum_list (map unat amounts);
             paid = sum_list (map (unat \<circ> out_value) (outputs t))
         in spent < 2 ^ 64 \<and> paid \<le> spent \<and> spent - paid < 2 ^ 63 \<and>
            sint f = int (spent - paid)))"
  by (simp add: tx_fee_sum Let_def)

text \<open>An offer that a payload marker announces has usable keys (valid curve points, not the
  all-zero key), a refund time that is not negative, and a seller exactly when the offer template's
  state has room for one.\<close>

theorem offer_marker_sound:
  assumes "marker_offer c tp t = Some ofr"
  shows "usable_key c (o_buyer ofr) \<and> pred_option (usable_key c) (o_seller ofr) \<and>
    0 \<le> sint (o_refund_after ofr) \<and> length (o_key ofr) = 32 \<and>
    state_len (t_offer tp) = (if o_seller ofr = None then 75 else 108) \<and>
    starts_with (ascii ''kchat:1:offer:'') (payload t)"
  using marker_offer_parts [OF assms] by simp

definition sample_hex32 :: bytes where
  "sample_hex32 = concat (replicate 32 [0x30, 0x35])" \<comment> \<open>05 repeated\<close>

definition offer_tx :: tx where
  "offer_tx = register_tx\<lparr>inputs := [],
     payload := ascii ''kchat:1:offer:'' @ sample_hex32 @ [58] @ sample_hex32 @ [58, 0x37, 0x30]\<rparr>"

definition sample_offer :: offer_state where
  "sample_offer = \<lparr>o_key = replicate 32 5, o_buyer = replicate 32 5, o_seller = None, o_refund_after = 70\<rparr>"

lemma sample_hex32_facts:
  "\<forall>b \<in> set sample_hex32. b < 0x80 \<and> b \<noteq> 58" "sample_hex sample_hex32 = Some (replicate 32 5)"
proof -
  have "sample_hex (concat (replicate n [0x30, 0x35])) = Some (replicate n 5)" for n
    by (induction n) (simp_all add: ascii_class_defs)
  then show "sample_hex sample_hex32 = Some (replicate 32 5)" by (simp add: sample_hex32_def)
  show "\<forall>b \<in> set sample_hex32. b < 0x80 \<and> b \<noteq> 58" by (auto simp: sample_hex32_def)
qed

lemma sample_offer_announced: "marker_offer sample_crypto sample_templates offer_tx = Some sample_offer"
proof -
  have pay: "payload offer_tx = ascii ''kchat:1:offer:'' @ sample_hex32 @ 58 # sample_hex32 @ [58, 0x37, 0x30]"
    by (simp add: offer_tx_def)
  have "\<forall>b \<in> set (payload offer_tx). b < 0x80"
    using sample_hex32_facts(1) by (auto simp: pay ascii_def)
  then have utf: "from_utf8 (payload offer_tx) = Some (payload offer_tx)"
    by (simp add: from_utf8_def ascii_utf8_valid)
  have parts: "split_on 58 (sample_hex32 @ 58 # sample_hex32 @ [58, 0x37, 0x30]) =
      [sample_hex32, sample_hex32, [0x37, 0x30]]"
  proof -
    have "58 \<notin> set sample_hex32" using sample_hex32_facts(1) by blast
    then show ?thesis by (simp add: split_on_append)
  qed
  have dec: "decode32 sample_crypto sample_hex32 = Some (replicate 32 5)"
    by (simp add: decode32_def sample_crypto_def sample_hex32_facts(2) sized_def)
  have "parse_i64 [0x37, 0x30] = Some 70"
    by (simp add: parse_i64_def magnitude_of_def digit_of_def ascii_class_defs)
  moreover have "state_len (t_offer sample_templates) = 75"
    by (simp add: sample_templates_def templates_new_def sample_template_def)
  moreover have "\<not> (70 :: i64) <s 0" by code_simp
  ultimately show ?thesis
    by (simp add: marker_offer_def utf, simp add: pay parse_offer_marker_def parts dec)
      (simp add: sample_offer_def usable_key_def sample_crypto_def)
qed

theorem offer_marker_sound_witness:
  "usable_key sample_crypto (o_buyer sample_offer) \<and> starts_with (ascii ''kchat:1:offer:'') (payload offer_tx)"
  using offer_marker_sound [OF sample_offer_announced] by simp

section \<open>Profiles\<close>

text \<open>Which profile an address ends up with does not depend on the order in which its records are
  applied: permuting transactions with distinct ids gives the same profile for every address.\<close>

theorem profiles_order_independent:
  assumes "distinct (map tx_id ts)" and "mset ts = mset ts'"
  shows "hm_get (profiles (fst (apply_profiles fj ts r))) =
         hm_get (profiles (fst (apply_profiles fj ts' r)))"
  using assms by (rule profiles_commute)

definition profile_tx :: "u8 \<Rightarrow> u64 \<Rightarrow> tx" where
  "profile_tx i daa =
     \<lparr>tx_id = replicate 32 i,
      inputs = [\<lparr>previous_outpoint = (replicate 32 8, 0), signature_script = [],
                 spent_script = [0x20, 0xac], spent_amount = None\<rparr>],
      outputs = [plain_output [0x20, 0xac]],
      payload = ascii ''kchat:1:profile:{}'', accepting_block = replicate 32 i,
      accepting_daa = daa, block_time = 0\<rparr>"

theorem profiles_order_independent_witness:
  "hm_get (profiles (fst (apply_profiles (profile_json sample_deps) [profile_tx 1 10, profile_tx 2 20] registry_new)))
   = hm_get (profiles (fst (apply_profiles (profile_json sample_deps) [profile_tx 2 20, profile_tx 1 10] registry_new)))"
proof -
  have "tx_id (profile_tx 1 10) \<noteq> tx_id (profile_tx 2 20)" by (simp add: profile_tx_def)
  then show ?thesis by (intro profiles_order_independent) simp_all
qed

text \<open>After applying a batch, every address for which a valid record was sent has a profile whose
  order key (accepting DAA score, then transaction id) is at least that record's, and it is the
  stored one or one of the batch's own records: the newest record wins and none is invented.\<close>

theorem newest_profile_kept:
  assumes "t \<in> set ts" and "profile_record fj t = Some (a, json, ord)"
  shows "\<exists>json' ord'. hm_get (profiles (fst (apply_profiles fj ts r))) a = Some (json', ord') \<and>
    ord \<le> ord' \<and>
    (hm_get (profiles r) a = Some (json', ord') \<or>
     (\<exists>t' \<in> set ts. profile_record fj t' = Some (a, json', ord')))"
proof -
  let ?m = "fold (post_profile fj) ts (hm_get (profiles r))"
  have "at_least ord (?m a)" using profile_kept [OF assms] by simp
  then obtain e where e: "?m a = Some e" "ord \<le> snd e"
    by (auto simp: at_least_def split: option.splits)
  then show ?thesis using profile_from_record [OF e(1)]
    by (cases e) (auto simp: apply_profiles_post)
qed

lemma sample_profile_record:
  "profile_record (profile_json sample_deps) (profile_tx i daa) =
     Some ([0x20, 0xac], ascii ''{}'', daa, replicate 32 i)"
proof -
  have p: "payload (profile_tx i daa) = ascii ''kchat:1:profile:'' @ ascii ''{}''"
    by (simp add: profile_tx_def ascii_def)
  have "\<forall>b \<in> set (ascii ''kchat:1:profile:'' @ ascii ''{}''). b < 0x80" by (simp add: ascii_def)
  then have "from_utf8 (payload (profile_tx i daa)) = Some (ascii ''kchat:1:profile:'' @ ascii ''{}'')"
    unfolding p from_utf8_def by (simp only: ascii_utf8_valid if_True)
  then show ?thesis
    by (simp add: profile_record_def, simp add: profile_tx_def first_def get_at_def plain_output_def
        parse_profile_def max_profile_bytes_def sample_deps_def)
qed

theorem newest_profile_kept_witness:
  "\<exists>json' ord'. hm_get (profiles (fst (apply_profiles (profile_json sample_deps)
       [profile_tx 2 20, profile_tx 1 10] registry_new))) [0x20, 0xac] = Some (json', ord') \<and>
     (20, replicate 32 2) \<le> ord'"
proof -
  have "profile_tx 2 20 \<in> set [profile_tx 2 20, profile_tx 1 10]" by simp
  from newest_profile_kept [OF this sample_profile_record, of registry_new] show ?thesis by blast
qed

text \<open>A parsed profile holds nothing the allowlists do not permit: the record is at most 2048
  bytes, each picture link starts with a platform prefix of its field and has a path after it (so
  its platform is known), the link page is on Linktree, and a primary name is a valid name.\<close>

theorem profile_allowlisted:
  assumes "parse_profile fj json = Some p"
  shows "length json \<le> 2048 \<and>
    (\<forall>u. avatar p = Some u \<or> banner p = Some u \<or> bio p = Some u \<longrightarrow>
       allowed u avatar_hosts \<and> platform_of u \<noteq> None) \<and>
    (\<forall>u. banner p = Some u \<longrightarrow> allowed u banner_hosts) \<and>
    (\<forall>u. bio p = Some u \<longrightarrow> allowed u bio_hosts) \<and>
    (\<forall>u. linktree p = Some u \<longrightarrow> starts_with linktree_prefix u \<and> length u > 18) \<and>
    (\<forall>n. primary_name p = Some n \<longrightarrow> is_valid_name n)"
proof -
  have "allowed u banner_hosts \<Longrightarrow> allowed u avatar_hosts" "allowed u bio_hosts \<Longrightarrow> allowed u avatar_hosts" for u
    using allowed_mono hosts_nested by blast+
  moreover have "length linktree_prefix = 18" by (simp add: linktree_prefix_def)
  ultimately show ?thesis
    using assms allowed_platform
    by (auto simp: parse_profile_def max_profile_bytes_def split: if_splits option.splits)
qed

theorem profile_allowlisted_witness:
  "\<exists>p :: profile. avatar p = Some (host_github @ ascii ''kaspa'') \<and> allowed (host_github @ ascii ''kaspa'') avatar_hosts \<and>
     platform_of (host_github @ ascii ''kaspa'') \<noteq> None"
proof -
  let ?u = "host_github @ ascii ''kaspa''"
  let ?fj = "\<lambda>_ :: bytes. Some \<lparr>raw_v = Some 1, raw_avatar = Some ?u, raw_banner = Some ?u, raw_bio = None,
       raw_linktree = None, raw_primary_name = Some []\<rparr>"
  have "allowed ?u avatar_hosts"
    by (auto simp: allowed_def avatar_hosts_def starts_with_def host_github_def)
  then obtain p where "parse_profile ?fj (ascii ''{}'') = Some p" "avatar p = Some ?u"
    by (auto simp: parse_profile_def max_profile_bytes_def option_filter_def)
  then show ?thesis using profile_allowlisted [of ?fj "ascii ''{}''" p] by (intro exI [of _ p]) auto
qed

section \<open>The undo journal\<close>

text \<open>Pruning keeps the newest entries and no more than asked, and it does not change what undoing
  a block restores as long as every entry of that block is among those kept.\<close>

theorem prune_keeps_recent_undo:
  assumes "\<forall>e \<in> set (take (length (journal r) - keep) (journal r)). ue_block e \<noteq> b"
  shows "journal_len (prune_journal keep r) = min keep (journal_len r) \<and>
    hm_get (utxos (undo_block b (prune_journal keep r))) = hm_get (utxos (undo_block b r)) \<and>
    hm_get (profiles (undo_block b (prune_journal keep r))) = hm_get (profiles (undo_block b r))"
  using prune_keeps_undo [OF assms]
  by (simp add: names_view_def journal_len_def prune_journal_drop)

definition old_entry :: "u8 \<Rightarrow> undo_entry" where
  "old_entry i = \<lparr>ue_block = [i], ue_added = [(replicate 32 i, 0)], ue_removed = [], ue_profile = None\<rparr>"

theorem prune_keeps_recent_undo_witness:
  "hm_get (utxos (undo_block [3] (prune_journal 2 (registry_new\<lparr>journal := [old_entry 1, old_entry 2, old_entry 3]\<rparr>))))
   = hm_get (utxos (undo_block [3] (registry_new\<lparr>journal := [old_entry 1, old_entry 2, old_entry 3]\<rparr>)))"
  using prune_keeps_recent_undo [of "registry_new\<lparr>journal := [old_entry 1, old_entry 2, old_entry 3]\<rparr>" 2 "[3]"]
  by (simp add: old_entry_def)

section \<open>Codecs and transitions\<close>


definition sample_price :: price_state where
  "sample_price = \<lparr>p_shard = 2, p_authority = replicate 32 4, p_prices = [100, 50, 20, 10, 1]\<rparr>"

definition sample_name :: name_state where
  "sample_name = \<lparr>n_key = replicate 32 1, n_name = pad_name (ascii ''bob''), n_owner = sample_owner,
     n_price = 0, n_period_start = 1000, n_expires_at = 2000\<rparr>"


text \<open>Decoding accepts only the fixed layouts and yields only well-formed states: the input has the
  width of the state's kind, and encoding the decoded state gives bytes of that width that decode
  to it again.\<close>

theorem states_decode_sound:
  assumes "gap_decode bg = Some g" and "name_decode bn = Some n"
    and "offer_decode bo = Some x" and "price_decode bp = Some p"
  shows "length bg = 66 \<and> gap_ok g \<and> gap_decode (gap_encode g) = Some g \<and>
    length bn = 126 \<and> name_ok n \<and> name_decode (name_encode n) = Some n \<and>
    length bo = (if o_seller x = None then 75 else 108) \<and> offer_ok x \<and>
    offer_decode (offer_encode x) = Some x \<and>
    length bp = 87 \<and> price_ok p \<and> price_decode (price_encode p) = Some p"
  using assms gapc.dec_width gapc.dec_ok gapc.dec_canonical namec.dec_width namec.dec_ok
    namec.dec_canonical offerc.dec_width offerc.dec_ok offerc.dec_canonical pricec.dec_width
    pricec.dec_ok pricec.dec_canonical
  by (simp add: offer_width_def)

theorem states_decode_sound_witness:
  "price_ok sample_price \<and> offer_ok sample_offer \<and> length (price_encode sample_price) = 87"
proof -
  have ok: "gap_ok sample_gap" "name_ok sample_name" "offer_ok sample_offer" "price_ok sample_price"
    by (simp_all add: gap_ok_def name_ok_def offer_ok_def price_ok_def is32_def sample_gap_def
        sample_name_def sample_offer_def sample_price_def sample_owner_def i64_min_def)
  from states_decode_sound [OF gapc.dec_enc [OF ok(1)] namec.dec_enc [OF ok(2)]
      offerc.dec_enc [OF ok(3)] pricec.dec_enc [OF ok(4)]] show ?thesis by blast
qed

text \<open>The two integer codecs agree: on eight bytes the state-field decoder is the script-number
  decoder, both give the number the bytes denote (a little-endian magnitude with the sign in the
  top bit), and the state-field encoder is inverted on every integer except the least one.\<close>

theorem integer_codecs_agree:
  assumes "length b = 8" and "v \<noteq> i64_min"
  shows "num8_decode b = decode_script_number b \<and> sint (decode_script_number b) = script_value b \<and>
    num8_decode (num8_encode v) = v \<and> script_value (num8_encode v) = sint v"
proof -
  have "script_value (num8_encode v) = sint v"
    using num8_decode_value [of "num8_encode v"] num8_roundtrip [OF assms(2)] by simp
  then show ?thesis
    using assms num8_decode_is_script_number [of b] decode_script_number_value [of b]
    by (simp add: num8_roundtrip)
qed

theorem integer_codecs_agree_witness:
  "num8_decode [1, 2, 0, 0, 0, 0, 0, 0x80] = decode_script_number [1, 2, 0, 0, 0, 0, 0, 0x80] \<and>
   script_value (num8_encode (- 513)) = - 513"
proof -
  have "(- 513 :: i64) \<noteq> i64_min" "sint (- 513 :: i64) = - 513" by (simp_all add: i64_min_def)
  with integer_codecs_agree [of "[1, 2, 0, 0, 0, 0, 0, 0x80]" "- 513"] show ?thesis by simp
qed

text \<open>A signature script built from minimal pushes of the arguments, the four-byte dispatch tag and
  the redeem script is decoded to exactly those, for arguments of every size the two-byte push
  length covers.\<close>

theorem sig_script_roundtrip:
  assumes "\<forall>d \<in> set as. length d < 65536" and "length tag = 4"
    and "script \<noteq> []" and "length script < 65536"
  shows "decode_sig_script (sig_script_of as tag script) =
    Some \<lparr>args = map push_of as, dispatch_tag = tag, redeem = script\<rparr>"
  using assms by (rule decode_sig_script_of)

theorem sig_script_roundtrip_witness:
  "decode_sig_script (sig_script_of [[], replicate 300 7] [1, 2, 3, 4] [0x6b]) =
    Some \<lparr>args = [Num 0, Data (replicate 300 7)], dispatch_tag = [1, 2, 3, 4], redeem = [0x6b]\<rparr>"
proof -
  have "decode_sig_script (sig_script_of [[], replicate 300 7] [1, 2, 3, 4] [0x6b]) =
      Some \<lparr>args = map push_of [[], replicate 300 7], dispatch_tag = [1, 2, 3, 4], redeem = [0x6b]\<rparr>"
    by (rule sig_script_roundtrip) simp_all
  then show ?thesis by (simp add: push_of_def)
qed

text \<open>The padded name field of a state is 32 bytes and reads back as the name it was made from, for
  every name the indexer accepts.\<close>

theorem name_field_roundtrip:
  assumes "is_valid_name n"
  shows "length (pad_name n) = 32 \<and> name_str (s\<lparr>n_name := pad_name n\<rparr>) = n"
  using name_str_pad_name [OF assms] by simp

theorem name_field_roundtrip_witness: "name_str sample_name = ascii ''bob''"
proof -
  have "is_valid_name (ascii ''bob'')" by (simp add: is_valid_name_def ascii_def ascii_class_defs)
  from name_field_roundtrip [OF this, of sample_name] show ?thesis by (simp add: sample_name_def)
qed

text \<open>A registration splits its gap at the name's key: the two new gaps meet at the key and merge
  back into the old gap, and when the arithmetic stays inside \<open>i64\<close> the name expires exactly the
  paid number of periods after the registration; a renewal then starts at the old expiry and an
  extension moves only the expiry.\<close>

theorem register_splits_gap:
  assumes "register_with_period c gap name owner now years period = (left, right, nm)"
    and "i64_fits (sint now + sint years * sint period)"
    and "i64_fits (sint (n_expires_at nm) + sint extra * sint period)"
  shows "merge_gaps left right = gap \<and> g_hi left = name_key c name \<and> g_lo right = name_key c name \<and>
    n_key nm = name_key c name \<and> n_owner nm = owner \<and>
    sint (n_expires_at nm) = sint now + sint years * sint period \<and>
    n_period_start (name_renew_with_period nm extra period) = n_expires_at nm \<and>
    n_period_start (name_extend_with_period nm extra period) = now \<and>
    sint (n_expires_at (name_renew_with_period nm extra period)) =
      sint now + (sint years + sint extra) * sint period"
proof -
  have nm: "n_expires_at nm = now + years * period" "n_owner nm = owner" "n_period_start nm = now"
    using assms(1) by (auto simp: register_with_period_def Let_def)
  then have "sint (n_expires_at nm) = sint now + sint years * sint period"
    using sint_add_mult [OF assms(2)] by simp
  then show ?thesis
    using register_merge [OF assms(1)] sint_add_mult [OF assms(3)] nm
    by (simp add: name_renew_with_period_def name_extend_with_period_def algebra_simps)
qed

theorem register_splits_gap_witness:
  "merge_gaps (fst sample_split) (fst (snd sample_split)) = sample_gap \<and>
   sint (n_expires_at (snd (snd sample_split))) = 31536001000"
proof -
  have split: "register_with_period sample_crypto sample_gap (ascii ''bob'') sample_owner 1000 1 year_ms =
      (fst sample_split, fst (snd sample_split), snd (snd sample_split))"
    by (simp add: sample_split_def)
  have "n_expires_at (snd (snd sample_split)) = 31536001000"
    by (simp add: sample_split_def register_with_period_def Let_def year_ms_def)
  then have e: "sint (n_expires_at (snd (snd sample_split))) = 31536001000" by simp
  have "i64_fits (sint (1000 :: i64) + sint (1 :: i64) * sint year_ms)"
    "i64_fits (sint (n_expires_at (snd (snd sample_split))) + sint (1 :: i64) * sint year_ms)"
    by (simp_all add: i64_fits_def year_ms_def e)
  from register_splits_gap [OF split this] e show ?thesis by blast
qed

text \<open>The status of a name at a moment: active strictly before the expiry, in grace from the expiry
  until the grace period has run out, lapsed from then on, whenever the end of grace fits \<open>i64\<close>.\<close>

theorem name_status_phases:
  assumes "i64_fits (sint e + sint g)" and "0 \<le> sint g"
  shows "(name_status_at e g now = Active \<longleftrightarrow> sint now < sint e) \<and>
    (name_status_at e g now = Grace \<longleftrightarrow> sint e \<le> sint now \<and> sint now < sint e + sint g) \<and>
    (name_status_at e g now = Lapsed \<longleftrightarrow> sint e + sint g \<le> sint now)"
  using sint_add_exact [OF assms(1)] assms(2)
  by (auto simp: name_status_at_def word_sless_alt)

theorem name_status_phases_witness:
  "name_status_at 1000 864000000 1001 = Grace \<and> name_status_at 1000 864000000 864001001 = Lapsed"
proof -
  have "i64_fits (sint (1000 :: i64) + sint (864000000 :: i64))" by (simp add: i64_fits_def)
  from name_status_phases [OF this, of 1001] name_status_phases [OF this, of 864001001]
  show ?thesis by simp
qed

end
