(* ===== verification/Protocol.thy ===== *)
theory Protocol
  imports Rust_Std
begin

text \<open>
  \<open>kasia-indexer/protocol/src/operation.rs\<close> and \<open>operation/deserializer.rs\<close>: the sealed chat
  operations and the parser that recognises them in a transaction payload. A slice pattern
  \<open>[b'p', b'a', b'y', b':', rest @ ..]\<close> is the prefix test and split it stands for; the log lines
  of the last arm are left out.
\<close>

section \<open>Operations\<close>

record contextual_message =
  cm_alias :: bytes
  cm_sealed :: bytes
  cm_inbox_tag :: "bytes option"

record self_stash =
  ss_key :: "bytes option"
  ss_sealed :: bytes

record group_message =
  gm_blinded_group_id :: bytes
  gm_epoch :: bytes
  gm_sender_id :: bytes
  gm_sender_pub :: bytes
  gm_msg_id :: bytes
  gm_ciphertext :: bytes
  gm_signature :: bytes
  gm_sealed :: bytes

record group_control =
  gc_recipient_pubkey :: "bytes option"
  gc_payload :: bytes

datatype sealed_operation =
    SealedVNone bytes
  | ContextualMessageV1 contextual_message
  | PaymentV1 bytes
  | SelfStashV1 self_stash
  | SealedHandshakeV2 bytes
  | GroupMessageV1 group_message
  | GroupControlV1 group_control

fun op_type_name :: "sealed_operation \<Rightarrow> string" where
  "op_type_name (SealedVNone _) = ''HandshakeVNone''"
| "op_type_name (ContextualMessageV1 _) = ''ContextualMessageV1''"
| "op_type_name (PaymentV1 _) = ''PaymentV1''"
| "op_type_name (SelfStashV1 _) = ''SelfStashV1''"
| "op_type_name (SealedHandshakeV2 _) = ''HandshakeV2''"
| "op_type_name (GroupMessageV1 _) = ''GroupMessageV1''"
| "op_type_name (GroupControlV1 _) = ''GroupControlV1''"

section \<open>Hexadecimal fields\<close>

definition is_fixed_hex :: "bytes \<Rightarrow> nat \<Rightarrow> bool" where
  "is_fixed_hex v n \<longleftrightarrow> length v = n * 2 \<and> list_all is_ascii_hexdigit v"

definition is_lowercase_hex :: "bytes \<Rightarrow> nat \<Rightarrow> bool" where
  "is_lowercase_hex v n \<longleftrightarrow> length v = n * 2 \<and> list_all (\<lambda>b. is_ascii_digit b \<or> is_lower_af b) v"

definition is_nonempty_lowercase_hex :: "bytes \<Rightarrow> bool" where
  "is_nonempty_lowercase_hex v \<longleftrightarrow>
     v \<noteq> [] \<and> length v mod 2 = 0 \<and> list_all (\<lambda>b. is_ascii_digit b \<or> is_lower_af b) v"

definition is_nonempty_hex :: "bytes \<Rightarrow> bool" where
  "is_nonempty_hex v \<longleftrightarrow> v \<noteq> [] \<and> length v mod 2 = 0 \<and> list_all is_ascii_hexdigit v"

definition is_tip_sealed :: "bytes \<Rightarrow> bool" where
  "is_tip_sealed v \<longleftrightarrow>
     v \<noteq> [] \<and> length v mod 2 = 0 \<and> list_all (\<lambda>b. is_ascii_digit b \<or> is_lower_af b) v"

section \<open>The parser\<close>

definition protocol_prefix :: bytes where
  "protocol_prefix = ascii ''kchat:''"

definition legacy_protocol_prefix :: bytes where
  "legacy_protocol_prefix = ascii ''ciph_msg:''"

definition version_1_part :: bytes where
  "version_1_part = ascii ''1:''"

definition foreign_kachat_ops :: "bytes list" where
  "foreign_kachat_ops = map ascii
     [''post'', ''reply'', ''vote'', ''upvote'', ''downvote'', ''quote'', ''unquote'', ''follow'',
      ''unfollow'', ''block'', ''unblock'', ''edit'', ''delete'', ''poll'', ''pollvote'',
      ''broadcast'', ''bcast'', ''profile'', ''name'', ''offer'', ''prices'', ''tip'']"

definition parse_tip :: "bytes \<Rightarrow> sealed_operation option" where
  "parse_tip remaining =
     (case split_on 58 remaining of
        [pubkey, signature, post_id, author_pubkey, sealed_hex] \<Rightarrow>
          if pubkey = [] \<or> signature = [] \<or> \<not> is_fixed_hex post_id 32
             \<or> \<not> (is_fixed_hex author_pubkey 33 \<or> is_fixed_hex author_pubkey 32)
             \<or> \<not> is_nonempty_lowercase_hex sealed_hex
          then None else Some (PaymentV1 sealed_hex)
      | _ \<Rightarrow> None)"

definition parse_comm :: "bytes \<Rightarrow> sealed_operation option" where
  "parse_comm remaining =
     (case position (\<lambda>b. b = 58) remaining of
        None \<Rightarrow> None
      | Some i \<Rightarrow>
          Some (ContextualMessageV1
            \<lparr>cm_alias = take i remaining, cm_sealed = drop (i + 1) remaining, cm_inbox_tag = None\<rparr>))"

definition parse_dm :: "bytes \<Rightarrow> sealed_operation option" where
  "parse_dm remaining =
     (case position (\<lambda>b. b = 58) remaining of
        None \<Rightarrow> None
      | Some i \<Rightarrow>
          if \<not> is_lowercase_hex (take i remaining) 16 then None
          else let rest = drop (i + 1) remaining
               in case position (\<lambda>b. b = 58) rest of
                    None \<Rightarrow> None
                  | Some j \<Rightarrow>
                      Some (ContextualMessageV1
                        \<lparr>cm_alias = take j rest, cm_sealed = drop (j + 1) rest,
                         cm_inbox_tag = Some (take i remaining)\<rparr>))"

definition parse_self_stash :: "bytes \<Rightarrow> sealed_operation option" where
  "parse_self_stash remaining =
     (case position (\<lambda>b. b = 58) remaining of
        Some i \<Rightarrow> Some (SelfStashV1 \<lparr>ss_key = Some (take i remaining), ss_sealed = drop (i + 1) remaining\<rparr>)
      | None \<Rightarrow> Some (SelfStashV1 \<lparr>ss_key = None, ss_sealed = remaining\<rparr>))"

definition epoch_ok :: "bytes \<Rightarrow> bool" where
  "epoch_ok epoch \<longleftrightarrow>
     epoch \<noteq> [] \<and> list_all is_ascii_digit epoch \<and>
     Option.bind (from_utf8 epoch) parse_u64 \<noteq> None"

definition parse_gcomm :: "bytes \<Rightarrow> sealed_operation option" where
  "parse_gcomm remaining =
     (case split_on 58 remaining of
        [blinded_group_id, epoch, sender_id, sender_pub, msg_id, ciphertext, signature] \<Rightarrow>
          if \<not> is_fixed_hex blinded_group_id 32 \<or> \<not> epoch_ok epoch
             \<or> \<not> is_fixed_hex sender_id 32 \<or> \<not> is_fixed_hex sender_pub 32
             \<or> \<not> is_fixed_hex msg_id 24 \<or> \<not> is_nonempty_hex ciphertext
             \<or> \<not> is_fixed_hex signature 64
          then None
          else Some (GroupMessageV1
            \<lparr>gm_blinded_group_id = blinded_group_id, gm_epoch = epoch, gm_sender_id = sender_id,
             gm_sender_pub = sender_pub, gm_msg_id = msg_id, gm_ciphertext = ciphertext,
             gm_signature = signature, gm_sealed = remaining\<rparr>)
      | _ \<Rightarrow> None)"

definition parse_gctl :: "bytes \<Rightarrow> sealed_operation option" where
  "parse_gctl remaining =
     (case split_on 58 remaining of
        [encrypted_payload] \<Rightarrow>
          if is_nonempty_hex encrypted_payload
          then Some (GroupControlV1 \<lparr>gc_recipient_pubkey = None, gc_payload = encrypted_payload\<rparr>)
          else None
      | [recipient_pubkey, encrypted_payload] \<Rightarrow>
          if is_fixed_hex recipient_pubkey 32 \<and> is_nonempty_hex encrypted_payload
          then Some (GroupControlV1
                 \<lparr>gc_recipient_pubkey = Some recipient_pubkey, gc_payload = encrypted_payload\<rparr>)
          else None
      | _ \<Rightarrow> None)"

text \<open>The arms of the match on what follows \<open>1:\<close>, in the order of the source.\<close>

definition parse_v1 :: "bool \<Rightarrow> bytes \<Rightarrow> sealed_operation option" where
  "parse_v1 is_kchat s =
     (case strip_prefix (ascii ''pay:'') s of Some r \<Rightarrow> Some (PaymentV1 r) | None \<Rightarrow>
     (case strip_prefix (ascii ''payment:'') s of Some r \<Rightarrow> Some (PaymentV1 r) | None \<Rightarrow>
     (case (if is_kchat then strip_prefix (ascii ''tip:'') s else None) of
        Some r \<Rightarrow> parse_tip r | None \<Rightarrow>
     (case strip_prefix (ascii ''handshake:'') s of Some r \<Rightarrow> Some (SealedHandshakeV2 r) | None \<Rightarrow>
     (case strip_prefix (ascii ''comm:'') s of Some r \<Rightarrow> parse_comm r | None \<Rightarrow>
     (case strip_prefix (ascii ''dm:'') s of Some r \<Rightarrow> parse_dm r | None \<Rightarrow>
     (case strip_prefix (ascii ''self_stash:'') s of Some r \<Rightarrow> parse_self_stash r | None \<Rightarrow>
     (case strip_prefix (ascii ''gcomm:'') s of Some r \<Rightarrow> parse_gcomm r | None \<Rightarrow>
     (case strip_prefix (ascii ''gctl:'') s of Some r \<Rightarrow> parse_gctl r | None \<Rightarrow>
        None)))))))))"

definition parse_sealed_operation :: "bytes \<Rightarrow> sealed_operation option" where
  "parse_sealed_operation payload =
     (let is_kchat = starts_with protocol_prefix payload
      in case (case strip_prefix protocol_prefix payload of
                 Some r \<Rightarrow> Some r | None \<Rightarrow> strip_prefix legacy_protocol_prefix payload) of
           None \<Rightarrow> None
         | Some r \<Rightarrow>
             if r = [] then None
             else (case strip_prefix version_1_part r of
                     None \<Rightarrow> Some (SealedVNone r)
                   | Some s \<Rightarrow> parse_v1 is_kchat s))"

section \<open>Printing\<close>

text \<open>The bytes after the protocol prefix that stand for an operation.\<close>

fun op_body :: "sealed_operation \<Rightarrow> bytes" where
  "op_body (SealedVNone s) = s"
| "op_body (ContextualMessageV1 m) =
     (case cm_inbox_tag m of
        None \<Rightarrow> version_1_part @ ascii ''comm:'' @ cm_alias m @ 58 # cm_sealed m
      | Some tag \<Rightarrow> version_1_part @ ascii ''dm:'' @ tag @ 58 # cm_alias m @ 58 # cm_sealed m)"
| "op_body (PaymentV1 s) = version_1_part @ ascii ''pay:'' @ s"
| "op_body (SelfStashV1 m) =
     version_1_part @ ascii ''self_stash:'' @ (case ss_key m of None \<Rightarrow> ss_sealed m | Some k \<Rightarrow> k @ 58 # ss_sealed m)"
| "op_body (SealedHandshakeV2 s) = version_1_part @ ascii ''handshake:'' @ s"
| "op_body (GroupMessageV1 m) = version_1_part @ ascii ''gcomm:'' @ gm_sealed m"
| "op_body (GroupControlV1 m) =
     version_1_part @ ascii ''gctl:'' @ (case gc_recipient_pubkey m of
       None \<Rightarrow> gc_payload m | Some k \<Rightarrow> k @ 58 # gc_payload m)"

text \<open>The operations the grammar can express.\<close>

definition group_ok :: "group_message \<Rightarrow> bool" where
  "group_ok m \<longleftrightarrow>
     is_fixed_hex (gm_blinded_group_id m) 32 \<and> epoch_ok (gm_epoch m) \<and>
     is_fixed_hex (gm_sender_id m) 32 \<and> is_fixed_hex (gm_sender_pub m) 32 \<and>
     is_fixed_hex (gm_msg_id m) 24 \<and> is_nonempty_hex (gm_ciphertext m) \<and>
     is_fixed_hex (gm_signature m) 64 \<and>
     gm_sealed m = join_with 58 [gm_blinded_group_id m, gm_epoch m, gm_sender_id m, gm_sender_pub m,
       gm_msg_id m, gm_ciphertext m, gm_signature m]"

fun op_ok :: "sealed_operation \<Rightarrow> bool" where
  "op_ok (SealedVNone s) \<longleftrightarrow> s \<noteq> [] \<and> \<not> starts_with version_1_part s"
| "op_ok (ContextualMessageV1 m) \<longleftrightarrow>
     58 \<notin> set (cm_alias m) \<and> (\<forall>tag. cm_inbox_tag m = Some tag \<longrightarrow> is_lowercase_hex tag 16)"
| "op_ok (PaymentV1 s) \<longleftrightarrow> True"
| "op_ok (SelfStashV1 m) \<longleftrightarrow>
     (case ss_key m of None \<Rightarrow> 58 \<notin> set (ss_sealed m) | Some k \<Rightarrow> 58 \<notin> set k)"
| "op_ok (SealedHandshakeV2 s) \<longleftrightarrow> True"
| "op_ok (GroupMessageV1 m) \<longleftrightarrow> group_ok m"
| "op_ok (GroupControlV1 m) \<longleftrightarrow>
     is_nonempty_hex (gc_payload m) \<and> pred_option (\<lambda>k. is_fixed_hex k 32) (gc_recipient_pubkey m)"

section \<open>Prefixes\<close>

text \<open>A literal is a prefix of a literal followed by anything only if one extends the other.\<close>

lemma strip_literal:
  assumes "length p \<le> length q"
  shows "strip_prefix (ascii p) (ascii q @ r) =
    (if take (length p) q = p then Some (ascii (drop (length p) q) @ r) else None)"
proof -
  have "take (length p) (ascii q) = ascii (take (length p) q)"
    "drop (length p) (ascii q) = ascii (drop (length p) q)"
    by (simp_all add: ascii_def take_map drop_map)
  then show ?thesis using assms by (simp add: strip_prefix_def)
qed

text \<open>A longer literal is no prefix when the shorter one already disagrees with it.\<close>

lemma strip_literal_longer:
  assumes "length q \<le> length p" and "take (length q) p \<noteq> q"
  shows "strip_prefix (ascii p) (ascii q @ r) = None"
proof (rule ccontr)
  assume "strip_prefix (ascii p) (ascii q @ r) \<noteq> None"
  then obtain y where "ascii q @ r = ascii p @ y" by (auto simp: strip_prefix_eq_Some)
  then have "take (length q) (ascii p) = ascii q" using assms(1) by (metis append_eq_append_conv_if length_ascii)
  then have "ascii (take (length q) p) = ascii q" by (simp add: ascii_def take_map)
  with assms(2) show False by simp
qed

text \<open>Hexadecimal and decimal text has no separator.\<close>

lemma hex_no_sep: "is_ascii_hexdigit b \<Longrightarrow> b \<noteq> 58" "is_ascii_digit b \<Longrightarrow> b \<noteq> 58" "is_lower_af b \<Longrightarrow> b \<noteq> 58"
  by (auto simp: ascii_class_defs)

lemma fixed_hex_no_sep [simp]: "is_fixed_hex v n \<Longrightarrow> 58 \<notin> set v"
  by (auto simp: is_fixed_hex_def list_all_iff dest: hex_no_sep)

lemma nonempty_hex_no_sep [simp]: "is_nonempty_hex v \<Longrightarrow> 58 \<notin> set v"
  by (auto simp: is_nonempty_hex_def list_all_iff dest: hex_no_sep)

lemma lowercase_hex_no_sep [simp]: "is_lowercase_hex v n \<Longrightarrow> 58 \<notin> set v"
  by (auto simp: is_lowercase_hex_def list_all_iff dest: hex_no_sep)

lemma epoch_no_sep [simp]: "epoch_ok v \<Longrightarrow> 58 \<notin> set v"
  by (auto simp: epoch_ok_def list_all_iff dest: hex_no_sep)

section \<open>The arms\<close>

lemmas strip_literals = strip_literal strip_literal_longer

lemma parse_v1_arms:
  "parse_v1 k (ascii ''pay:'' @ r) = Some (PaymentV1 r)"
  "parse_v1 k (ascii ''payment:'' @ r) = Some (PaymentV1 r)"
  "parse_v1 True (ascii ''tip:'' @ r) = parse_tip r"
  "parse_v1 False (ascii ''tip:'' @ r) = None"
  "parse_v1 k (ascii ''handshake:'' @ r) = Some (SealedHandshakeV2 r)"
  "parse_v1 k (ascii ''comm:'' @ r) = parse_comm r"
  "parse_v1 k (ascii ''dm:'' @ r) = parse_dm r"
  "parse_v1 k (ascii ''self_stash:'' @ r) = parse_self_stash r"
  "parse_v1 k (ascii ''gcomm:'' @ r) = parse_gcomm r"
  "parse_v1 k (ascii ''gctl:'' @ r) = parse_gctl r"
  by (simp_all add: parse_v1_def strip_literals)

lemma parse_sealed_prefix:
  "parse_sealed_operation (protocol_prefix @ r) =
     (if r = [] then None
      else case strip_prefix version_1_part r of None \<Rightarrow> Some (SealedVNone r) | Some s \<Rightarrow> parse_v1 True s)"
  "parse_sealed_operation (legacy_protocol_prefix @ r) =
     (if r = [] then None
      else case strip_prefix version_1_part r of None \<Rightarrow> Some (SealedVNone r) | Some s \<Rightarrow> parse_v1 False s)"
proof -
  have "strip_prefix protocol_prefix (legacy_protocol_prefix @ r) = None"
    by (simp add: protocol_prefix_def legacy_protocol_prefix_def strip_literals)
  then show "parse_sealed_operation (legacy_protocol_prefix @ r) =
     (if r = [] then None
      else case strip_prefix version_1_part r of None \<Rightarrow> Some (SealedVNone r) | Some s \<Rightarrow> parse_v1 False s)"
    by (simp add: parse_sealed_operation_def starts_with_def strip_prefix_def split: if_splits)
qed (simp add: parse_sealed_operation_def starts_with_def)

lemma parse_sealed_cases:
  assumes "parse_sealed_operation p = Some x"
  obtains r k where "p = (if k then protocol_prefix else legacy_protocol_prefix) @ r" "r \<noteq> []"
    "strip_prefix version_1_part r = None" "x = SealedVNone r"
  | s k where "p = (if k then protocol_prefix else legacy_protocol_prefix) @ version_1_part @ s"
    "parse_v1 k s = Some x"
proof -
  obtain r k where p: "p = (if k then protocol_prefix else legacy_protocol_prefix) @ r"
  proof (cases "strip_prefix protocol_prefix p")
    case None
    with assms obtain r where "p = legacy_protocol_prefix @ r"
      by (auto simp: parse_sealed_operation_def strip_prefix_eq_Some Let_def split: option.splits)
    then show ?thesis using that [of False r] by simp
  next
    case (Some r)
    then show ?thesis using that [of True r] by (simp add: strip_prefix_eq_Some)
  qed
  then have "r \<noteq> [] \<and> (case strip_prefix version_1_part r of
      None \<Rightarrow> x = SealedVNone r | Some s \<Rightarrow> parse_v1 k s = Some x)"
    using assms by (cases k) (auto simp: parse_sealed_prefix split: if_splits option.splits)
  then show ?thesis
    using that p by (cases "strip_prefix version_1_part r") (auto simp: strip_prefix_eq_Some)
qed

text \<open>Which arm produced an operation, and from what.\<close>

lemma parse_v1_Some:
  assumes "parse_v1 k s = Some x"
  obtains (pay) r where "s = ascii ''pay:'' @ r" "x = PaymentV1 r"
  | (payment) r where "s = ascii ''payment:'' @ r" "x = PaymentV1 r"
  | (tip) r where "k" "s = ascii ''tip:'' @ r" "parse_tip r = Some x"
  | (handshake) r where "s = ascii ''handshake:'' @ r" "x = SealedHandshakeV2 r"
  | (comm) r where "s = ascii ''comm:'' @ r" "parse_comm r = Some x"
  | (dm) r where "s = ascii ''dm:'' @ r" "parse_dm r = Some x"
  | (self_stash) r where "s = ascii ''self_stash:'' @ r" "parse_self_stash r = Some x"
  | (gcomm) r where "s = ascii ''gcomm:'' @ r" "parse_gcomm r = Some x"
  | (gctl) r where "s = ascii ''gctl:'' @ r" "parse_gctl r = Some x"
  using assms
  by (auto simp: parse_v1_def strip_prefix_eq_Some split: option.splits if_splits)

section \<open>Every arm is lossless\<close>

lemma take_drop_sep:
  assumes "position (\<lambda>b. b = c) xs = Some i"
  shows "xs = take i xs @ c # drop (i + 1) xs" and "c \<notin> set (take i xs)"
  using position_SomeD [OF assms] id_take_nth_drop [of i xs] by auto

lemma position_sep: "c \<notin> set a \<Longrightarrow> position (\<lambda>b. b = c) (a @ c # r) = Some (length a)"
  by (rule position_append_hit) auto

lemma parse_comm_iff:
  "parse_comm r = Some x \<longleftrightarrow>
     (\<exists>a s. 58 \<notin> set a \<and> r = a @ 58 # s \<and>
        x = ContextualMessageV1 \<lparr>cm_alias = a, cm_sealed = s, cm_inbox_tag = None\<rparr>)"
proof
  assume "parse_comm r = Some x"
  then show "\<exists>a s. 58 \<notin> set a \<and> r = a @ 58 # s \<and>
        x = ContextualMessageV1 \<lparr>cm_alias = a, cm_sealed = s, cm_inbox_tag = None\<rparr>"
    using take_drop_sep [of 58 r]
    by (auto simp: parse_comm_def split: option.splits)
qed (auto simp: parse_comm_def position_sep)

lemma parse_dm_iff:
  "parse_dm r = Some x \<longleftrightarrow>
     (\<exists>tag a s. is_lowercase_hex tag 16 \<and> 58 \<notin> set a \<and> r = tag @ 58 # a @ 58 # s \<and>
        x = ContextualMessageV1 \<lparr>cm_alias = a, cm_sealed = s, cm_inbox_tag = Some tag\<rparr>)"
proof
  assume "parse_dm r = Some x"
  then obtain i j where i: "position (\<lambda>b. b = 58) r = Some i" "is_lowercase_hex (take i r) 16"
    and j: "position (\<lambda>b. b = 58) (drop (i + 1) r) = Some j"
    and x: "x = ContextualMessageV1 \<lparr>cm_alias = take j (drop (i + 1) r),
        cm_sealed = drop (j + 1) (drop (i + 1) r), cm_inbox_tag = Some (take i r)\<rparr>"
    by (auto simp: parse_dm_def Let_def split: option.splits if_splits)
  from take_drop_sep [OF i(1)] take_drop_sep [OF j] i(2) x
  show "\<exists>tag a s. is_lowercase_hex tag 16 \<and> 58 \<notin> set a \<and> r = tag @ 58 # a @ 58 # s \<and>
        x = ContextualMessageV1 \<lparr>cm_alias = a, cm_sealed = s, cm_inbox_tag = Some tag\<rparr>"
    by metis
qed (auto simp: parse_dm_def position_sep)

lemma parse_self_stash_iff:
  "parse_self_stash r = Some x \<longleftrightarrow>
     (\<exists>k s. 58 \<notin> set k \<and> r = k @ 58 # s \<and> x = SelfStashV1 \<lparr>ss_key = Some k, ss_sealed = s\<rparr>) \<or>
     58 \<notin> set r \<and> x = SelfStashV1 \<lparr>ss_key = None, ss_sealed = r\<rparr>"
proof (cases "position (\<lambda>b. b = 58) r")
  case None
  then have "58 \<notin> set r" using position_None [of "\<lambda>b. b = 58" r] by blast
  with None show ?thesis by (auto simp: parse_self_stash_def)
next
  case (Some i)
  show ?thesis
  proof
    assume "parse_self_stash r = Some x"
    then have "x = SelfStashV1 \<lparr>ss_key = Some (take i r), ss_sealed = drop (i + 1) r\<rparr>"
      by (simp add: parse_self_stash_def Some)
    then show "(\<exists>k s. 58 \<notin> set k \<and> r = k @ 58 # s \<and> x = SelfStashV1 \<lparr>ss_key = Some k, ss_sealed = s\<rparr>) \<or>
     58 \<notin> set r \<and> x = SelfStashV1 \<lparr>ss_key = None, ss_sealed = r\<rparr>"
      using take_drop_sep [OF Some] by metis
  next
    assume "(\<exists>k s. 58 \<notin> set k \<and> r = k @ 58 # s \<and> x = SelfStashV1 \<lparr>ss_key = Some k, ss_sealed = s\<rparr>) \<or>
     58 \<notin> set r \<and> x = SelfStashV1 \<lparr>ss_key = None, ss_sealed = r\<rparr>"
    then show "parse_self_stash r = Some x"
      using Some position_None [of "\<lambda>b. b = 58" r]
      by (auto simp: parse_self_stash_def position_sep simp del: option.case_eq_if)
  qed
qed

lemma parse_gcomm_iff:
  "parse_gcomm r = Some x \<longleftrightarrow> (\<exists>m. x = GroupMessageV1 m \<and> group_ok m \<and> gm_sealed m = r)"
proof
  assume "parse_gcomm r = Some x"
  moreover have "join_with 58 (split_on 58 r) = r" by (rule join_split_on)
  ultimately show "\<exists>m. x = GroupMessageV1 m \<and> group_ok m \<and> gm_sealed m = r"
    by (auto simp: parse_gcomm_def group_ok_def split: list.splits if_splits)
next
  assume "\<exists>m. x = GroupMessageV1 m \<and> group_ok m \<and> gm_sealed m = r"
  then obtain m where m: "x = GroupMessageV1 m" "group_ok m" "gm_sealed m = r" by blast
  let ?fs = "[gm_blinded_group_id m, gm_epoch m, gm_sender_id m, gm_sender_pub m, gm_msg_id m,
     gm_ciphertext m, gm_signature m]"
  have "split_on 58 r = ?fs"
    using m(2,3) split_join_with [of ?fs 58] by (auto simp: group_ok_def simp del: join_with.simps)
  with m show "parse_gcomm r = Some x" by (simp add: parse_gcomm_def group_ok_def)
qed

lemma parse_gctl_iff:
  "parse_gctl r = Some x \<longleftrightarrow>
     (\<exists>m. x = GroupControlV1 m \<and> op_ok x \<and>
        r = (case gc_recipient_pubkey m of None \<Rightarrow> gc_payload m | Some k \<Rightarrow> k @ 58 # gc_payload m))"
proof
  assume "parse_gctl r = Some x"
  moreover have "join_with 58 (split_on 58 r) = r" by (rule join_split_on)
  ultimately show "\<exists>m. x = GroupControlV1 m \<and> op_ok x \<and>
        r = (case gc_recipient_pubkey m of None \<Rightarrow> gc_payload m | Some k \<Rightarrow> k @ 58 # gc_payload m)"
    by (auto simp: parse_gctl_def split: list.splits if_splits)
next
  assume "\<exists>m. x = GroupControlV1 m \<and> op_ok x \<and>
        r = (case gc_recipient_pubkey m of None \<Rightarrow> gc_payload m | Some k \<Rightarrow> k @ 58 # gc_payload m)"
  then show "parse_gctl r = Some x"
    by (auto simp: parse_gctl_def split_on_append split_on_no_sep split: option.splits)
qed

lemma parse_tip_iff:
  "parse_tip r = Some x \<longleftrightarrow>
     (\<exists>pk sg post author s. x = PaymentV1 s \<and> split_on 58 r = [pk, sg, post, author, s] \<and>
        pk \<noteq> [] \<and> sg \<noteq> [] \<and> is_fixed_hex post 32 \<and>
        (is_fixed_hex author 33 \<or> is_fixed_hex author 32) \<and> is_tip_sealed s)"
  by (auto simp: parse_tip_def is_nonempty_lowercase_hex_def is_tip_sealed_def split: list.splits)

text \<open>Whatever is parsed is well formed, and printed back unless it is a payment.\<close>

lemma parse_facts:
  assumes "parse_sealed_operation p = Some x"
  shows "op_ok x" and "op_type_name x \<noteq> ''PaymentV1'' \<Longrightarrow>
    p = protocol_prefix @ op_body x \<or> p = legacy_protocol_prefix @ op_body x"
proof -
  have "op_ok x \<and> (op_type_name x \<noteq> ''PaymentV1'' \<longrightarrow>
    p = protocol_prefix @ op_body x \<or> p = legacy_protocol_prefix @ op_body x)"
  proof (cases rule: parse_sealed_cases [OF assms])
    case (1 r k)
    then show ?thesis by (cases k) (auto simp: starts_with_def strip_prefix_def split: if_splits)
  next
    case (2 s k)
    have "op_ok x \<and> (op_type_name x \<noteq> ''PaymentV1'' \<longrightarrow> op_body x = version_1_part @ s)"
      using 2(2)
      by (cases rule: parse_v1_Some)
        (auto simp: version_1_part_def parse_comm_iff parse_dm_iff parse_self_stash_iff
          parse_gcomm_iff parse_gctl_iff parse_tip_iff ascii_def split: option.splits)
    then show ?thesis using 2(1) by (cases k) simp_all
  qed
  then show "op_ok x" "op_type_name x \<noteq> ''PaymentV1'' \<Longrightarrow>
    p = protocol_prefix @ op_body x \<or> p = legacy_protocol_prefix @ op_body x" by blast+
qed

section \<open>Properties\<close>

text \<open>C16: Parsing loses nothing: whatever operation other than a payment is read from a payload, the
  operation is well formed and the payload is, byte for byte, one of the two protocol prefixes
  followed by the printed operation.\<close>

theorem parse_is_lossless:
  assumes "parse_sealed_operation p = Some x" and "op_type_name x \<noteq> ''PaymentV1''"
  shows "op_ok x \<and> (p = protocol_prefix @ op_body x \<or> p = legacy_protocol_prefix @ op_body x)"
  using parse_facts [OF assms(1)] assms(2) by blast

definition sample_comm :: bytes where
  "sample_comm = ascii ''ciph_msg:1:comm:alias123:abc123''"

definition sample_message :: contextual_message where
  "sample_message = \<lparr>cm_alias = ascii ''alias123'', cm_sealed = ascii ''abc123'', cm_inbox_tag = None\<rparr>"

lemma sample_comm_parses: "parse_sealed_operation sample_comm = Some (ContextualMessageV1 sample_message)"
proof -
  have eq: "sample_comm = legacy_protocol_prefix @ version_1_part @ ascii ''comm:'' @ ascii ''alias123:abc123''"
    by (simp add: sample_comm_def legacy_protocol_prefix_def version_1_part_def ascii_def)
  have "parse_comm (ascii ''alias123:abc123'') = Some (ContextualMessageV1 sample_message)"
    by (simp add: parse_comm_def ascii_def sample_message_def)
  then show ?thesis unfolding eq by (simp add: parse_sealed_prefix parse_v1_arms)
qed

theorem parse_is_lossless_witness:
  "sample_comm = legacy_protocol_prefix @ op_body (ContextualMessageV1 sample_message)"
proof -
  have "sample_comm = protocol_prefix @ op_body (ContextualMessageV1 sample_message) \<or>
      sample_comm = legacy_protocol_prefix @ op_body (ContextualMessageV1 sample_message)"
    using parse_is_lossless [OF sample_comm_parses] by simp
  moreover have "sample_comm \<noteq> protocol_prefix @ op_body (ContextualMessageV1 sample_message)"
    by (simp add: sample_comm_def protocol_prefix_def ascii_def)
  ultimately show ?thesis by blast
qed

text \<open>C17: Every well-formed operation, written under the current or the legacy prefix, is parsed back to
  itself.\<close>

theorem print_then_parse:
  assumes "op_ok x"
  shows "parse_sealed_operation (protocol_prefix @ op_body x) = Some x \<and>
         parse_sealed_operation (legacy_protocol_prefix @ op_body x) = Some x"
proof -
  have body: "(\<exists>r. op_body x = r \<and> r \<noteq> [] \<and> strip_prefix version_1_part r = None \<and> x = SealedVNone r) \<or>
      (\<exists>s. op_body x = version_1_part @ s \<and> (\<forall>k. parse_v1 k s = Some x))"
  proof (cases x)
    case (SealedVNone s)
    then show ?thesis using assms by (simp add: starts_with_def strip_prefix_def)
  next
    case (ContextualMessageV1 m)
    have "parse_v1 k (ascii ''comm:'' @ cm_alias m @ 58 # cm_sealed m) = Some x" if "cm_inbox_tag m = None" for k
      using that assms ContextualMessageV1 by (cases m) (auto simp: parse_v1_arms parse_comm_iff)
    moreover have "parse_v1 k (ascii ''dm:'' @ t @ 58 # cm_alias m @ 58 # cm_sealed m) = Some x"
      if "cm_inbox_tag m = Some t" for k t
      using that assms ContextualMessageV1 by (cases m) (auto simp: parse_v1_arms parse_dm_iff)
    ultimately show ?thesis
      using ContextualMessageV1
      by (cases "cm_inbox_tag m") (auto simp: version_1_part_def)
  next
    case (PaymentV1 s)
    then show ?thesis
      by (auto simp: parse_v1_arms)
  next
    case (SelfStashV1 m)
    have "parse_self_stash (case ss_key m of None \<Rightarrow> ss_sealed m | Some k \<Rightarrow> k @ 58 # ss_sealed m) = Some x"
      using assms SelfStashV1 by (cases m) (auto simp: parse_self_stash_iff split: option.splits)
    then show ?thesis using SelfStashV1
      by (auto simp: parse_v1_arms)
  next
    case (SealedHandshakeV2 s)
    then show ?thesis
      by (auto simp: parse_v1_arms)
  next
    case (GroupMessageV1 m)
    then show ?thesis using assms
      by (auto simp: version_1_part_def parse_v1_arms parse_gcomm_iff)
  next
    case (GroupControlV1 m)
    then show ?thesis using assms
      by (auto simp: version_1_part_def parse_v1_arms parse_gctl_iff)
  qed
  then show ?thesis by (auto simp: parse_sealed_prefix version_1_part_def)
qed


theorem print_then_parse_witness:
  "parse_sealed_operation (protocol_prefix @ op_body (GroupControlV1
     \<lparr>gc_recipient_pubkey = Some (replicate 64 0x61), gc_payload = [0x30, 0x30]\<rparr>)) =
   Some (GroupControlV1 \<lparr>gc_recipient_pubkey = Some (replicate 64 0x61), gc_payload = [0x30, 0x30]\<rparr>)"
proof -
  have "list_all is_ascii_hexdigit (replicate n 0x61)" for n
    by (induction n) (simp_all add: ascii_class_defs)
  then have "op_ok (GroupControlV1 \<lparr>gc_recipient_pubkey = Some (replicate 64 0x61), gc_payload = [0x30, 0x30]\<rparr>)"
    by (simp add: is_fixed_hex_def is_nonempty_hex_def, simp add: ascii_class_defs)
  from print_then_parse [OF this] show ?thesis by blast
qed

definition tip_fields :: "bytes list \<Rightarrow> bool" where
  "tip_fields fs \<longleftrightarrow>
     length fs = 5 \<and> list_all (\<lambda>f. 58 \<notin> set f) fs \<and> fs ! 0 \<noteq> [] \<and> fs ! 1 \<noteq> [] \<and>
     is_fixed_hex (fs ! 2) 32 \<and> (is_fixed_hex (fs ! 3) 33 \<or> is_fixed_hex (fs ! 3) 32) \<and>
     is_tip_sealed (fs ! 4)"

lemma parse_tip_fields:
  "parse_tip r = Some x \<longleftrightarrow> (\<exists>fs. tip_fields fs \<and> r = join_with 58 fs \<and> x = PaymentV1 (fs ! 4))"
proof
  assume "parse_tip r = Some x"
  then obtain pk sg post author s where f: "x = PaymentV1 s" "split_on 58 r = [pk, sg, post, author, s]"
    "pk \<noteq> []" "sg \<noteq> []" "is_fixed_hex post 32" "is_fixed_hex author 33 \<or> is_fixed_hex author 32"
    "is_tip_sealed s" by (auto simp: parse_tip_iff)
  have "list_all (\<lambda>f. 58 \<notin> set f) (split_on 58 r)"
    unfolding list_all_iff using split_on_pieces [of _ 58 r] by blast
  moreover have "r = join_with 58 (split_on 58 r)" by (simp add: join_split_on)
  ultimately show "\<exists>fs. tip_fields fs \<and> r = join_with 58 fs \<and> x = PaymentV1 (fs ! 4)"
    using f by (intro exI [of _ "split_on 58 r"]) (simp add: tip_fields_def)
next
  assume "\<exists>fs. tip_fields fs \<and> r = join_with 58 fs \<and> x = PaymentV1 (fs ! 4)"
  then obtain fs where fs: "tip_fields fs" "r = join_with 58 fs" "x = PaymentV1 (fs ! 4)" by blast
  then obtain a b c d e where abc: "fs = [a, b, c, d, e]"
    by (auto simp: tip_fields_def numeral_eq_Suc length_Suc_conv)
  have "split_on 58 r = fs"
    using fs(1,2) split_join_with [of fs 58] abc by (simp add: tip_fields_def list_all_iff)
  then show "parse_tip r = Some x"
    using fs(1,3) by (simp add: abc tip_fields_def parse_tip_iff)
qed

text \<open>C38: Exactly these payloads are chat payments: the two payment spellings under either prefix, and,
  under the current prefix only, a tip of five fields with a transaction id, an author key and a
  non-empty lowercase-hex sealed part, of which only the sealed part is kept.\<close>
theorem payment_payloads:
  "parse_sealed_operation p = Some (PaymentV1 s) \<longleftrightarrow>
     (\<exists>pre \<in> {protocol_prefix, legacy_protocol_prefix}.
        p = pre @ version_1_part @ ascii ''pay:'' @ s \<or> p = pre @ version_1_part @ ascii ''payment:'' @ s) \<or>
     (\<exists>fs. tip_fields fs \<and> fs ! 4 = s \<and> p = protocol_prefix @ version_1_part @ ascii ''tip:'' @ join_with 58 fs)"
  (is "?L \<longleftrightarrow> ?R")
proof
  assume ?L
  then show ?R
  proof (cases rule: parse_sealed_cases)
    case (2 r k)
    from 2(2) show ?thesis
      by (cases rule: parse_v1_Some)
        (use 2(1) in \<open>auto simp: version_1_part_def parse_comm_iff parse_dm_iff parse_self_stash_iff
           parse_gcomm_iff parse_gctl_iff parse_tip_fields \<close>)
  qed simp
next
  assume ?R
  then show ?L
    by (auto simp: parse_sealed_prefix version_1_part_def parse_v1_arms parse_tip_fields
        )
qed

text \<open>The legacy prefix reads like the current one except for tips, which exist under the current
  prefix only.\<close>

theorem legacy_reads_alike:
  "parse_sealed_operation (legacy_protocol_prefix @ r) =
     (if starts_with (version_1_part @ ascii ''tip:'') r then None
      else parse_sealed_operation (protocol_prefix @ r))"
proof (cases "starts_with (version_1_part @ ascii ''tip:'') r")
  case True
  then obtain q where "r = version_1_part @ ascii ''tip:'' @ q"
    by (auto simp: starts_with_iff version_1_part_def)
  then show ?thesis using True
    by (simp add: parse_sealed_prefix parse_v1_arms version_1_part_def)
next
  case False
  show ?thesis
  proof (cases "strip_prefix version_1_part r")
    case (Some q)
    then have "strip_prefix (ascii ''tip:'') q = None"
      using False by (cases "strip_prefix (ascii ''tip:'') q")
        (auto simp: strip_prefix_eq_Some starts_with_iff version_1_part_def)
    then have "parse_v1 True q = parse_v1 False q"
      by (simp only: parse_v1_def if_True if_False)
    with Some False show ?thesis by (simp add: parse_sealed_prefix)
  qed (use False in \<open>simp add: parse_sealed_prefix\<close>)
qed

text \<open>The operations of the other KaChat services that share the root (every name of the foreign
  list but the tip) are never taken for chat operations, under either prefix and with any content.\<close>

theorem foreign_ops_ignored:
  assumes "op \<in> set foreign_kachat_ops" and "op \<noteq> ascii ''tip''"
    and "pre \<in> {protocol_prefix, legacy_protocol_prefix}"
  shows "parse_sealed_operation (pre @ version_1_part @ op @ 58 # content) = None"
proof -
  have colon: "ascii s @ 58 # content = ascii (s @ '':'') @ content" for s
    by (simp add: ascii_def)
  have "parse_v1 k (op @ 58 # content) = None" for k
    using assms(1,2)
    by (auto simp: foreign_kachat_ops_def colon parse_v1_def strip_literals)
  then show ?thesis using assms(3) by (auto simp: parse_sealed_prefix version_1_part_def)
qed

theorem foreign_ops_ignored_witness:
  "parse_sealed_operation (protocol_prefix @ version_1_part @ ascii ''bcast'' @ 58 # ascii ''general:hello'') = None"
  by (rule foreign_ops_ignored) (simp_all add: foreign_kachat_ops_def)

end
