(* ===== verification/Chess_Rules.thy ===== *)
theory Chess_Rules
  imports Prelude
begin

text \<open>
  The rules engine of \<open>kachat-webserver/src/chess.rs\<close> (lines 16-622): board, move generation,
  attack detection, applying a move, check and draw tests. Files and ranks are the \<open>i32\<close> of the
  source as integers: squares reach at most two steps off the board, far from overflow. The two
  \<open>while\<close> loops along a line carry a step bound of eight, which no line of the board exceeds.
\<close>

section \<open>Pieces, squares, boards\<close>

datatype color = White | Black

fun opposite :: "color \<Rightarrow> color" where
  "opposite White = Black"
| "opposite Black = White"

datatype piece_type = Pawn | Knight | Bishop | Rook | Queen | King

record piece =
  ptype :: piece_type
  pcolor :: color

datatype square = Square (s_file: int) (s_rank: int)

definition is_valid :: "square \<Rightarrow> bool" where
  "is_valid s \<longleftrightarrow> s_file s \<ge> 0 \<and> s_file s \<le> 7 \<and> s_rank s \<ge> 0 \<and> s_rank s \<le> 7"

record move =
  m_from :: square
  m_to :: square
  m_promotion :: "piece_type option"

record board =
  squares :: "piece option list list" \<comment> \<open>\<open>squares[rank][file]\<close>\<close>
  side_to_move :: color
  white_castle_k :: bool
  white_castle_q :: bool
  black_castle_k :: bool
  black_castle_q :: bool
  en_passant :: "square option"

definition piece_at :: "board \<Rightarrow> square \<Rightarrow> piece option" where
  "piece_at b s = (if \<not> is_valid s then None else squares b ! nat (s_rank s) ! nat (s_file s))"

definition set_piece :: "piece option \<Rightarrow> square \<Rightarrow> board \<Rightarrow> board" where
  "set_piece p s b =
     b\<lparr>squares := (squares b)[nat (s_rank s) := (squares b ! nat (s_rank s))[nat (s_file s) := p]]\<rparr>"

definition can_castle_k :: "color \<Rightarrow> board \<Rightarrow> bool" where
  "can_castle_k c b = (if c = White then white_castle_k b else black_castle_k b)"

definition can_castle_q :: "color \<Rightarrow> board \<Rightarrow> bool" where
  "can_castle_q c b = (if c = White then white_castle_q b else black_castle_q b)"

definition set_castle_k :: "bool \<Rightarrow> color \<Rightarrow> board \<Rightarrow> board" where
  "set_castle_k v c b = (if c = White then b\<lparr>white_castle_k := v\<rparr> else b\<lparr>black_castle_k := v\<rparr>)"

definition set_castle_q :: "bool \<Rightarrow> color \<Rightarrow> board \<Rightarrow> board" where
  "set_castle_q v c b = (if c = White then b\<lparr>white_castle_q := v\<rparr> else b\<lparr>black_castle_q := v\<rparr>)"

definition knight_offsets :: "(int \<times> int) list" where
  "knight_offsets = [(1, 2), (2, 1), (2, -1), (1, -2), (-1, -2), (-2, -1), (-2, 1), (-1, 2)]"

definition king_offsets :: "(int \<times> int) list" where
  "king_offsets = [(1, 0), (1, 1), (0, 1), (-1, 1), (-1, 0), (-1, -1), (0, -1), (1, -1)]"

definition diagonal_dirs :: "(int \<times> int) list" where
  "diagonal_dirs = [(1, 1), (1, -1), (-1, 1), (-1, -1)]"

definition straight_dirs :: "(int \<times> int) list" where
  "straight_dirs = [(1, 0), (-1, 0), (0, 1), (0, -1)]"

definition back_rank :: "piece_type list" where
  "back_rank = [Rook, Knight, Bishop, Queen, King, Bishop, Knight, Rook]"

definition initial_board :: board where
  "initial_board =
     \<lparr>squares =
        [map (\<lambda>t. Some \<lparr>ptype = t, pcolor = White\<rparr>) back_rank,
         replicate 8 (Some \<lparr>ptype = Pawn, pcolor = White\<rparr>),
         replicate 8 None, replicate 8 None, replicate 8 None, replicate 8 None,
         replicate 8 (Some \<lparr>ptype = Pawn, pcolor = Black\<rparr>),
         map (\<lambda>t. Some \<lparr>ptype = t, pcolor = Black\<rparr>) back_rank],
      side_to_move = White, white_castle_k = True, white_castle_q = True,
      black_castle_k = True, black_castle_q = True, en_passant = None\<rparr>"

text \<open>The order of the two nested loops over ranks and files.\<close>

definition all_squares :: "square list" where
  "all_squares = concat (map (\<lambda>r. map (\<lambda>f. Square f r) [0..7]) [0..7])"

section \<open>Attacks\<close>

definition has_piece :: "board \<Rightarrow> square \<Rightarrow> piece_type \<Rightarrow> color \<Rightarrow> bool" where
  "has_piece b s t c \<longleftrightarrow>
     (case piece_at b s of Some p \<Rightarrow> ptype p = t \<and> pcolor p = c | None \<Rightarrow> False)"

definition step_by :: "square \<Rightarrow> int \<times> int \<Rightarrow> square" where
  "step_by s d = Square (s_file s + fst d) (s_rank s + snd d)"

text \<open>The \<open>while\<close> loop of \<open>sliding_attacker\<close> from a current square.\<close>

fun attacker_scan :: "nat \<Rightarrow> square \<Rightarrow> int \<times> int \<Rightarrow> board \<Rightarrow> color \<Rightarrow> piece_type list \<Rightarrow> bool" where
  "attacker_scan 0 cur dir b c types = False"
| "attacker_scan (Suc n) cur dir b c types =
     (if is_valid cur then
        (case piece_at b cur of
           Some p \<Rightarrow> pcolor p = c \<and> ptype p \<in> set types
         | None \<Rightarrow> attacker_scan n (step_by cur dir) dir b c types)
      else False)"

definition sliding_attacker :: "square \<Rightarrow> int \<times> int \<Rightarrow> board \<Rightarrow> color \<Rightarrow> piece_type list \<Rightarrow> bool" where
  "sliding_attacker s dir b c types = attacker_scan 8 (step_by s dir) dir b c types"

definition is_square_attacked :: "square \<Rightarrow> color \<Rightarrow> board \<Rightarrow> bool" where
  "is_square_attacked s c b \<longleftrightarrow>
     (let pawn_rank_offset = (if c = White then -1 else 1)
      in list_ex (\<lambda>fo. has_piece b (step_by s (fo, pawn_rank_offset)) Pawn c) [-1, 1]) \<or>
     list_ex (\<lambda>d. has_piece b (step_by s d) Knight c) knight_offsets \<or>
     list_ex (\<lambda>d. has_piece b (step_by s d) King c) king_offsets \<or>
     list_ex (\<lambda>d. sliding_attacker s d b c [Bishop, Queen]) diagonal_dirs \<or>
     list_ex (\<lambda>d. sliding_attacker s d b c [Rook, Queen]) straight_dirs"

definition find_king :: "color \<Rightarrow> board \<Rightarrow> square option" where
  "find_king c b = find (\<lambda>s. has_piece b s King c) all_squares"

definition is_king_in_check :: "color \<Rightarrow> board \<Rightarrow> bool" where
  "is_king_in_check c b =
     (case find_king c b of Some k \<Rightarrow> is_square_attacked k (opposite c) b | None \<Rightarrow> False)"

section \<open>Move generation\<close>

definition plain :: "square \<Rightarrow> square \<Rightarrow> move" where
  "plain s t = \<lparr>m_from = s, m_to = t, m_promotion = None\<rparr>"

definition add_pawn_move :: "color \<Rightarrow> square \<Rightarrow> square \<Rightarrow> move list" where
  "add_pawn_move c s t =
     (if \<not> is_valid t then []
      else if s_rank t = (if c = White then 7 else 0)
      then map (\<lambda>promo. \<lparr>m_from = s, m_to = t, m_promotion = Some promo\<rparr>) [Queen, Rook, Bishop, Knight]
      else [plain s t])"

definition pawn_pushes :: "color \<Rightarrow> square \<Rightarrow> board \<Rightarrow> move list" where
  "pawn_pushes c s b =
     (let direction = (if c = White then 1 else -1);
          start_rank = (if c = White then 1 else 6);
          single_push = step_by s (0, direction);
          double_push = step_by s (0, direction * 2)
      in if is_valid single_push \<and> piece_at b single_push = None
         then add_pawn_move c s single_push @
              (if s_rank s = start_rank \<and> piece_at b double_push = None
               then [plain s double_push] else [])
         else [])"

definition pawn_capture :: "color \<Rightarrow> square \<Rightarrow> board \<Rightarrow> int \<Rightarrow> move list" where
  "pawn_capture c s b file_offset =
     (let direction = (if c = White then 1 else -1);
          target = step_by s (file_offset, direction)
      in if \<not> is_valid target then []
         else case piece_at b target of
                Some occupant \<Rightarrow> if pcolor occupant \<noteq> c then add_pawn_move c s target else []
              | None \<Rightarrow> if Some target = en_passant b then [plain s target] else [])"

definition pawn_moves :: "color \<Rightarrow> square \<Rightarrow> board \<Rightarrow> move list" where
  "pawn_moves c s b = pawn_pushes c s b @ concat (map (pawn_capture c s b) [-1, 1])"

definition stepping_moves :: "(int \<times> int) list \<Rightarrow> color \<Rightarrow> square \<Rightarrow> board \<Rightarrow> move list" where
  "stepping_moves offsets c s b =
     concat (map (\<lambda>d. let target = step_by s d
                      in if \<not> is_valid target then []
                         else case piece_at b target of
                                Some occupant \<Rightarrow> if pcolor occupant = c then [] else [plain s target]
                              | None \<Rightarrow> [plain s target]) offsets)"

text \<open>The inner \<open>while\<close> loop of \<open>sliding_moves\<close>.\<close>

fun slide_scan :: "nat \<Rightarrow> square \<Rightarrow> int \<times> int \<Rightarrow> color \<Rightarrow> square \<Rightarrow> board \<Rightarrow> move list" where
  "slide_scan 0 target dir c s b = []"
| "slide_scan (Suc n) target dir c s b =
     (if is_valid target then
        (case piece_at b target of
           Some occupant \<Rightarrow> if pcolor occupant \<noteq> c then [plain s target] else []
         | None \<Rightarrow> plain s target # slide_scan n (step_by target dir) dir c s b)
      else [])"

definition sliding_moves :: "(int \<times> int) list \<Rightarrow> color \<Rightarrow> square \<Rightarrow> board \<Rightarrow> move list" where
  "sliding_moves dirs c s b = concat (map (\<lambda>d. slide_scan 8 (step_by s d) d c s b) dirs)"

definition castle_k_ok :: "color \<Rightarrow> board \<Rightarrow> bool" where
  "castle_k_ok c b \<longleftrightarrow>
     (let rank = (if c = White then 0 else 7)
      in can_castle_k c b \<and> piece_at b (Square 5 rank) = None \<and> piece_at b (Square 6 rank) = None \<and>
         \<not> is_square_attacked (Square 5 rank) (opposite c) b \<and>
         \<not> is_square_attacked (Square 6 rank) (opposite c) b)"

definition castle_q_ok :: "color \<Rightarrow> board \<Rightarrow> bool" where
  "castle_q_ok c b \<longleftrightarrow>
     (let rank = (if c = White then 0 else 7)
      in can_castle_q c b \<and> piece_at b (Square 3 rank) = None \<and> piece_at b (Square 2 rank) = None \<and>
         piece_at b (Square 1 rank) = None \<and>
         \<not> is_square_attacked (Square 3 rank) (opposite c) b \<and>
         \<not> is_square_attacked (Square 2 rank) (opposite c) b)"

definition king_moves :: "color \<Rightarrow> square \<Rightarrow> board \<Rightarrow> move list" where
  "king_moves c s b =
     stepping_moves king_offsets c s b @
     (if is_square_attacked s (opposite c) b then []
      else let rank = (if c = White then 0 else 7)
           in (if castle_k_ok c b then [plain s (Square 6 rank)] else []) @
              (if castle_q_ok c b then [plain s (Square 2 rank)] else []))"

fun pseudo_legal_moves :: "piece \<Rightarrow> square \<Rightarrow> board \<Rightarrow> move list" where
  "pseudo_legal_moves p s b =
     (case ptype p of
        Pawn \<Rightarrow> pawn_moves (pcolor p) s b
      | Knight \<Rightarrow> stepping_moves knight_offsets (pcolor p) s b
      | Bishop \<Rightarrow> sliding_moves diagonal_dirs (pcolor p) s b
      | Rook \<Rightarrow> sliding_moves straight_dirs (pcolor p) s b
      | Queen \<Rightarrow> sliding_moves diagonal_dirs (pcolor p) s b @ sliding_moves straight_dirs (pcolor p) s b
      | King \<Rightarrow> king_moves (pcolor p) s b)"

section \<open>Applying a move\<close>

definition revoke_castling_right_if_corner_touched :: "square \<Rightarrow> board \<Rightarrow> board" where
  "revoke_castling_right_if_corner_touched s b =
     (if s = Square 0 0 then b\<lparr>white_castle_q := False\<rparr>
      else if s = Square 7 0 then b\<lparr>white_castle_k := False\<rparr>
      else if s = Square 0 7 then b\<lparr>black_castle_q := False\<rparr>
      else if s = Square 7 7 then b\<lparr>black_castle_k := False\<rparr>
      else b)"

text \<open>The rook's hop of a castling move.\<close>

definition move_castling_rook :: "move \<Rightarrow> color \<Rightarrow> board \<Rightarrow> board" where
  "move_castling_rook m c b =
     (let rank = s_rank (m_from m); rook = Some \<lparr>ptype = Rook, pcolor = c\<rparr>
      in if s_file (m_to m) = 6
         then set_piece rook (Square 5 rank) (set_piece None (Square 7 rank) b)
         else set_piece rook (Square 3 rank) (set_piece None (Square 0 rank) b))"

definition is_en_passant_capture :: "piece \<Rightarrow> move \<Rightarrow> board \<Rightarrow> bool" where
  "is_en_passant_capture p m b \<longleftrightarrow>
     ptype p = Pawn \<and> Some (m_to m) = en_passant b \<and> piece_at b (m_to m) = None"

definition is_castle :: "piece \<Rightarrow> move \<Rightarrow> bool" where
  "is_castle p m \<longleftrightarrow> ptype p = King \<and> \<bar>s_file (m_to m) - s_file (m_from m)\<bar> = 2"

text \<open>The placement part of a move: lift, drop, the en passant capture, the castling rook.\<close>

definition move_pieces :: "piece \<Rightarrow> move \<Rightarrow> board \<Rightarrow> board" where
  "move_pieces p m b =
     (let moved = \<lparr>ptype = (case m_promotion m of Some t \<Rightarrow> t | None \<Rightarrow> ptype p), pcolor = pcolor p\<rparr>;
          r = set_piece (Some moved) (m_to m) (set_piece None (m_from m) b);
          r = (if is_en_passant_capture p m b
               then set_piece None (Square (s_file (m_to m)) (s_rank (m_from m))) r else r)
      in if is_castle p m then move_castling_rook m (pcolor p) r else r)"

definition update_rights :: "piece \<Rightarrow> move \<Rightarrow> board \<Rightarrow> board" where
  "update_rights p m r =
     revoke_castling_right_if_corner_touched (m_to m)
       (revoke_castling_right_if_corner_touched (m_from m)
         (if ptype p = King then set_castle_q False (pcolor p) (set_castle_k False (pcolor p) r) else r))"

definition apply_board :: "move \<Rightarrow> board \<Rightarrow> board" where
  "apply_board m b =
     (case piece_at b (m_from m) of
        None \<Rightarrow> b
      | Some p \<Rightarrow>
          (update_rights p m (move_pieces p m b))
            \<lparr>en_passant :=
               (if ptype p = Pawn \<and> \<bar>s_rank (m_to m) - s_rank (m_from m)\<bar> = 2
                then Some (Square (s_file (m_from m)) ((s_rank (m_from m) + s_rank (m_to m)) div 2))
                else None),
             side_to_move := opposite (side_to_move b)\<rparr>)"

section \<open>Legal moves and endings\<close>

definition all_pseudo_legal :: "board \<Rightarrow> move list" where
  "all_pseudo_legal b =
     concat (map (\<lambda>s. case piece_at b s of
                        Some p \<Rightarrow> if pcolor p = side_to_move b then pseudo_legal_moves p s b else []
                      | None \<Rightarrow> []) all_squares)"

definition legal_moves :: "board \<Rightarrow> move list" where
  "legal_moves b =
     filter (\<lambda>m. \<not> is_king_in_check (side_to_move b) (apply_board m b)) (all_pseudo_legal b)"

definition normalizing_promotion :: "move \<Rightarrow> board \<Rightarrow> move" where
  "normalizing_promotion m b =
     (if m_promotion m \<noteq> None then m
      else case piece_at b (m_from m) of
             Some p \<Rightarrow>
               if ptype p = Pawn \<and> s_rank (m_to m) = (if pcolor p = White then 7 else 0)
               then m\<lparr>m_promotion := Some Queen\<rparr> else m
           | None \<Rightarrow> m)"

definition is_legal :: "move \<Rightarrow> board \<Rightarrow> bool" where
  "is_legal m b \<longleftrightarrow> list_ex (\<lambda>x. x = normalizing_promotion m b) (legal_moves b)"

definition is_checkmate :: "board \<Rightarrow> bool" where
  "is_checkmate b \<longleftrightarrow> is_king_in_check (side_to_move b) b \<and> legal_moves b = []"

definition is_stalemate :: "board \<Rightarrow> bool" where
  "is_stalemate b \<longleftrightarrow> \<not> is_king_in_check (side_to_move b) b \<and> legal_moves b = []"

definition is_light_square :: "square \<Rightarrow> bool" where
  "is_light_square s \<longleftrightarrow> (s_file s + s_rank s) mod 2 = 1"

definition minors :: "color \<Rightarrow> board \<Rightarrow> square list" where
  "minors c b = filter (\<lambda>s. has_piece b s Bishop c \<or> has_piece b s Knight c) all_squares"

definition is_insufficient_material :: "board \<Rightarrow> bool" where
  "is_insufficient_material b =
     (if list_ex (\<lambda>s. case piece_at b s of
                        Some p \<Rightarrow> ptype p \<in> {Pawn, Rook, Queen} | None \<Rightarrow> False) all_squares
      then False
      else case (minors White b, minors Black b) of
             ([], []) \<Rightarrow> True
           | ([_], []) \<Rightarrow> True
           | ([], [_]) \<Rightarrow> True
           | ([w], [bl]) \<Rightarrow>
               has_piece b w Bishop White \<and> has_piece b bl Bishop Black \<and>
               is_light_square w = is_light_square bl
           | _ \<Rightarrow> False)"

section \<open>Lines\<close>

definition ray :: "square \<Rightarrow> int \<times> int \<Rightarrow> nat \<Rightarrow> square" where
  "ray s d k = Square (s_file s + int k * fst d) (s_rank s + int k * snd d)"

lemma ray_0 [simp]: "ray s d 0 = s"
  by (simp add: ray_def)

lemma step_by_ray: "step_by s d = ray s d 1"
  by (simp add: step_by_def ray_def)

lemma ray_step: "ray (step_by s d) d k = ray s d (Suc k)"
  by (simp add: step_by_def ray_def algebra_simps)

text \<open>Every square strictly between is on the board and empty.\<close>

definition clear :: "board \<Rightarrow> square \<Rightarrow> int \<times> int \<Rightarrow> nat \<Rightarrow> bool" where
  "clear b s d k \<longleftrightarrow> (\<forall>j. 1 \<le> j \<and> j < k \<longrightarrow> is_valid (ray s d j) \<and> piece_at b (ray s d j) = None)"

lemma piece_at_valid: "piece_at b s = Some p \<Longrightarrow> is_valid s"
  by (simp add: piece_at_def split: if_splits)

lemma attacker_scan_iff:
  "attacker_scan n cur d b c ts \<longleftrightarrow>
     (\<exists>k < n. (\<forall>j < k. is_valid (ray cur d j) \<and> piece_at b (ray cur d j) = None) \<and>
        (\<exists>p. piece_at b (ray cur d k) = Some p \<and> pcolor p = c \<and> ptype p \<in> set ts))"
proof (induction n arbitrary: cur)
  case (Suc n)
  show ?case
  proof (cases "is_valid cur \<and> piece_at b cur = None")
    case True
    then have "attacker_scan (Suc n) cur d b c ts \<longleftrightarrow> attacker_scan n (step_by cur d) d b c ts" by simp
    also have "\<dots> \<longleftrightarrow> (\<exists>k < n. (\<forall>j < k. is_valid (ray cur d (Suc j)) \<and> piece_at b (ray cur d (Suc j)) = None) \<and>
        (\<exists>p. piece_at b (ray cur d (Suc k)) = Some p \<and> pcolor p = c \<and> ptype p \<in> set ts))"
      by (simp add: Suc.IH ray_step)
    also have "\<dots> \<longleftrightarrow> (\<exists>k < Suc n. (\<forall>j < k. is_valid (ray cur d j) \<and> piece_at b (ray cur d j) = None) \<and>
        (\<exists>p. piece_at b (ray cur d k) = Some p \<and> pcolor p = c \<and> ptype p \<in> set ts))"
      using True by (simp add: Ex_less_Suc2 All_less_Suc2)
    finally show ?thesis .
  next
    case False
    then show ?thesis
      by (auto simp: Ex_less_Suc2 All_less_Suc2 dest: piece_at_valid split: option.splits)
  qed
qed simp

lemma slide_scan_iff:
  "m \<in> set (slide_scan n cur d c s b) \<longleftrightarrow>
     (\<exists>k < n. (\<forall>j < k. is_valid (ray cur d j) \<and> piece_at b (ray cur d j) = None) \<and>
        is_valid (ray cur d k) \<and> (\<forall>q. piece_at b (ray cur d k) = Some q \<longrightarrow> pcolor q \<noteq> c) \<and>
        m = plain s (ray cur d k))"
proof (induction n arbitrary: cur)
  case (Suc n)
  show ?case
  proof (cases "is_valid cur \<and> piece_at b cur = None")
    case True
    then have "m \<in> set (slide_scan (Suc n) cur d c s b) \<longleftrightarrow>
        m = plain s cur \<or> m \<in> set (slide_scan n (step_by cur d) d c s b)" by simp
    then show ?thesis
      using True by (simp add: Suc.IH ray_step Ex_less_Suc2 All_less_Suc2)
  next
    case False
    then show ?thesis
      by (auto simp: Ex_less_Suc2 All_less_Suc2 split: option.splits)
  qed
qed simp

text \<open>The step bound: no line leaves a valid square for more than seven steps on the board.\<close>

definition unit_dir :: "int \<times> int \<Rightarrow> bool" where
  "unit_dir d \<longleftrightarrow> d \<noteq> (0, 0) \<and> \<bar>fst d\<bar> \<le> 1 \<and> \<bar>snd d\<bar> \<le> 1"

lemma ray_bound:
  assumes "unit_dir d" and "is_valid s" and "is_valid (ray s d k)"
  shows "k \<le> 7"
proof (rule ccontr)
  assume "\<not> k \<le> 7"
  then have k: "int k \<ge> 8" by simp
  obtain x y where d: "d = (x, y)" by (cases d)
  have "x = 1 \<or> x = - 1 \<or> y = 1 \<or> y = - 1" "x = 0 \<or> x = 1 \<or> x = - 1" "y = 0 \<or> y = 1 \<or> y = - 1"
    using assms(1) by (auto simp: unit_dir_def d)
  then show False using assms(2,3) k by (auto simp: is_valid_def ray_def d)
qed

lemma dirs_unit: "d \<in> set diagonal_dirs \<Longrightarrow> unit_dir d" "d \<in> set straight_dirs \<Longrightarrow> unit_dir d"
  by (auto simp: diagonal_dirs_def straight_dirs_def unit_dir_def)

lemma Suc_shift: "(\<forall>j < k. Q (Suc j)) \<longleftrightarrow> (\<forall>j. 1 \<le> j \<and> j < Suc k \<longrightarrow> Q j)"
  by (metis Suc_le_eq Suc_less_eq One_nat_def Suc_le_D le_0_eq nat.simps(3) not0_implies_Suc zero_less_Suc less_Suc_eq_0_disj)

lemma sliding_attacker_iff:
  assumes "is_valid s" and "unit_dir d"
  shows "sliding_attacker s d b c ts \<longleftrightarrow>
    (\<exists>k \<ge> 1. clear b s d k \<and> (\<exists>p. piece_at b (ray s d k) = Some p \<and> pcolor p = c \<and> ptype p \<in> set ts))"
  (is "_ \<longleftrightarrow> (\<exists>k \<ge> 1. ?A k)")
proof -
  have "sliding_attacker s d b c ts \<longleftrightarrow> (\<exists>k < 8. ?A (Suc k))"
    by (simp add: sliding_attacker_def attacker_scan_iff ray_step clear_def Suc_shift
        [where Q = "\<lambda>j. is_valid (ray s d j) \<and> piece_at b (ray s d j) = None"])
  also have "\<dots> \<longleftrightarrow> (\<exists>k \<ge> 1. ?A k)"
  proof
    assume "\<exists>k \<ge> 1. ?A k"
    then obtain k where k: "k \<ge> 1" "?A k" by blast
    then have "is_valid (ray s d k)" using piece_at_valid by blast
    then have "k \<le> 7" by (rule ray_bound [OF assms(2,1)])
    with k show "\<exists>k < 8. ?A (Suc k)" by (intro exI [of _ "k - 1"]) simp
  qed force
  finally show ?thesis .
qed

lemma sliding_moves_iff:
  assumes "is_valid s" and "\<And>d. d \<in> set dirs \<Longrightarrow> unit_dir d"
  shows "m \<in> set (sliding_moves dirs c s b) \<longleftrightarrow>
    (\<exists>d \<in> set dirs. \<exists>k \<ge> 1. clear b s d k \<and> is_valid (ray s d k) \<and>
       (\<forall>q. piece_at b (ray s d k) = Some q \<longrightarrow> pcolor q \<noteq> c) \<and> m = plain s (ray s d k))"
proof -
  have one: "m \<in> set (slide_scan 8 (step_by s d) d c s b) \<longleftrightarrow>
     (\<exists>k \<ge> 1. clear b s d k \<and> is_valid (ray s d k) \<and>
       (\<forall>q. piece_at b (ray s d k) = Some q \<longrightarrow> pcolor q \<noteq> c) \<and> m = plain s (ray s d k))"
    (is "_ \<longleftrightarrow> (\<exists>k \<ge> 1. ?A k)") if "unit_dir d" for d
  proof -
    have "m \<in> set (slide_scan 8 (step_by s d) d c s b) \<longleftrightarrow> (\<exists>k < 8. ?A (Suc k))"
      by (simp add: slide_scan_iff ray_step clear_def Suc_shift
        [where Q = "\<lambda>j. is_valid (ray s d j) \<and> piece_at b (ray s d j) = None"])
    also have "\<dots> \<longleftrightarrow> (\<exists>k \<ge> 1. ?A k)"
    proof
      assume "\<exists>k \<ge> 1. ?A k"
      then obtain k where k: "k \<ge> 1" "?A k" by blast
      then have "k \<le> 7" using ray_bound [OF that assms(1)] by blast
      with k show "\<exists>k < 8. ?A (Suc k)" by (intro exI [of _ "k - 1"]) simp
    qed force
    finally show ?thesis .
  qed
  then show ?thesis using assms(2) by (auto simp: sliding_moves_def)
qed

section \<open>Attacks and captures\<close>

definition pawn_dir :: "color \<Rightarrow> int" where
  "pawn_dir c = (if c = White then 1 else -1)"

definition slide_dirs :: "piece_type \<Rightarrow> (int \<times> int) set" where
  "slide_dirs t =
     (case t of Bishop \<Rightarrow> set diagonal_dirs | Rook \<Rightarrow> set straight_dirs
      | Queen \<Rightarrow> set diagonal_dirs \<union> set straight_dirs | _ \<Rightarrow> {})"

text \<open>A piece on \<open>s\<close> attacks \<open>t\<close>: the geometry of the rules.\<close>

definition attacks :: "board \<Rightarrow> square \<Rightarrow> piece \<Rightarrow> square \<Rightarrow> bool" where
  "attacks b s p t \<longleftrightarrow>
     (case ptype p of
        Pawn \<Rightarrow> \<exists>f \<in> {-1, 1}. t = step_by s (f, pawn_dir (pcolor p))
      | Knight \<Rightarrow> \<exists>d \<in> set knight_offsets. t = step_by s d
      | King \<Rightarrow> \<exists>d \<in> set king_offsets. t = step_by s d
      | _ \<Rightarrow> \<exists>d \<in> slide_dirs (ptype p). \<exists>k \<ge> 1. t = ray s d k \<and> clear b s d k)"

lemma square_eq_iff: "s = t \<longleftrightarrow> s_file s = s_file t \<and> s_rank s = s_rank t"
  by (cases s; cases t) simp

lemma step_back: "t = step_by s d \<longleftrightarrow> s = step_by t (- fst d, - snd d)"
  by (auto simp: step_by_def square_eq_iff)

lemma ray_back: "t = ray s d k \<longleftrightarrow> s = ray t (- fst d, - snd d) k"
  by (auto simp: ray_def square_eq_iff)

lemma clear_back:
  assumes "clear b s d k"
  shows "clear b (ray s d k) (- fst d, - snd d) k"
proof -
  have "ray (ray s d k) (- fst d, - snd d) j = ray s d (k - j)" if "j < k" for j
    using that by (simp add: ray_def square_eq_iff of_nat_diff algebra_simps)
  then show ?thesis using assms by (auto simp: clear_def)
qed

lemma offsets_symmetric:
  "d \<in> set knight_offsets \<longleftrightarrow> (- fst d, - snd d) \<in> set knight_offsets"
  "d \<in> set king_offsets \<longleftrightarrow> (- fst d, - snd d) \<in> set king_offsets"
  "d \<in> set diagonal_dirs \<longleftrightarrow> (- fst d, - snd d) \<in> set diagonal_dirs"
  "d \<in> set straight_dirs \<longleftrightarrow> (- fst d, - snd d) \<in> set straight_dirs"
  by (cases d; auto simp: knight_offsets_def king_offsets_def diagonal_dirs_def straight_dirs_def)+

lemma neg_neg: "(- fst (- fst d, - snd d), - snd (- fst d, - snd d)) = (d :: int \<times> int)"
  by simp

text \<open>Looking back from the target: offsets and lines.\<close>

lemma step_attackers:
  assumes "\<And>d. d \<in> set ds \<longleftrightarrow> (- fst d, - snd d) \<in> set ds"
  shows "list_ex (\<lambda>d. has_piece b (step_by t d) ty c) ds \<longleftrightarrow>
    (\<exists>s p. piece_at b s = Some p \<and> pcolor p = c \<and> ptype p = ty \<and> (\<exists>d \<in> set ds. t = step_by s d))"
  (is "?L \<longleftrightarrow> ?R")
proof
  assume ?L
  then obtain d p where "d \<in> set ds" "piece_at b (step_by t d) = Some p" "ptype p = ty" "pcolor p = c"
    by (auto simp: list_ex_iff has_piece_def split: option.splits)
  moreover have "t = step_by (step_by t d) (- fst d, - snd d)" by (simp add: step_by_def)
  ultimately show ?R using assms by blast
next
  assume ?R
  then obtain s p d where "piece_at b s = Some p" "pcolor p = c" "ptype p = ty" "d \<in> set ds" "t = step_by s d"
    by blast
  then have "s = step_by t (- fst d, - snd d)" "(- fst d, - snd d) \<in> set ds"
    using step_back assms by blast+
  moreover from this have "has_piece b (step_by t (- fst d, - snd d)) ty c"
    using \<open>piece_at b s = Some p\<close> \<open>pcolor p = c\<close> \<open>ptype p = ty\<close> by (simp add: has_piece_def)
  ultimately show ?L unfolding list_ex_iff by blast
qed

lemma line_attackers:
  assumes t: "is_valid t" and unit: "\<And>d. d \<in> set ds \<Longrightarrow> unit_dir d"
    and sym: "\<And>d. d \<in> set ds \<longleftrightarrow> (- fst d, - snd d) \<in> set ds"
  shows "list_ex (\<lambda>d. sliding_attacker t d b c tys) ds \<longleftrightarrow>
    (\<exists>s p. piece_at b s = Some p \<and> pcolor p = c \<and> ptype p \<in> set tys \<and>
       (\<exists>d \<in> set ds. \<exists>k \<ge> 1. t = ray s d k \<and> clear b s d k))"
  (is "?L \<longleftrightarrow> ?R")
proof
  assume ?L
  then obtain d k p where d: "d \<in> set ds" "k \<ge> 1" "clear b t d k" "piece_at b (ray t d k) = Some p"
    "pcolor p = c" "ptype p \<in> set tys"
    using sliding_attacker_iff [OF t unit] by (auto simp: list_ex_iff)
  have "t = ray (ray t d k) (- fst d, - snd d) k" by (simp add: ray_def)
  then show ?R using d clear_back [OF d(3)] sym by blast
next
  assume ?R
  then obtain s p d k where s: "piece_at b s = Some p" "pcolor p = c" "ptype p \<in> set tys"
    "d \<in> set ds" "k \<ge> 1" "t = ray s d k" "clear b s d k" by blast
  have "(- fst d, - snd d) \<in> set ds" using s(4) sym by blast
  moreover have "clear b t (- fst d, - snd d) k" using clear_back [OF s(7)] s(6) by simp
  moreover have "ray t (- fst d, - snd d) k = s" using ray_back s(6) by metis
  ultimately have "sliding_attacker t (- fst d, - snd d) b c tys"
    using s(1,2,3,5) sliding_attacker_iff [OF t unit] by blast
  then show ?L using \<open>(- fst d, - snd d) \<in> set ds\<close> unfolding list_ex_iff by blast
qed

lemma pawn_attackers:
  "list_ex (\<lambda>fo. has_piece b (step_by t (fo, if c = White then -1 else 1)) Pawn c) [-1, 1] \<longleftrightarrow>
   (\<exists>s p. piece_at b s = Some p \<and> pcolor p = c \<and> ptype p = Pawn \<and>
      (\<exists>f \<in> {-1, 1}. t = step_by s (f, pawn_dir c)))"
  (is "?L \<longleftrightarrow> ?R")
proof
  assume ?L
  then obtain f p where f: "f \<in> {-1, 1}" "piece_at b (step_by t (f, - pawn_dir c)) = Some p"
    "ptype p = Pawn" "pcolor p = c"
    by (auto simp: has_piece_def pawn_dir_def split: option.splits if_splits)
  moreover have "t = step_by (step_by t (f, - pawn_dir c)) (- f, pawn_dir c)" by (simp add: step_by_def)
  moreover have "- f \<in> {-1, 1}" using f(1) by auto
  ultimately show ?R by blast
next
  assume ?R
  then obtain s p f where s: "piece_at b s = Some p" "pcolor p = c" "ptype p = Pawn" "f \<in> {-1, 1}"
    "t = step_by s (f, pawn_dir c)" by blast
  then have "s = step_by t (- f, - pawn_dir c)" by (simp add: step_by_def)
  then show ?L using s by (auto simp: has_piece_def pawn_dir_def split: if_splits)
qed

lemma attacked_iff:
  assumes "is_valid t"
  shows "is_square_attacked t c b \<longleftrightarrow>
    (\<exists>s p. piece_at b s = Some p \<and> pcolor p = c \<and> attacks b s p t)"
proof -
  have diag: "list_ex (\<lambda>d. sliding_attacker t d b c [Bishop, Queen]) diagonal_dirs \<longleftrightarrow>
      (\<exists>s p. piece_at b s = Some p \<and> pcolor p = c \<and> ptype p \<in> set [Bishop, Queen] \<and>
         (\<exists>d \<in> set diagonal_dirs. \<exists>k \<ge> 1. t = ray s d k \<and> clear b s d k))"
    by (rule line_attackers [OF assms]) (rule dirs_unit(1), assumption, rule offsets_symmetric(3))
  have straight: "list_ex (\<lambda>d. sliding_attacker t d b c [Rook, Queen]) straight_dirs \<longleftrightarrow>
      (\<exists>s p. piece_at b s = Some p \<and> pcolor p = c \<and> ptype p \<in> set [Rook, Queen] \<and>
         (\<exists>d \<in> set straight_dirs. \<exists>k \<ge> 1. t = ray s d k \<and> clear b s d k))"
    by (rule line_attackers [OF assms]) (rule dirs_unit(2), assumption, rule offsets_symmetric(4))
  have "is_square_attacked t c b \<longleftrightarrow>
     (\<exists>s p. piece_at b s = Some p \<and> pcolor p = c \<and>
        (ptype p = Pawn \<and> (\<exists>f \<in> {-1, 1}. t = step_by s (f, pawn_dir c)) \<or>
         ptype p = Knight \<and> (\<exists>d \<in> set knight_offsets. t = step_by s d) \<or>
         ptype p = King \<and> (\<exists>d \<in> set king_offsets. t = step_by s d) \<or>
         ptype p \<in> set [Bishop, Queen] \<and> (\<exists>d \<in> set diagonal_dirs. \<exists>k \<ge> 1. t = ray s d k \<and> clear b s d k) \<or>
         ptype p \<in> set [Rook, Queen] \<and> (\<exists>d \<in> set straight_dirs. \<exists>k \<ge> 1. t = ray s d k \<and> clear b s d k)))"
    unfolding is_square_attacked_def Let_def pawn_attackers
      step_attackers [OF offsets_symmetric(1)] step_attackers [OF offsets_symmetric(2)] diag straight
    by (simp only: conj_disj_distribL ex_disj_distrib conj_assoc disj_assoc cong: conj_cong)
  also have "\<dots> \<longleftrightarrow> (\<exists>s p. piece_at b s = Some p \<and> pcolor p = c \<and> attacks b s p t)"
    by (intro ex_cong1 conj_cong refl)
      (auto simp: attacks_def slide_dirs_def split: piece_type.split)
  finally show ?thesis .
qed

text \<open>Pseudo-legal moves onto an enemy piece are exactly the attacks on it.\<close>

lemma stepping_moves_iff:
  "m \<in> set (stepping_moves ds c s b) \<longleftrightarrow>
     (\<exists>d \<in> set ds. is_valid (step_by s d) \<and>
        (\<forall>q. piece_at b (step_by s d) = Some q \<longrightarrow> pcolor q \<noteq> c) \<and> m = plain s (step_by s d))"
  by (auto simp: stepping_moves_def Let_def split: option.splits if_splits)

lemma add_pawn_move_to: "m \<in> set (add_pawn_move c s t) \<Longrightarrow> m_to m = t \<and> m_from m = s \<and> is_valid t"
  by (auto simp: add_pawn_move_def plain_def split: if_splits)

lemma add_pawn_move_ex: "is_valid t \<Longrightarrow> \<exists>m \<in> set (add_pawn_move c s t). m_to m = t"
  by (simp add: add_pawn_move_def plain_def)

lemma plain_simps [simp]: "m_from (plain s t) = s" "m_to (plain s t) = t" "m_promotion (plain s t) = None"
  by (simp_all add: plain_def)

lemma pawn_capture_iff:
  assumes "is_valid t" and "piece_at b t = Some q" and "pcolor q \<noteq> c"
  shows "(\<exists>m \<in> set (pawn_moves c s b). m_to m = t) \<longleftrightarrow> (\<exists>f \<in> {-1, 1}. t = step_by s (f, pawn_dir c))"
proof
  assume "\<exists>m \<in> set (pawn_moves c s b). m_to m = t"
  then obtain m where m: "m \<in> set (pawn_moves c s b)" "m_to m = t" by blast
  have "m \<notin> set (pawn_pushes c s b)"
    using m(2) assms(2) by (auto simp: pawn_pushes_def Let_def dest!: add_pawn_move_to split: if_splits)
  then obtain f where "f \<in> {-1, 1}" "m \<in> set (pawn_capture c s b f)"
    using m(1) by (auto simp: pawn_moves_def)
  then show "\<exists>f \<in> {-1, 1}. t = step_by s (f, pawn_dir c)"
    using m(2) by (auto simp: pawn_capture_def pawn_dir_def Let_def dest!: add_pawn_move_to
        split: if_splits option.splits)
next
  assume "\<exists>f \<in> {-1, 1}. t = step_by s (f, pawn_dir c)"
  then obtain f where f: "f \<in> {-1, 1}" "t = step_by s (f, pawn_dir c)" by blast
  obtain m where "m \<in> set (add_pawn_move c s t)" "m_to m = t" using add_pawn_move_ex [OF assms(1)] by blast
  then have "m \<in> set (pawn_capture c s b f)"
    using assms f(2) by (simp add: pawn_capture_def pawn_dir_def Let_def split: if_splits)
  then show "\<exists>m \<in> set (pawn_moves c s b). m_to m = t"
    using f(1) \<open>m_to m = t\<close> by (intro bexI [of _ m]) (auto simp: pawn_moves_def)
qed

lemma castle_targets_empty:
  "castle_k_ok c b \<Longrightarrow> piece_at b (Square 6 (if c = White then 0 else 7)) = None"
  "castle_q_ok c b \<Longrightarrow> piece_at b (Square 2 (if c = White then 0 else 7)) = None"
  by (simp_all add: castle_k_ok_def castle_q_ok_def Let_def)

lemma king_capture_iff:
  assumes "piece_at b t = Some q"
  shows "(\<exists>m \<in> set (king_moves c s b). m_to m = t) \<longleftrightarrow>
         (\<exists>m \<in> set (stepping_moves king_offsets c s b). m_to m = t)"
  using assms castle_targets_empty [of c b]
  by (auto simp: king_moves_def Let_def split: if_splits)

lemma capture_iff:
  assumes "piece_at b s = Some p" and "piece_at b t = Some q" and "pcolor q \<noteq> pcolor p"
  shows "(\<exists>m \<in> set (pseudo_legal_moves p s b). m_to m = t) \<longleftrightarrow> attacks b s p t"
proof -
  have s: "is_valid s" and t: "is_valid t" using assms piece_at_valid by blast+
  have step: "(\<exists>m \<in> set (stepping_moves ds (pcolor p) s b). m_to m = t) \<longleftrightarrow> (\<exists>d \<in> set ds. t = step_by s d)" for ds
  proof
    assume "\<exists>d \<in> set ds. t = step_by s d"
    then have "plain s t \<in> set (stepping_moves ds (pcolor p) s b)"
      using t assms(2,3) by (auto simp: stepping_moves_iff)
    then show "\<exists>m \<in> set (stepping_moves ds (pcolor p) s b). m_to m = t"
      by (rule bexI [rotated]) simp
  qed (use stepping_moves_iff in fastforce)
  have slide: "(\<exists>m \<in> set (sliding_moves ds (pcolor p) s b). m_to m = t) \<longleftrightarrow>
      (\<exists>d \<in> set ds. \<exists>k \<ge> 1. t = ray s d k \<and> clear b s d k)"
    if "ds = diagonal_dirs \<or> ds = straight_dirs" for ds
  proof -
    have iff: "m \<in> set (sliding_moves ds (pcolor p) s b) \<longleftrightarrow>
      (\<exists>d \<in> set ds. \<exists>k \<ge> 1. clear b s d k \<and> is_valid (ray s d k) \<and>
         (\<forall>q. piece_at b (ray s d k) = Some q \<longrightarrow> pcolor q \<noteq> pcolor p) \<and> m = plain s (ray s d k))" for m
      by (rule sliding_moves_iff [OF s]) (use that dirs_unit in blast)
    show ?thesis
    proof
      assume "\<exists>d \<in> set ds. \<exists>k \<ge> 1. t = ray s d k \<and> clear b s d k"
      then obtain d k where d: "d \<in> set ds" "k \<ge> 1" "t = ray s d k" "clear b s d k" by blast
      have "is_valid (ray s d k)" "\<forall>q. piece_at b (ray s d k) = Some q \<longrightarrow> pcolor q \<noteq> pcolor p"
        using d(3) t assms(2,3) by auto
      then have "plain s t \<in> set (sliding_moves ds (pcolor p) s b)"
        unfolding iff using d by blast
      then show "\<exists>m \<in> set (sliding_moves ds (pcolor p) s b). m_to m = t"
        by (rule bexI [rotated]) simp
    qed (use iff in fastforce)
  qed
  show ?thesis
  proof (cases "ptype p")
    case Pawn
    then show ?thesis using pawn_capture_iff [OF t assms(2,3)] by (simp add: attacks_def)
  next
    case King
    then show ?thesis using king_capture_iff [OF assms(2)] step by (simp add: attacks_def)
  next
    case Queen
    then show ?thesis using slide by (simp add: attacks_def slide_dirs_def bex_Un)
  qed (use step slide in \<open>simp_all add: attacks_def slide_dirs_def\<close>)
qed

section \<open>Boards as functions\<close>

lemma opposite_opposite [simp]: "opposite (opposite c) = c"
  by (cases c) simp_all

lemma opposite_neq [simp]: "opposite c \<noteq> c" "c \<noteq> opposite c"
  by (cases c; simp)+

lemma neq_opposite: "d \<noteq> c \<longleftrightarrow> d = opposite c"
  by (cases c; cases d) simp_all

definition board_ok :: "board \<Rightarrow> bool" where
  "board_ok b \<longleftrightarrow> length (squares b) = 8 \<and> (\<forall>row \<in> set (squares b). length row = 8)"

lemma has_piece_iff: "has_piece b s t c \<longleftrightarrow> piece_at b s = Some \<lparr>ptype = t, pcolor = c\<rparr>"
  by (auto simp: has_piece_def split: option.splits)

lemma nat_less_8: "is_valid s \<Longrightarrow> nat (s_file s) < 8 \<and> nat (s_rank s) < 8"
  by (auto simp: is_valid_def)

lemma board_ok_set [simp]: "board_ok b \<Longrightarrow> is_valid s \<Longrightarrow> board_ok (set_piece p s b)"
  using nat_less_8 [of s]
  by (auto simp: board_ok_def set_piece_def dest!: set_update_subset_insert [THEN subsetD])

lemma piece_at_set:
  assumes "board_ok b" and "is_valid s"
  shows "piece_at (set_piece p s b) t = (if t = s then p else piece_at b t)"
proof (cases "is_valid t")
  case True
  note n = nat_less_8 [OF True] nat_less_8 [OF assms(2)]
  have "length (squares b ! nat (s_rank s)) = 8" using assms(1) n by (simp add: board_ok_def)
  moreover have "s_rank t = s_rank s \<longleftrightarrow> nat (s_rank t) = nat (s_rank s)"
    "s_file t = s_file s \<longleftrightarrow> nat (s_file t) = nat (s_file s)"
    using True assms(2) by (auto simp: is_valid_def)
  ultimately show ?thesis using True assms n
    by (auto simp: piece_at_def set_piece_def board_ok_def nth_list_update square_eq_iff)
next
  case False
  then show ?thesis using assms(2) by (auto simp: piece_at_def)
qed

text \<open>The squares do not depend on the other fields.\<close>

lemma piece_at_cong: "squares b = squares b' \<Longrightarrow> piece_at b s = piece_at b' s"
  by (simp add: piece_at_def)

lemma squares_rights [simp]: "squares (update_rights p m r) = squares r"
  by (simp add: update_rights_def revoke_castling_right_if_corner_touched_def set_castle_k_def
      set_castle_q_def)

lemma apply_board_squares:
  "piece_at b (m_from m) = Some p \<Longrightarrow> squares (apply_board m b) = squares (move_pieces p m b)"
  by (simp add: apply_board_def)

text \<open>Where the pieces are after a move.\<close>

definition moved_piece :: "piece \<Rightarrow> move \<Rightarrow> piece" where
  "moved_piece p m = \<lparr>ptype = (case m_promotion m of Some t \<Rightarrow> t | None \<Rightarrow> ptype p), pcolor = pcolor p\<rparr>"

lemma moved_plain:
  assumes "board_ok b" and "is_valid (m_from m)" and "is_valid (m_to m)"
    and "\<not> is_en_passant_capture p m b" and "\<not> is_castle p m"
  shows "piece_at (move_pieces p m b) s =
    (if s = m_to m then Some (moved_piece p m) else if s = m_from m then None else piece_at b s)"
  using assms by (simp add: move_pieces_def Let_def piece_at_set moved_piece_def)

lemma moved_en_passant:
  assumes "board_ok b" and "is_valid (m_from m)" and "is_valid (m_to m)"
    and "is_en_passant_capture p m b"
  shows "piece_at (move_pieces p m b) s =
    (if s = Square (s_file (m_to m)) (s_rank (m_from m)) then None
     else if s = m_to m then Some (moved_piece p m) else if s = m_from m then None else piece_at b s)"
proof -
  have "is_valid (Square (s_file (m_to m)) (s_rank (m_from m)))"
    using assms(2,3) by (simp add: is_valid_def)
  moreover have "\<not> is_castle p m" using assms(4) by (simp add: is_en_passant_capture_def is_castle_def)
  ultimately show ?thesis using assms
    by (simp add: move_pieces_def Let_def piece_at_set moved_piece_def)
qed

lemma moved_castle:
  assumes "board_ok b" and "m_from m = Square 4 r" and "m_to m = Square f r" and "f \<in> {2, 6}"
    and "r \<in> {0, 7}" and "ptype p = King"
  shows "piece_at (move_pieces p m b) s =
    (if s = Square (if f = 6 then 5 else 3) r then Some \<lparr>ptype = Rook, pcolor = pcolor p\<rparr>
     else if s = Square (if f = 6 then 7 else 0) r then None
     else if s = Square f r then Some (moved_piece p m) else if s = Square 4 r then None
     else piece_at b s)"
proof -
  have v: "is_valid (Square g r)" if "0 \<le> g" "g \<le> 7" for g
    using that assms(5) by (auto simp: is_valid_def)
  have "\<not> is_en_passant_capture p m b" "is_castle p m"
    using assms by (auto simp: is_en_passant_capture_def is_castle_def)
  then show ?thesis using assms(1-4) v [of 4] v [of 5] v [of 6] v [of 7] v [of 3] v [of 2] v [of 0]
    by (auto simp: move_pieces_def move_castling_rook_def Let_def piece_at_set moved_piece_def)
qed

lemma move_pieces_ok:
  assumes "board_ok b" and "is_valid (m_from m)" and "is_valid (m_to m)"
    and "is_castle p m \<Longrightarrow> s_rank (m_from m) \<in> {0, 7}"
  shows "board_ok (move_pieces p m b)"
proof -
  have v: "is_valid (Square g (s_rank (m_from m)))" if "0 \<le> g" "g \<le> 7" for g
    using that assms(2) by (auto simp: is_valid_def)
  have "is_valid (Square (s_file (m_to m)) (s_rank (m_from m)))"
    using assms(2,3) by (simp add: is_valid_def)
  then show ?thesis using assms(1-3) v [of 5] v [of 6] v [of 7] v [of 3] v [of 0]
    by (simp add: move_pieces_def move_castling_rook_def Let_def)
qed

section \<open>What a pseudo-legal move is\<close>

lemma offsets_nonzero:
  "d \<in> set knight_offsets \<Longrightarrow> step_by s d \<noteq> s"
  "d \<in> set king_offsets \<Longrightarrow> step_by s d \<noteq> s \<and> \<bar>s_file (step_by s d) - s_file s\<bar> \<le> 1"
  by (auto simp: knight_offsets_def king_offsets_def step_by_def square_eq_iff)

text \<open>Straight or diagonal, single or double: the four kinds of pawn move.\<close>

lemma pawn_moves_cases:
  assumes "m \<in> set (pawn_moves c s b)"
  obtains (single) "m_to m = step_by s (0, pawn_dir c)" "is_valid (m_to m)" "piece_at b (m_to m) = None"
      "m_from m = s" "m_promotion m \<in> {None, Some Queen, Some Rook, Some Bishop, Some Knight}"
  | (double) "m = plain s (step_by s (0, pawn_dir c * 2))" "s_rank s = (if c = White then 1 else 6)"
      "piece_at b (step_by s (0, pawn_dir c)) = None" "is_valid (step_by s (0, pawn_dir c))"
      "piece_at b (m_to m) = None"
  | (capture) f q where "f \<in> {-1, 1}" "m_to m = step_by s (f, pawn_dir c)" "is_valid (m_to m)"
      "piece_at b (m_to m) = Some q" "pcolor q \<noteq> c" "m_from m = s"
      "m_promotion m \<in> {None, Some Queen, Some Rook, Some Bishop, Some Knight}"
  | (en_passant) f where "f \<in> {-1, 1}" "m = plain s (step_by s (f, pawn_dir c))" "is_valid (m_to m)"
      "piece_at b (m_to m) = None" "en_passant b = Some (m_to m)"
proof -
  have promo: "x \<in> set (add_pawn_move c s t) \<Longrightarrow>
      m_promotion x \<in> {None, Some Queen, Some Rook, Some Bishop, Some Knight}" for x t
    by (auto simp: add_pawn_move_def split: if_splits)
  from assms consider "m \<in> set (pawn_pushes c s b)" | f where "f \<in> {-1, 1}" "m \<in> set (pawn_capture c s b f)"
    by (auto simp: pawn_moves_def)
  then show ?thesis
  proof cases
    case 1
    then consider "m \<in> set (add_pawn_move c s (step_by s (0, pawn_dir c)))"
        "piece_at b (step_by s (0, pawn_dir c)) = None"
      | "m = plain s (step_by s (0, pawn_dir c * 2))" "s_rank s = (if c = White then 1 else 6)"
        "piece_at b (step_by s (0, pawn_dir c)) = None" "is_valid (step_by s (0, pawn_dir c))"
        "piece_at b (step_by s (0, pawn_dir c * 2)) = None"
      by (auto simp: pawn_pushes_def pawn_dir_def Let_def split: if_splits)
    then show ?thesis
    proof cases
      case 1
      then show ?thesis using promo [OF 1(1)] add_pawn_move_to [OF 1(1)] by (intro single) auto
    next
      case 2
      then show ?thesis by (intro double) simp_all
    qed
  next
    case 2
    then consider q where "m \<in> set (add_pawn_move c s (step_by s (f, pawn_dir c)))"
        "piece_at b (step_by s (f, pawn_dir c)) = Some q" "pcolor q \<noteq> c"
      | "m = plain s (step_by s (f, pawn_dir c))" "is_valid (step_by s (f, pawn_dir c))"
        "piece_at b (step_by s (f, pawn_dir c)) = None" "en_passant b = Some (step_by s (f, pawn_dir c))"
      by (cases "piece_at b (step_by s (f, pawn_dir c))")
        (auto simp: pawn_capture_def pawn_dir_def [symmetric] Let_def split: if_splits)
    then show ?thesis
    proof cases
      case (1 q)
      then show ?thesis using promo [OF 1(1)] add_pawn_move_to [OF 1(1)] 2(1) by (intro capture [of f q]) auto
    next
      case 2
      then show ?thesis using \<open>f \<in> {-1, 1}\<close> by (intro en_passant [of f]) simp_all
    qed
  qed
qed

end
