(* ===== verification/Chess_Invariant.thy ===== *)
theory Chess_Invariant
  imports Chess_Rules
begin

text \<open>
  The invariant of every position legal play reaches from the initial board: one king a side, the
  side that has just moved not in check, castling rights only with king and rook at home, an en
  passant square only behind a pawn that has just made a double step.
\<close>

section \<open>The invariant\<close>

definition home_rank :: "color \<Rightarrow> int" where
  "home_rank c = (if c = White then 0 else 7)"

definition king_on :: "board \<Rightarrow> color \<Rightarrow> square \<Rightarrow> bool" where
  "king_on b c k \<longleftrightarrow> (\<forall>s. has_piece b s King c \<longleftrightarrow> s = k)"

definition rights_ok :: "board \<Rightarrow> bool" where
  "rights_ok b \<longleftrightarrow>
     (\<forall>c. (can_castle_k c b \<longrightarrow> has_piece b (Square 4 (home_rank c)) King c \<and>
                               has_piece b (Square 7 (home_rank c)) Rook c) \<and>
          (can_castle_q c b \<longrightarrow> has_piece b (Square 4 (home_rank c)) King c \<and>
                               has_piece b (Square 0 (home_rank c)) Rook c))"

definition ep_ok :: "board \<Rightarrow> bool" where
  "ep_ok b \<longleftrightarrow>
     (\<forall>e. en_passant b = Some e \<longrightarrow>
        s_rank e = (if side_to_move b = White then 5 else 2) \<and> piece_at b e = None \<and>
        has_piece b (Square (s_file e) (s_rank e - pawn_dir (side_to_move b))) Pawn
          (opposite (side_to_move b)))"

definition chess_inv :: "board \<Rightarrow> bool" where
  "chess_inv b \<longleftrightarrow>
     board_ok b \<and> (\<forall>c. \<exists>k. king_on b c k) \<and>
     \<not> is_king_in_check (opposite (side_to_move b)) b \<and> rights_ok b \<and> ep_ok b"

lemma all_squares_valid: "s \<in> set all_squares \<longleftrightarrow> is_valid s"
  by (cases s) (auto simp: all_squares_def is_valid_def image_iff)

lemma has_piece_valid: "has_piece b s t c \<Longrightarrow> is_valid s"
  by (auto simp: has_piece_iff dest: piece_at_valid)

lemma king_on_find: "king_on b c k \<Longrightarrow> find_king c b = Some k"
proof -
  assume k: "king_on b c k"
  then have "has_piece b k King c" by (simp add: king_on_def)
  then have "k \<in> set all_squares" by (simp add: all_squares_valid has_piece_valid)
  moreover have "\<forall>s \<in> set xs. (has_piece b s King c \<longleftrightarrow> s = k) \<Longrightarrow> k \<in> set xs \<Longrightarrow>
      find (\<lambda>s. has_piece b s King c) xs = Some k" for xs
    by (induction xs) auto
  ultimately show ?thesis using k by (simp add: find_king_def king_on_def)
qed

lemma in_check_iff: "king_on b c k \<Longrightarrow> is_king_in_check c b \<longleftrightarrow> is_square_attacked k (opposite c) b"
  by (simp add: is_king_in_check_def king_on_find)

text \<open>The king of the side that may be captured never is.\<close>

lemma king_not_attacked:
  assumes "chess_inv b" and "piece_at b s = Some p" and "pcolor p = side_to_move b"
    and "attacks b s p t"
  shows "\<not> has_piece b t King (opposite (side_to_move b))"
proof
  assume t: "has_piece b t King (opposite (side_to_move b))"
  obtain k where k: "king_on b (opposite (side_to_move b)) k" using assms(1) by (auto simp: chess_inv_def)
  then have "t = k" using t by (simp add: king_on_def)
  moreover have "is_square_attacked t (side_to_move b) b"
    using attacked_iff [OF has_piece_valid [OF t]] assms(2-4) by blast
  ultimately have "is_king_in_check (opposite (side_to_move b)) b"
    using in_check_iff [OF k] by simp
  then show False using assms(1) by (simp add: chess_inv_def)
qed

section \<open>The three kinds of move\<close>

text \<open>An ordinary move: onto an empty square or onto an enemy piece that is not the king.\<close>

definition ordinary :: "board \<Rightarrow> piece \<Rightarrow> move \<Rightarrow> bool" where
  "ordinary b p m \<longleftrightarrow>
     is_valid (m_from m) \<and> is_valid (m_to m) \<and> m_to m \<noteq> m_from m \<and>
     \<not> is_en_passant_capture p m b \<and> \<not> is_castle p m \<and>
     (\<forall>q. piece_at b (m_to m) = Some q \<longrightarrow> pcolor q \<noteq> pcolor p \<and> ptype q \<noteq> King) \<and>
     (ptype (moved_piece p m) = King \<longleftrightarrow> ptype p = King)"

definition en_passant_move :: "board \<Rightarrow> piece \<Rightarrow> move \<Rightarrow> bool" where
  "en_passant_move b p m \<longleftrightarrow>
     is_valid (m_from m) \<and> is_valid (m_to m) \<and> m_to m \<noteq> m_from m \<and>
     is_en_passant_capture p m b \<and> m_promotion m = None \<and>
     s_rank (m_from m) = s_rank (m_to m) - pawn_dir (pcolor p)"

definition castle_move :: "board \<Rightarrow> piece \<Rightarrow> move \<Rightarrow> bool" where
  "castle_move b p m \<longleftrightarrow>
     ptype p = King \<and> m_promotion m = None \<and> m_from m = Square 4 (home_rank (pcolor p)) \<and>
     (m_to m = Square 6 (home_rank (pcolor p)) \<and> can_castle_k (pcolor p) b \<and>
        piece_at b (Square 5 (home_rank (pcolor p))) = None \<and>
        piece_at b (Square 6 (home_rank (pcolor p))) = None \<or>
      m_to m = Square 2 (home_rank (pcolor p)) \<and> can_castle_q (pcolor p) b \<and>
        piece_at b (Square 3 (home_rank (pcolor p))) = None \<and>
        piece_at b (Square 2 (home_rank (pcolor p))) = None)"

lemma step_neq: "f \<noteq> 0 \<or> r \<noteq> 0 \<Longrightarrow> step_by s (f, r) \<noteq> s"
  by (auto simp: step_by_def square_eq_iff)

lemma pawn_dir_cases: "pawn_dir c = 1 \<or> pawn_dir c = - 1" "pawn_dir c \<noteq> 0"
  by (auto simp: pawn_dir_def)

lemma ordinary_intro:
  assumes "chess_inv b" and "piece_at b s = Some p" and "pcolor p = side_to_move b"
    and "m_from m = s" and "is_valid (m_to m)" and "m_to m \<noteq> s"
    and "\<not> is_en_passant_capture p m b" and "\<not> is_castle p m"
    and "\<And>q. piece_at b (m_to m) = Some q \<Longrightarrow> pcolor q \<noteq> pcolor p \<and> attacks b s p (m_to m)"
    and "m_promotion m \<in> {None, Some Queen, Some Rook, Some Bishop, Some Knight}"
    and "ptype p = King \<Longrightarrow> m_promotion m = None"
  shows "ordinary b p m"
proof -
  have "ptype q \<noteq> King" if "piece_at b (m_to m) = Some q" for q
  proof
    assume "ptype q = King"
    moreover have "pcolor q = opposite (side_to_move b)"
      using assms(3) assms(9) [OF that] neq_opposite by metis
    ultimately have "has_piece b (m_to m) King (opposite (side_to_move b))"
      using that by (simp add: has_piece_def)
    then show False using king_not_attacked [OF assms(1-3)] assms(9) [OF that] by blast
  qed
  then show ?thesis
    using assms piece_at_valid [OF assms(2)] by (auto simp: ordinary_def moved_piece_def)
qed

lemma stepping_ordinary:
  assumes "chess_inv b" and "piece_at b s = Some p" and "pcolor p = side_to_move b"
    and "m \<in> set (stepping_moves ds (pcolor p) s b)"
    and "ptype p = Knight \<and> ds = knight_offsets \<or> ptype p = King \<and> ds = king_offsets"
  shows "ordinary b p m"
proof -
  obtain d where d: "d \<in> set ds" "is_valid (step_by s d)" "m = plain s (step_by s d)"
    "\<forall>q. piece_at b (step_by s d) = Some q \<longrightarrow> pcolor q \<noteq> pcolor p"
    using assms(4) by (auto simp: stepping_moves_iff)
  have ne: "step_by s d \<noteq> s" and near: "ptype p = King \<Longrightarrow> \<bar>s_file (step_by s d) - s_file s\<bar> \<le> 1"
    using offsets_nonzero assms(5) d(1) piece_type.distinct by metis+
  have att: "attacks b s p (step_by s d)" using assms(5)
  proof
    assume "ptype p = Knight \<and> ds = knight_offsets"
    then show ?thesis using d(1) by (simp add: attacks_def) blast
  next
    assume "ptype p = King \<and> ds = king_offsets"
    then show ?thesis using d(1) by (simp add: attacks_def) blast
  qed
  show ?thesis
    by (rule ordinary_intro [OF assms(1-3)])
      (use assms(5) d ne near att in \<open>auto simp: is_en_passant_capture_def is_castle_def\<close>)
qed

lemma sliding_ordinary:
  assumes "chess_inv b" and "piece_at b s = Some p" and "pcolor p = side_to_move b"
    and "m \<in> set (sliding_moves ds (pcolor p) s b)"
    and "ds = diagonal_dirs \<and> ptype p \<in> {Bishop, Queen} \<or> ds = straight_dirs \<and> ptype p \<in> {Rook, Queen}"
  shows "ordinary b p m"
proof -
  have s: "is_valid s" using assms(2) by (rule piece_at_valid)
  have unit: "d \<in> set ds \<Longrightarrow> unit_dir d" for d using assms(5) dirs_unit by blast
  obtain d k where d: "d \<in> set ds" "k \<ge> 1" "clear b s d k" "is_valid (ray s d k)"
    "\<forall>q. piece_at b (ray s d k) = Some q \<longrightarrow> pcolor q \<noteq> pcolor p" "m = plain s (ray s d k)"
    using assms(4) sliding_moves_iff [OF s unit] by blast
  have "ray s d k \<noteq> s"
    using unit [OF d(1)] d(2) by (cases d) (auto simp: ray_def unit_dir_def square_eq_iff)
  moreover have dir: "d \<in> slide_dirs (ptype p)" using assms(5) d(1) by (auto simp: slide_dirs_def)
  then have "\<exists>e \<in> slide_dirs (ptype p). \<exists>j \<ge> 1. ray s d k = ray s e j \<and> clear b s e j"
    using d(2,3) by blast
  then have "attacks b s p (ray s d k)" using assms(5) by (auto simp only: attacks_def piece_type.case insert_iff)
  ultimately show ?thesis
    by (intro ordinary_intro [OF assms(1-3)])
      (use assms(5) d in \<open>auto simp: is_en_passant_capture_def is_castle_def\<close>)
qed

lemma ep_rank:
  assumes "ep_ok b" and "en_passant b = Some e"
  shows "s_rank e = (if side_to_move b = White then 5 else 2)"
    and "has_piece b (Square (s_file e) (s_rank e - pawn_dir (side_to_move b))) Pawn
      (opposite (side_to_move b))"
  using assms by (auto simp: ep_ok_def)

lemma pawn_kinds:
  assumes inv: "chess_inv b" and p: "piece_at b s = Some p" "pcolor p = side_to_move b" "ptype p = Pawn"
    and m: "m \<in> set (pawn_moves (pcolor p) s b)"
  shows "ordinary b p m \<or> en_passant_move b p m"
proof -
  have ep: "ep_ok b" using inv by (simp add: chess_inv_def)
  have nk: "\<not> is_castle p m" "ptype p \<noteq> King" using p(3) by (simp_all add: is_castle_def)
  note pd = pawn_dir_cases [of "pcolor p"]
  have own: "\<not> has_piece b s Pawn (opposite (side_to_move b))"
    using p by (simp add: has_piece_def)
  have straight: "\<not> is_en_passant_capture p m b"
    if "m_to m = step_by s (0, j)" "j = pawn_dir (pcolor p) \<or> j = pawn_dir (pcolor p) * 2 \<and>
      s_rank s = (if pcolor p = White then 1 else 6)" for j
  proof
    assume "is_en_passant_capture p m b"
    then have e: "en_passant b = Some (m_to m)" by (simp add: is_en_passant_capture_def)
    note r = ep_rank [OF ep e]
    from that(2) show False
    proof
      assume "j = pawn_dir (pcolor p)"
      then have "Square (s_file (m_to m)) (s_rank (m_to m) - pawn_dir (side_to_move b)) = s"
        using that(1) p(2) by (simp add: step_by_def square_eq_iff)
      then show False using r(2) own by simp
    next
      assume "j = pawn_dir (pcolor p) * 2 \<and> s_rank s = (if pcolor p = White then 1 else 6)"
      then show False using r(1) that(1) p(2)
        by (auto simp: step_by_def pawn_dir_def split: if_splits)
    qed
  qed
  from m show ?thesis
  proof (cases rule: pawn_moves_cases)
    case single
    have "\<not> is_en_passant_capture p m b" using straight [of "pawn_dir (pcolor p)"] single(1) by simp
    moreover have "m_to m \<noteq> s" using single(1) pd(2) step_neq by metis
    ultimately have "ordinary b p m"
      using single nk by (intro ordinary_intro [OF inv p(1,2)]) auto
    then show ?thesis ..
  next
    case double
    have "is_valid (m_to m)"
      using double(1,2) piece_at_valid [OF p(1)]
      by (auto simp: is_valid_def step_by_def pawn_dir_def split: if_splits)
    moreover have "\<not> is_en_passant_capture p m b"
      using straight [of "pawn_dir (pcolor p) * 2"] double(1,2) by simp
    moreover have "m_to m \<noteq> s" using double(1) pd(2) step_neq by (metis mult_eq_0_iff plain_simps(2) zero_neq_numeral)
    ultimately have "ordinary b p m"
      using double nk by (intro ordinary_intro [OF inv p(1,2)]) auto
    then show ?thesis ..
  next
    case (capture f q)
    have "attacks b s p (m_to m)" using capture(1,2) p(3) by (simp add: attacks_def) blast
    moreover have "m_to m \<noteq> s" using capture(2) pd(2) step_neq by metis
    moreover have "\<not> is_en_passant_capture p m b" using capture(4) by (simp add: is_en_passant_capture_def)
    ultimately have "ordinary b p m"
      using capture nk by (intro ordinary_intro [OF inv p(1,2)]) auto
    then show ?thesis ..
  next
    case (en_passant f)
    have "m_to m \<noteq> s" using en_passant(2) pd(2) step_neq by (metis plain_simps(2))
    moreover have "is_en_passant_capture p m b"
      using en_passant p(3) by (simp add: is_en_passant_capture_def)
    ultimately have "en_passant_move b p m"
      using en_passant piece_at_valid [OF p(1)] by (simp add: en_passant_move_def step_by_def)
    then show ?thesis ..
  qed
qed

lemma king_kinds:
  assumes inv: "chess_inv b" and p: "piece_at b s = Some p" "pcolor p = side_to_move b" "ptype p = King"
    and m: "m \<in> set (king_moves (pcolor p) s b)"
  shows "ordinary b p m \<or> castle_move b p m"
proof -
  have home: "s = Square 4 (home_rank (pcolor p))"
    if "can_castle_k (pcolor p) b \<or> can_castle_q (pcolor p) b"
  proof -
    have "has_piece b (Square 4 (home_rank (pcolor p))) King (pcolor p)"
      using inv that by (auto simp: chess_inv_def rights_ok_def)
    moreover have "has_piece b s King (pcolor p)" using p by (simp add: has_piece_def)
    ultimately show ?thesis using inv unfolding chess_inv_def king_on_def by metis
  qed
  from m consider "m \<in> set (stepping_moves king_offsets (pcolor p) s b)"
    | "castle_k_ok (pcolor p) b" "m = plain s (Square 6 (home_rank (pcolor p)))"
    | "castle_q_ok (pcolor p) b" "m = plain s (Square 2 (home_rank (pcolor p)))"
    by (auto simp: king_moves_def home_rank_def Let_def split: if_splits)
  then show ?thesis
  proof cases
    case 1
    then show ?thesis using stepping_ordinary [OF inv p(1,2)] p(3) by blast
  next
    case 2
    then show ?thesis using home p(3)
      by (simp add: castle_move_def castle_k_ok_def home_rank_def Let_def)
  next
    case 3
    then show ?thesis using home p(3)
      by (simp add: castle_move_def castle_q_ok_def home_rank_def Let_def)
  qed
qed

lemma move_kinds:
  assumes inv: "chess_inv b" and p: "piece_at b s = Some p" "pcolor p = side_to_move b"
    and m: "m \<in> set (pseudo_legal_moves p s b)"
  shows "m_from m = s" and "ordinary b p m \<or> en_passant_move b p m \<or> castle_move b p m"
proof -
  have from_step: "m \<in> set (stepping_moves ds c s b) \<Longrightarrow> m_from m = s" for ds c
    by (auto simp: stepping_moves_iff)
  have from_slide: "m \<in> set (slide_scan n t d c s b) \<Longrightarrow> m_from m = s" for n t d c
    by (auto simp: slide_scan_iff)
  have from_pawn: "m \<in> set (pawn_moves c s b) \<Longrightarrow> m_from m = s" for c
    by (erule pawn_moves_cases) simp_all
  show "m_from m = s"
    using m from_step from_pawn
    by (auto simp: sliding_moves_def king_moves_def Let_def dest: from_slide
        split: piece_type.splits if_splits)
  show "ordinary b p m \<or> en_passant_move b p m \<or> castle_move b p m"
  proof (cases "ptype p")
    case Pawn
    then show ?thesis using pawn_kinds [OF inv p] m by auto
  next
    case King
    then show ?thesis using king_kinds [OF inv p] m by auto
  next
    case Knight
    then show ?thesis using stepping_ordinary [OF inv p] m by auto
  next
    case Bishop
    then show ?thesis using sliding_ordinary [OF inv p] m by auto
  next
    case Rook
    then show ?thesis using sliding_ordinary [OF inv p] m by auto
  next
    case Queen
    then show ?thesis using sliding_ordinary [OF inv p] m by auto
  qed
qed


section \<open>Preservation\<close>

lemma square_simps: "Square a r = Square b q \<longleftrightarrow> a = b \<and> r = q" by simp

text \<open>The effect of a move on kings and on the pieces it does not touch.\<close>

definition touched :: "board \<Rightarrow> piece \<Rightarrow> move \<Rightarrow> square set" where
  "touched b p m =
     {m_from m, m_to m} \<union>
     (if is_en_passant_capture p m b then {Square (s_file (m_to m)) (s_rank (m_from m))} else {}) \<union>
     (if is_castle p m
      then (if s_file (m_to m) = 6 then {Square 5 (s_rank (m_from m)), Square 7 (s_rank (m_from m))}
            else {Square 3 (s_rank (m_from m)), Square 0 (s_rank (m_from m))}) else {})"

lemma castle_is_castle: "castle_move b p m \<Longrightarrow> is_castle p m \<and> \<not> is_en_passant_capture p m b"
  by (auto simp: castle_move_def is_castle_def is_en_passant_capture_def)

lemma kind_valid:
  assumes "ordinary b p m \<or> en_passant_move b p m \<or> castle_move b p m"
  shows "is_valid (m_from m)" "is_valid (m_to m)" "m_to m \<noteq> m_from m"
    "is_castle p m \<Longrightarrow> s_rank (m_from m) \<in> {0, 7}"
  using assms
  by (auto simp: ordinary_def en_passant_move_def castle_move_def is_valid_def home_rank_def
      is_castle_def is_en_passant_capture_def)

lemma piece_after:
  assumes "board_ok b" and "piece_at b (m_from m) = Some p"
    and "ordinary b p m \<or> en_passant_move b p m \<or> castle_move b p m"
  shows "s \<notin> touched b p m \<Longrightarrow> piece_at (apply_board m b) s = piece_at b s"
    and "piece_at (apply_board m b) (m_to m) = Some (moved_piece p m)"
    and "piece_at (apply_board m b) (m_from m) = None"
    and "board_ok (apply_board m b)"
proof -
  have sq: "piece_at (apply_board m b) t = piece_at (move_pieces p m b) t" for t
    by (rule piece_at_cong) (rule apply_board_squares [OF assms(2)])
  note v = kind_valid [OF assms(3)]
  have "board_ok (move_pieces p m b)" using move_pieces_ok [OF assms(1) v(1,2,4)] by simp
  then show "board_ok (apply_board m b)"
    by (simp add: board_ok_def apply_board_squares [OF assms(2)])
  consider (ord) "ordinary b p m" | (ep) "en_passant_move b p m" | (cas) "castle_move b p m"
    using assms(3) by blast
  then have "(s \<notin> touched b p m \<longrightarrow> piece_at (move_pieces p m b) s = piece_at b s) \<and>
    piece_at (move_pieces p m b) (m_to m) = Some (moved_piece p m) \<and>
    piece_at (move_pieces p m b) (m_from m) = None" for s
  proof cases
    case ord
    then show ?thesis using moved_plain [OF assms(1) v(1,2)] v(3)
      by (auto simp: ordinary_def touched_def)
  next
    case ep
    then have "m_to m \<noteq> Square (s_file (m_to m)) (s_rank (m_from m))"
      using pawn_dir_cases(2) by (auto simp: en_passant_move_def square_eq_iff)
    then show ?thesis using moved_en_passant [OF assms(1) v(1,2)] v(3) ep
      by (auto simp: en_passant_move_def touched_def)
  next
    case cas
    note flags = castle_is_castle [OF cas]
    define r where "r = home_rank (pcolor p)"
    obtain f where f: "f \<in> {2, 6}" "m_to m = Square f r" "m_from m = Square 4 r" "ptype p = King"
      using cas by (auto simp: castle_move_def r_def)
    have "r \<in> {0, 7}" by (simp add: r_def home_rank_def)
    from moved_castle [OF assms(1) f(3,2,1) this f(4)] show ?thesis
      using f flags by (auto simp: touched_def)
  qed
  then show "s \<notin> touched b p m \<Longrightarrow> piece_at (apply_board m b) s = piece_at b s"
    and "piece_at (apply_board m b) (m_to m) = Some (moved_piece p m)"
    and "piece_at (apply_board m b) (m_from m) = None"
    by (simp_all add: sq)
qed

text \<open>No touched square but the start square holds a king before; none but the target after.\<close>

lemma touched_no_king:
  assumes inv: "chess_inv b" and p: "piece_at b (m_from m) = Some p" "pcolor p = side_to_move b"
    and kind: "ordinary b p m \<or> en_passant_move b p m \<or> castle_move b p m"
    and s: "s \<in> touched b p m" "s \<noteq> m_from m"
  shows "\<not> has_piece b s King c"
    and "s \<noteq> m_to m \<Longrightarrow> \<not> has_piece (apply_board m b) s King c"
proof -
  have ok: "board_ok b" and ep: "ep_ok b" and rights: "rights_ok b" using inv by (simp_all add: chess_inv_def)
  have sq: "piece_at (apply_board m b) t = piece_at (move_pieces p m b) t" for t
    by (rule piece_at_cong) (rule apply_board_squares [OF p(1)])
  note v = kind_valid [OF kind]
  consider (ord) "ordinary b p m" | (ep) "en_passant_move b p m" | (cas) "castle_move b p m"
    using kind by blast
  then have "\<not> has_piece b s King c \<and>
    (s \<noteq> m_to m \<longrightarrow> \<not> has_piece (apply_board m b) s King c)"
  proof cases
    case ord
    then show ?thesis using s by (auto simp: ordinary_def touched_def has_piece_def split: option.splits)
  next
    case ep
    let ?x = "Square (s_file (m_to m)) (s_rank (m_from m))"
    have e: "en_passant b = Some (m_to m)" "piece_at b (m_to m) = None"
      "s_rank (m_from m) = s_rank (m_to m) - pawn_dir (side_to_move b)"
      and cap: "is_en_passant_capture p m b"
      using ep p(2) by (auto simp: en_passant_move_def is_en_passant_capture_def)
    have "has_piece b ?x Pawn (opposite (side_to_move b))"
      using ep_rank(2) [OF \<open>ep_ok b\<close> e(1)] e(3) by simp
    moreover have "piece_at (apply_board m b) ?x = None"
      using moved_en_passant [OF ok v(1,2) cap] by (simp add: sq)
    moreover have "s = m_to m \<or> s = ?x"
      using s ep by (auto simp: touched_def en_passant_move_def is_castle_def is_en_passant_capture_def)
    ultimately show ?thesis using e(2) by (auto simp: has_piece_def split: option.splits)
  next
    case cas
    define r where "r = home_rank (pcolor p)"
    have r: "r \<in> {0, 7}" by (simp add: r_def home_rank_def)
    obtain f where f: "f \<in> {2, 6}" "m_to m = Square f r" "m_from m = Square 4 r" "ptype p = King"
      using cas by (auto simp: castle_move_def r_def)
    have rook: "f = 6 \<Longrightarrow> has_piece b (Square 7 r) Rook (pcolor p) \<and> piece_at b (Square 5 r) = None \<and>
        piece_at b (Square 6 r) = None"
      "f = 2 \<Longrightarrow> has_piece b (Square 0 r) Rook (pcolor p) \<and> piece_at b (Square 3 r) = None \<and>
        piece_at b (Square 2 r) = None"
      using cas rights f(2) by (auto simp: castle_move_def rights_ok_def r_def)
    have after: "piece_at (apply_board m b) t =
      (if t = Square (if f = 6 then 5 else 3) r then Some \<lparr>ptype = Rook, pcolor = pcolor p\<rparr>
       else if t = Square (if f = 6 then 7 else 0) r then None
       else if t = Square f r then Some (moved_piece p m) else if t = Square 4 r then None
       else piece_at b t)" for t
      unfolding sq by (rule moved_castle [OF ok f(3,2,1) r f(4)])
    have "s \<in> (if f = 6 then {Square 6 r, Square 5 r, Square 7 r} else {Square 2 r, Square 3 r, Square 0 r})"
      using s f castle_is_castle [OF cas] by (auto simp: touched_def split: if_splits)
    then show ?thesis using f(1,2) rook after
      by (auto simp: has_piece_iff split: if_splits)
  qed
  then show "\<not> has_piece b s King c"
    and "s \<noteq> m_to m \<Longrightarrow> \<not> has_piece (apply_board m b) s King c" by simp_all
qed

text \<open>Where the kings are after a move.\<close>

lemma kings_after:
  assumes inv: "chess_inv b" and p: "piece_at b (m_from m) = Some p" "pcolor p = side_to_move b"
    and kind: "ordinary b p m \<or> en_passant_move b p m \<or> castle_move b p m"
  shows "has_piece (apply_board m b) s King c \<longleftrightarrow>
    (if ptype p = King \<and> c = side_to_move b then s = m_to m else has_piece b s King c)"
proof -
  have ok: "board_ok b" using inv by (simp add: chess_inv_def)
  note v = kind_valid [OF kind]
  note after = piece_after [OF ok p(1) kind]
  have none: "\<not> has_piece b (m_to m) King d" for d
    by (rule touched_no_king(1) [OF inv p kind]) (use v in \<open>auto simp: touched_def\<close>)
  have moved: "ptype (moved_piece p m) = King \<longleftrightarrow> ptype p = King" "pcolor (moved_piece p m) = pcolor p"
    using kind by (auto simp: ordinary_def en_passant_move_def castle_move_def moved_piece_def)
  have unique: "ptype p = King \<Longrightarrow> has_piece b s King (pcolor p) \<Longrightarrow> s = m_from m"
  proof -
    assume "ptype p = King" and s: "has_piece b s King (pcolor p)"
    then have "has_piece b (m_from m) King (pcolor p)" using p by (simp add: has_piece_def)
    then show ?thesis using s inv unfolding chess_inv_def king_on_def by metis
  qed
  consider "s = m_to m" | "s = m_from m" | "s \<notin> touched b p m"
    | "s \<in> touched b p m" "s \<noteq> m_to m" "s \<noteq> m_from m" by blast
  then show ?thesis
  proof cases
    case 1
    then show ?thesis using none after(2) moved p(2) by (auto simp: has_piece_def)
  next
    case 2
    then show ?thesis using after(3) v(3) p by (auto simp: has_piece_def)
  next
    case 3
    then have "s \<noteq> m_to m" "s \<noteq> m_from m" by (auto simp: touched_def)
    then show ?thesis using after(1) [OF 3] unique p(2) by (auto simp: has_piece_def split: option.splits)
  next
    case 4
    then show ?thesis using touched_no_king [OF inv p kind 4(1,3)] by auto
  qed
qed

lemma one_king_after:
  assumes "chess_inv b" and "piece_at b (m_from m) = Some p" "pcolor p = side_to_move b"
    and "ordinary b p m \<or> en_passant_move b p m \<or> castle_move b p m"
  shows "\<exists>k. king_on (apply_board m b) c k"
proof -
  obtain k where "king_on b c k" using assms(1) by (auto simp: chess_inv_def)
  then show ?thesis using kings_after [OF assms]
    by (cases "ptype p = King \<and> c = side_to_move b") (auto simp: king_on_def)
qed

text \<open>A right that survives the move was held before, and neither its king nor its corner moved.\<close>

lemma rights_after:
  assumes "piece_at b (m_from m) = Some p"
  shows "can_castle_k c (apply_board m b) \<longleftrightarrow> can_castle_k c b \<and> \<not> (ptype p = King \<and> pcolor p = c) \<and>
      Square 7 (home_rank c) \<notin> {m_from m, m_to m}"
    and "can_castle_q c (apply_board m b) \<longleftrightarrow> can_castle_q c b \<and> \<not> (ptype p = King \<and> pcolor p = c) \<and>
      Square 0 (home_rank c) \<notin> {m_from m, m_to m}"
proof -
  have frame: "can_castle_k c (move_pieces p m b) = can_castle_k c b"
    "can_castle_q c (move_pieces p m b) = can_castle_q c b"
    by (simp_all add: move_pieces_def move_castling_rook_def set_piece_def can_castle_k_def
        can_castle_q_def Let_def)
  have end_simps: "can_castle_k c (apply_board m b) = can_castle_k c (update_rights p m (move_pieces p m b))"
    "can_castle_q c (apply_board m b) = can_castle_q c (update_rights p m (move_pieces p m b))"
    using assms by (simp_all add: apply_board_def can_castle_k_def can_castle_q_def)
  show "can_castle_k c (apply_board m b) \<longleftrightarrow> can_castle_k c b \<and> \<not> (ptype p = King \<and> pcolor p = c) \<and>
      Square 7 (home_rank c) \<notin> {m_from m, m_to m}"
    unfolding end_simps frame [symmetric]
    by (cases c; cases "pcolor p")
      (auto simp: update_rights_def revoke_castling_right_if_corner_touched_def can_castle_k_def
        set_castle_k_def set_castle_q_def home_rank_def)
  show "can_castle_q c (apply_board m b) \<longleftrightarrow> can_castle_q c b \<and> \<not> (ptype p = King \<and> pcolor p = c) \<and>
      Square 0 (home_rank c) \<notin> {m_from m, m_to m}"
    unfolding end_simps frame [symmetric]
    by (cases c; cases "pcolor p")
      (auto simp: update_rights_def revoke_castling_right_if_corner_touched_def can_castle_q_def
        set_castle_k_def set_castle_q_def home_rank_def)
qed

text \<open>The squares a move touches besides its two ends.\<close>

lemma touched_others:
  assumes inv: "chess_inv b" and p: "piece_at b (m_from m) = Some p" "pcolor p = side_to_move b"
    and kind: "ordinary b p m \<or> en_passant_move b p m \<or> castle_move b p m"
    and s: "s \<in> touched b p m" "s \<noteq> m_from m" "s \<noteq> m_to m"
  shows "has_piece b s Pawn (opposite (pcolor p)) \<or>
    ptype p = King \<and> s_rank s = home_rank (pcolor p)"
proof -
  consider (ord) "ordinary b p m" | (ep) "en_passant_move b p m" | (cas) "castle_move b p m"
    using kind by blast
  then show ?thesis
  proof cases
    case ord
    then show ?thesis using s by (auto simp: touched_def ordinary_def)
  next
    case ep
    have e: "ep_ok b" "en_passant b = Some (m_to m)"
      using inv ep by (auto simp: chess_inv_def en_passant_move_def is_en_passant_capture_def)
    have "s = Square (s_file (m_to m)) (s_rank (m_to m) - pawn_dir (pcolor p))"
      using ep s by (auto simp: touched_def en_passant_move_def is_castle_def is_en_passant_capture_def)
    then show ?thesis using ep_rank(2) [OF e] p(2) by simp
  next
    case cas
    then show ?thesis using s castle_is_castle [OF cas]
      by (auto simp: touched_def castle_move_def split: if_splits)
  qed
qed

lemma rights_preserved:
  assumes inv: "chess_inv b" and p: "piece_at b (m_from m) = Some p" "pcolor p = side_to_move b"
    and kind: "ordinary b p m \<or> en_passant_move b p m \<or> castle_move b p m"
  shows "rights_ok (apply_board m b)"
proof -
  have ok: "board_ok b" and rights: "rights_ok b" using inv by (simp_all add: chess_inv_def)
  have king: "has_piece (apply_board m b) (Square 4 (home_rank c)) King c"
    if "has_piece b (Square 4 (home_rank c)) King c" "\<not> (ptype p = King \<and> pcolor p = c)" for c
    using that p(2) unfolding kings_after [OF inv p kind] by metis
  have rook: "has_piece (apply_board m b) (Square f (home_rank c)) Rook c"
    if r: "has_piece b (Square f (home_rank c)) Rook c" "\<not> (ptype p = King \<and> pcolor p = c)"
      "Square f (home_rank c) \<notin> {m_from m, m_to m}" for c f
  proof -
    have "Square f (home_rank c) \<notin> touched b p m"
    proof
      assume "Square f (home_rank c) \<in> touched b p m"
      from touched_others [OF inv p kind this] r show False
        by (cases c; cases "pcolor p") (auto simp: has_piece_iff home_rank_def)
    qed
    from piece_after(1) [OF ok p(1) kind this] r(1) show ?thesis by (simp add: has_piece_def)
  qed
  show ?thesis
    unfolding rights_ok_def rights_after [OF p(1)]
    using rights king rook unfolding rights_ok_def by blast
qed

lemma pawn_double:
  assumes "ptype p = Pawn" and "m \<in> set (pseudo_legal_moves p s b)"
    and "\<bar>s_rank (m_to m) - s_rank (m_from m)\<bar> = 2"
  shows "m = plain s (step_by s (0, pawn_dir (pcolor p) * 2))"
    and "s_rank s = (if pcolor p = White then 1 else 6)"
    and "piece_at b (step_by s (0, pawn_dir (pcolor p))) = None"
proof -
  have "m \<in> set (pawn_moves (pcolor p) s b)" using assms(1,2) by simp
  then have "m = plain s (step_by s (0, pawn_dir (pcolor p) * 2)) \<and>
    s_rank s = (if pcolor p = White then 1 else 6) \<and>
    piece_at b (step_by s (0, pawn_dir (pcolor p))) = None"
    by (cases rule: pawn_moves_cases)
      (use assms(3) pawn_dir_cases(1) [of "pcolor p"] in \<open>auto simp: step_by_def\<close>)
  then show "m = plain s (step_by s (0, pawn_dir (pcolor p) * 2))"
    and "s_rank s = (if pcolor p = White then 1 else 6)"
    and "piece_at b (step_by s (0, pawn_dir (pcolor p))) = None" by simp_all
qed

lemma ep_preserved:
  assumes inv: "chess_inv b" and p: "piece_at b s = Some p" "pcolor p = side_to_move b"
    and m: "m \<in> set (pseudo_legal_moves p s b)"
  shows "ep_ok (apply_board m b)"
proof -
  have ok: "board_ok b" using inv by (simp add: chess_inv_def)
  have from_s: "m_from m = s" and kind: "ordinary b p m \<or> en_passant_move b p m \<or> castle_move b p m"
    using move_kinds [OF inv p m] by blast+
  note after = piece_after [OF ok p(1) [folded from_s] kind]
  have "s_rank e = (if side_to_move (apply_board m b) = White then 5 else 2) \<and>
    piece_at (apply_board m b) e = None \<and>
    has_piece (apply_board m b)
      (Square (s_file e) (s_rank e - pawn_dir (side_to_move (apply_board m b)))) Pawn
      (opposite (side_to_move (apply_board m b)))"
    if "en_passant (apply_board m b) = Some e" for e
  proof -
    have pawn: "ptype p = Pawn" "\<bar>s_rank (m_to m) - s_rank (m_from m)\<bar> = 2"
      and e: "e = Square (s_file s) ((s_rank s + s_rank (m_to m)) div 2)"
      using that p(1) from_s by (auto simp: apply_board_def split: if_splits)
    note d = pawn_double [OF pawn(1) m pawn(2)]
    have to: "m_to m = Square (s_file s) (s_rank s + pawn_dir (pcolor p) * 2)"
      using d(1) by (simp add: step_by_def)
    have e': "e = step_by s (0, pawn_dir (pcolor p))"
      using e to pawn_dir_cases(1) [of "pcolor p"] by (auto simp: step_by_def)
    have side: "side_to_move (apply_board m b) = opposite (pcolor p)"
      using p from_s by (simp add: apply_board_def)
    have ends: "e \<noteq> m_from m" "e \<noteq> m_to m"
      using e' to from_s pawn_dir_cases(2) [of "pcolor p"] by (auto simp: step_by_def square_eq_iff)
    have "e \<notin> touched b p m"
    proof
      assume "e \<in> touched b p m"
      from touched_others [OF inv p(1) [folded from_s] p(2) kind this ends] show False
        using pawn(1) d(3) e' by (simp add: has_piece_def)
    qed
    then have "piece_at (apply_board m b) e = None" using after(1) d(3) e' by simp
    moreover have "has_piece (apply_board m b) (m_to m) Pawn (pcolor p)"
      using after(2) d(1) pawn(1) by (simp add: has_piece_def moved_piece_def)
    moreover have "Square (s_file e) (s_rank e - pawn_dir (opposite (pcolor p))) = m_to m"
      using e' to by (cases "pcolor p") (simp_all add: step_by_def pawn_dir_def)
    moreover have "s_rank e = (if opposite (pcolor p) = White then 5 else 2)"
      using e' d(2) by (cases "pcolor p") (simp_all add: step_by_def pawn_dir_def)
    ultimately show ?thesis unfolding side opposite_opposite by simp
  qed
  then show ?thesis unfolding ep_ok_def by blast
qed

lemma legal_movesD:
  assumes "m \<in> set (legal_moves b)"
  obtains s p where "piece_at b s = Some p" "pcolor p = side_to_move b"
    "m \<in> set (pseudo_legal_moves p s b)" "\<not> is_king_in_check (side_to_move b) (apply_board m b)"
proof -
  from assms obtain s where s: "m \<in> set (case piece_at b s of
      Some p \<Rightarrow> if pcolor p = side_to_move b then pseudo_legal_moves p s b else [] | None \<Rightarrow> [])"
    and safe: "\<not> is_king_in_check (side_to_move b) (apply_board m b)"
    by (auto simp: legal_moves_def all_pseudo_legal_def simp del: pseudo_legal_moves.simps)
  then show ?thesis
    by (cases "piece_at b s") (auto simp del: pseudo_legal_moves.simps intro: that split: if_splits)
qed

lemma legal_move_preserves:
  assumes inv: "chess_inv b" and m: "m \<in> set (legal_moves b)"
  shows "chess_inv (apply_board m b)" and "side_to_move (apply_board m b) = opposite (side_to_move b)"
proof -
  from m obtain s p where p: "piece_at b s = Some p" "pcolor p = side_to_move b"
    and pm: "m \<in> set (pseudo_legal_moves p s b)"
    and safe: "\<not> is_king_in_check (side_to_move b) (apply_board m b)" by (rule legal_movesD)
  note k = move_kinds [OF inv p pm]
  note pf = p(1) [folded k(1)]
  have side: "side_to_move (apply_board m b) = opposite (side_to_move b)"
    using pf by (simp add: apply_board_def)
  have "board_ok b" using inv by (simp add: chess_inv_def)
  then have "board_ok (apply_board m b)" by (rule piece_after(4) [OF _ pf k(2)])
  then show "chess_inv (apply_board m b)"
    using one_king_after [OF inv pf p(2) k(2)] rights_preserved [OF inv pf p(2) k(2)]
      ep_preserved [OF inv p pm] safe side by (simp add: chess_inv_def)
  show "side_to_move (apply_board m b) = opposite (side_to_move b)" by (rule side)
qed

section \<open>Positions of legal play\<close>

inductive reachable_board :: "board \<Rightarrow> bool" where
  start: "reachable_board initial_board"
| play: "reachable_board b \<Longrightarrow> m \<in> set (legal_moves b) \<Longrightarrow> reachable_board (apply_board m b)"

lemma initial_pieces:
  "piece_at initial_board s =
     (if \<not> is_valid s then None
      else if s_rank s = 0 then Some \<lparr>ptype = back_rank ! nat (s_file s), pcolor = White\<rparr>
      else if s_rank s = 1 then Some \<lparr>ptype = Pawn, pcolor = White\<rparr>
      else if s_rank s = 6 then Some \<lparr>ptype = Pawn, pcolor = Black\<rparr>
      else if s_rank s = 7 then Some \<lparr>ptype = back_rank ! nat (s_file s), pcolor = Black\<rparr>
      else None)"
proof (cases "is_valid s")
  case True
  then have "s_rank s \<in> {0, 1, 2, 3, 4, 5, 6, 7}" "nat (s_file s) < length back_rank"
    by (auto simp: is_valid_def back_rank_def)
  moreover have "length back_rank = 8" by (simp add: back_rank_def)
  ultimately show ?thesis using True
    by (auto simp: piece_at_def initial_board_def)
qed (simp add: piece_at_def)

lemma initial_king: "king_on initial_board c (Square 4 (home_rank c))"
proof -
  have king_file: "back_rank ! nat f = King \<longleftrightarrow> f = 4" if "0 \<le> f" "f \<le> 7" for f :: int
  proof -
    have "f \<in> {0, 1, 2, 3, 4, 5, 6, 7}" using that by auto
    then show ?thesis by (auto simp: back_rank_def)
  qed
  show ?thesis
    unfolding king_on_def
    by (cases c) (auto simp: has_piece_iff initial_pieces home_rank_def king_file is_valid_def square_eq_iff)
qed

lemma initial_inv: "chess_inv initial_board"
proof -
  have "board_ok initial_board" by (simp add: board_ok_def initial_board_def back_rank_def)
  moreover have "\<not> is_king_in_check Black initial_board" by code_simp
  moreover have "rights_ok initial_board"
  proof -
    have "has_piece initial_board (Square 4 (home_rank c)) King c" for c
      using initial_king by (simp add: king_on_def)
    moreover have "has_piece initial_board (Square 7 (home_rank c)) Rook c"
      "has_piece initial_board (Square 0 (home_rank c)) Rook c" for c
      by (cases c; simp add: has_piece_iff initial_pieces home_rank_def is_valid_def back_rank_def)+
    ultimately show ?thesis by (simp add: rights_ok_def)
  qed
  moreover have "ep_ok initial_board" by (simp add: ep_ok_def initial_board_def)
  moreover have "side_to_move initial_board = White" by (simp add: initial_board_def)
  ultimately show ?thesis using initial_king by (auto simp: chess_inv_def)
qed

lemma reachable_inv: "reachable_board b \<Longrightarrow> chess_inv b"
  by (induction rule: reachable_board.induct) (blast intro: initial_inv legal_move_preserves(1))+

end
