(* ===== verification/Rust_Strings.thy ===== *)
theory Rust_Strings
  imports Rust_Std
begin

text \<open>
  The \<open>str\<close> functions the web server uses, on UTF-8 bytes: substring search, character count, ASCII
  case, splitting at white space, decimal and hexadecimal formatting.
\<close>

section \<open>Searching and counting\<close>

text \<open>\<open>s.contains(p)\<close>.\<close>

fun contains_str :: "bytes \<Rightarrow> bytes \<Rightarrow> bool" where
  "contains_str p [] \<longleftrightarrow> p = []"
| "contains_str p (b # r) \<longleftrightarrow> starts_with p (b # r) \<or> contains_str p r"

lemma contains_str_iff: "contains_str p s \<longleftrightarrow> (\<exists>a z. s = a @ p @ z)"
proof (induction s)
  case Nil
  then show ?case by auto
next
  case (Cons b r)
  show ?case (is "?L = ?R")
  proof
    assume ?L
    then consider z where "b # r = p @ z" | a z where "r = a @ p @ z"
      using Cons.IH by (auto simp: starts_with_iff)
    then show ?R
    proof cases
      case (1 z)
      then show ?thesis by (metis append_Nil)
    next
      case (2 a z)
      then show ?thesis by (metis append_Cons)
    qed
  next
    assume ?R
    then obtain a z where e: "b # r = a @ p @ z" by blast
    show ?L
    proof (cases a)
      case Nil
      with e have "starts_with p (b # r)" unfolding starts_with_iff by auto
      then show ?thesis by simp
    next
      case (Cons c a')
      with e have "\<exists>a z. r = a @ p @ z" by auto
      with Cons.IH show ?thesis by simp
    qed
  qed
qed

text \<open>\<open>s.chars().count()\<close>: every byte that does not continue a character starts one.\<close>

definition chars_count :: "bytes \<Rightarrow> nat" where
  "chars_count s = length (filter (\<lambda>b. \<not> is_cont b) s)"

lemma chars_count_le: "chars_count s \<le> length s"
  by (simp add: chars_count_def)

text \<open>\<open>to_ascii_lowercase\<close> and its inverse.\<close>

definition ascii_lower :: "u8 \<Rightarrow> u8" where
  "ascii_lower b = (if 65 \<le> b \<and> b \<le> 90 then b + 32 else b)"

definition ascii_upper :: "u8 \<Rightarrow> u8" where
  "ascii_upper b = (if is_ascii_lowercase b then b - 32 else b)"

section \<open>White space\<close>

definition is_ascii_space :: "u8 \<Rightarrow> bool" where
  "is_ascii_space b \<longleftrightarrow> 9 \<le> b \<and> b \<le> 13 \<or> b = 32"

text \<open>
  The length in bytes of the Unicode white-space character a string starts with, 0 when it
  starts with none: U+0085, U+00A0, U+1680, U+2000 to U+200A, U+2028, U+2029, U+202F, U+205F, U+3000.
\<close>

definition space_len :: "bytes \<Rightarrow> nat" where
  "space_len s =
     (if s = [] then 0
      else if is_ascii_space (hd s) then 1
      else if take 2 s \<in> {[0xC2, 0x85], [0xC2, 0xA0]} then 2
      else if take 3 s \<in> {[0xE1, 0x9A, 0x80], [0xE2, 0x80, 0xA8], [0xE2, 0x80, 0xA9], [0xE2, 0x80, 0xAF],
                          [0xE2, 0x81, 0x9F], [0xE3, 0x80, 0x80]} \<or>
              take 2 s = [0xE2, 0x80] \<and> 3 \<le> length s \<and> 0x80 \<le> s ! 2 \<and> s ! 2 \<le> 0x8A then 3
      else 0)"

text \<open>\<open>s.split_whitespace()\<close>, from the pieces of a token already read.\<close>

function ws_tokens :: "bytes \<Rightarrow> bytes \<Rightarrow> bytes list" where
  "ws_tokens acc [] = (if acc = [] then [] else [acc])"
| "ws_tokens acc (b # r) =
     (if space_len (b # r) = 0 then ws_tokens (acc @ [b]) r
      else (if acc = [] then [] else [acc]) @ ws_tokens [] (drop (space_len (b # r)) (b # r)))"
  by pat_completeness auto
termination
  by (relation "measure (\<lambda>(acc, s). length s)") auto

definition split_whitespace :: "bytes \<Rightarrow> bytes list" where
  "split_whitespace s = ws_tokens [] s"

text \<open>\<open>trim\<close> of an ASCII string.\<close>

definition ascii_trim :: "bytes \<Rightarrow> bytes" where
  "ascii_trim s = rev (dropWhile is_ascii_space (rev (dropWhile is_ascii_space s)))"

text \<open>\<open>s.trim()\<close>: white-space characters taken off the front, then off the end.\<close>

function trim_start :: "bytes \<Rightarrow> bytes" where
  "trim_start s = (if space_len s = 0 then s else trim_start (drop (space_len s) s))"
  by pat_completeness auto
termination
  by (relation "measure length") (auto simp: space_len_def split: if_splits)

text \<open>The length of the white-space character a string ends with.\<close>

definition last_space_len :: "bytes \<Rightarrow> nat" where
  "last_space_len s =
     (if 1 \<le> length s \<and> space_len (drop (length s - 1) s) = 1 then 1
      else if 2 \<le> length s \<and> space_len (drop (length s - 2) s) = 2 then 2
      else if 3 \<le> length s \<and> space_len (drop (length s - 3) s) = 3 then 3 else 0)"

function trim_end :: "bytes \<Rightarrow> bytes" where
  "trim_end s = (if last_space_len s = 0 then s else trim_end (take (length s - last_space_len s) s))"
  by pat_completeness auto
termination
  by (relation "measure length") (auto simp: last_space_len_def split: if_splits)

declare trim_start.simps [simp del] trim_end.simps [simp del]

definition str_trim :: "bytes \<Rightarrow> bytes" where
  "str_trim s = trim_end (trim_start s)"

section \<open>Formatting\<close>

text \<open>Decimal digits, most significant first.\<close>

fun show_nat :: "nat \<Rightarrow> bytes" where
  "show_nat n =
     (if n < 10 then [48 + word_of_nat n] else show_nat (n div 10) @ [48 + word_of_nat (n mod 10)])"

declare show_nat.simps [simp del]

definition show_int :: "int \<Rightarrow> bytes" where
  "show_int n = (if n < 0 then 45 # show_nat (nat (- n)) else show_nat (nat n))"

definition hex_digit :: "nat \<Rightarrow> u8" where
  "hex_digit n = (if n < 10 then 48 + word_of_nat n else 87 + word_of_nat n)"

text \<open>\<open>format!("{:02x}", b)\<close> of each byte.\<close>

definition hex_of :: "bytes \<Rightarrow> bytes" where
  "hex_of s = concat (map (\<lambda>b. [hex_digit (unat b div 16), hex_digit (unat b mod 16)]) s)"

lemma length_hex_of [simp]: "length (hex_of s) = 2 * length s"
  by (induction s) (simp_all add: hex_of_def)

lemma digit_shown: "n < 10 \<Longrightarrow> digit_of (48 + word_of_nat n) = Some n"
proof -
  assume n: "n < 10"
  then have u: "unat (48 + word_of_nat n :: u8) = 48 + n" by (simp add: unat_word_ariths unat_of_nat)
  have "is_ascii_digit (48 + word_of_nat n)"
    unfolding is_ascii_digit_def word_le_nat_alt u using n by simp
  then show ?thesis using u by (simp add: digit_of_def)
qed

lemma digits_of_append:
  "digits_of acc (xs @ ys) = (case digits_of acc xs of None \<Rightarrow> None | Some k \<Rightarrow> digits_of k ys)"
  by (induction xs arbitrary: acc) (auto split: option.splits)

lemma digits_of_show: "digits_of 0 (show_nat n) = Some n"
proof (induction n rule: show_nat.induct)
  case (1 n)
  show ?case
  proof (cases "n < 10")
    case True
    then show ?thesis by (simp add: show_nat.simps [of n] digit_shown)
  next
    case False
    then have "digits_of 0 (show_nat n) = digits_of (n div 10) [48 + word_of_nat (n mod 10)]"
      using 1 by (simp add: show_nat.simps [of n] digits_of_append)
    also have "\<dots> = Some n" by (simp add: digit_shown)
    finally show ?thesis .
  qed
qed

lemma show_nat_digits: "b \<in> set (show_nat n) \<Longrightarrow> is_ascii_digit b"
proof (induction n rule: show_nat.induct)
  case (1 n)
  have "is_ascii_digit (48 + word_of_nat (n mod 10))"
    using digit_shown [of "n mod 10"] by (auto simp: digit_of_def split: if_splits)
  moreover have "n < 10 \<Longrightarrow> n mod 10 = n" by simp
  ultimately show ?case using 1 by (subst (asm) show_nat.simps) (auto split: if_splits)
qed

lemma show_nat_neq_Nil [simp]: "show_nat n \<noteq> []"
  by (subst show_nat.simps) simp

lemma show_nat_inj [simp]: "show_nat m = show_nat n \<longleftrightarrow> m = n"
  by (metis digits_of_show option.inject)

lemma show_int_inj [simp]: "show_int m = show_int n \<longleftrightarrow> m = n"
proof -
  have "45 # s \<noteq> show_nat k" for s k
  proof
    assume "45 # s = show_nat k"
    then have "45 \<in> set (show_nat k)" by (metis list.set_intros(1))
    then show False using show_nat_digits by (fastforce simp: is_ascii_digit_def)
  qed
  from this this [symmetric] show ?thesis by (auto simp: show_int_def)
qed

text \<open>\<open>n.to_string().parse()\<close>.\<close>

lemma parse_show_i64:
  assumes "0 \<le> n" and "n < 2 ^ 63"
  shows "map_option sint (parse_i64 (show_int n)) = Some n"
proof -
  obtain b r where e: "show_nat (nat n) = b # r" by (meson neq_Nil_conv show_nat_neq_Nil)
  then have "is_ascii_digit b" using show_nat_digits [of b "nat n"] by simp
  then have "b \<noteq> 45" "b \<noteq> 43" by (auto simp: is_ascii_digit_def)
  moreover have "magnitude_of (b # r) = Some (nat n)"
    using digits_of_show [of "nat n"] e by (simp add: magnitude_of_def)
  moreover have "sint (word_of_int n :: i64) = n"
    using assms by (simp add: sint_sbintrunc' signed_take_bit_int_eq_self)
  ultimately show ?thesis using assms e by (simp add: parse_i64_def show_int_def)
qed

end
