(* ===== verification/Chess_Tournament.thy ===== *)
theory Chess_Tournament
  imports Chess_Invariant Rust_Strings Store "HOL-Library.List_Lexorder" "HOL-Library.Product_Lexorder"
begin

text \<open>
  The tournament reducer of \<open>kachat-webserver/src/chess.rs\<close> (lines 625-1330): the wire messages of
  the arena channel, rooms, seats, the bracket, clocks, and the replay of the rows in chain order.
  Times are the millisecond \<open>i64\<close> of the source as integers; strings are UTF-8 bytes. SHA-256 and the
  JSON decoder are arguments.
\<close>

section \<open>Moves on the wire\<close>

text \<open>
  Lower-casing is that of ASCII: no other character has a lower case that starts with a letter
  \<open>a\<close> to \<open>h\<close> or is one of \<open>q r b n\<close>.
\<close>

definition from_promotion_letter :: "bytes option \<Rightarrow> piece_type option" where
  "from_promotion_letter letter =
     (case map_option (map ascii_lower) letter of
        None \<Rightarrow> None
      | Some s \<Rightarrow>
          if s = ascii ''q'' then Some Queen else if s = ascii ''r'' then Some Rook
          else if s = ascii ''b'' then Some Bishop else if s = ascii ''n'' then Some Knight else None)"

definition from_algebraic :: "bytes \<Rightarrow> square option" where
  "from_algebraic s =
     (case map ascii_lower s of
        [f, r] \<Rightarrow>
          if \<not> (97 \<le> f \<and> f \<le> 104) then None
          else (case digit_of r of
                  None \<Rightarrow> None
                | Some d \<Rightarrow> if \<not> (1 \<le> d \<and> d \<le> 8) then None
                            else Some (Square (int (unat f) - 97) (int d - 1)))
      | _ \<Rightarrow> None)"

definition algebraic :: "square \<Rightarrow> bytes" where
  "algebraic s = (97 + word_of_int (s_file s)) # show_int (s_rank s + 1)"

section \<open>Rules of time and rooms\<close>

definition arena_channel :: bytes where "arena_channel = ascii ''chess-arena''"
definition player_count :: int where "player_count = 8"
definition clock_ms :: int where "clock_ms = 5 * 60 * 1000"
definition move_delay_ms :: int where "move_delay_ms = 10 * 1000"
definition first_move_grace_ms :: int where "first_move_grace_ms = 25 * 1000"
definition allowance_from_ms :: int where "allowance_from_ms = 1790208000000"
definition allowance_v2_from_ms :: int where "allowance_v2_from_ms = 1790280000000"
definition seat_ttl_ms :: int where "seat_ttl_ms = 5 * 60 * 1000"
definition public_id_prefix :: bytes where "public_id_prefix = ascii ''public-''"
definition duel_id_prefix :: bytes where "duel_id_prefix = ascii ''duel-''"
definition private_create_code :: bytes where "private_create_code = ascii ''KACHAT-CHESS''"

definition allowance_ms :: "nat \<Rightarrow> int \<Rightarrow> int" where
  "allowance_ms ply started =
     (if started \<ge> allowance_v2_from_ms then move_delay_ms
      else if started < allowance_from_ms then 0
      else if ply \<le> 2 then first_move_grace_ms else move_delay_ms)"

definition number_of :: "bytes \<Rightarrow> bytes \<Rightarrow> int option" where
  "number_of id_str prefix =
     (case strip_prefix prefix id_str of
        None \<Rightarrow> None
      | Some rest \<Rightarrow>
          (case parse_i64 rest of
             None \<Rightarrow> None
           | Some n \<Rightarrow> if sint n \<ge> 1 then Some (sint n) else None))"

definition public_number :: "bytes \<Rightarrow> int option" where
  "public_number id_str = number_of id_str public_id_prefix"

definition duel_number :: "bytes \<Rightarrow> int option" where
  "duel_number id_str = number_of id_str duel_id_prefix"

definition public_id :: "int \<Rightarrow> bytes" where
  "public_id n = public_id_prefix @ show_int n"

definition duel_id :: "int \<Rightarrow> bytes" where
  "duel_id n = duel_id_prefix @ show_int n"

definition is_public_id :: "bytes \<Rightarrow> bool" where
  "is_public_id id_str \<longleftrightarrow> public_number id_str \<noteq> None \<or> duel_number id_str \<noteq> None"

text \<open>Only the constant, an ASCII string, is ever passed as the code.\<close>

definition create_key :: "(bytes \<Rightarrow> bytes) \<Rightarrow> bytes \<Rightarrow> bytes \<Rightarrow> bytes" where
  "create_key sha256 code id_str =
     take 24 (hex_of (sha256 (map ascii_upper (ascii_trim code) @ ascii '':'' @ id_str)))"

definition is_valid_create_key :: "(bytes \<Rightarrow> bytes) \<Rightarrow> bytes option \<Rightarrow> bytes \<Rightarrow> bool" where
  "is_valid_create_key sha256 key id_str \<longleftrightarrow>
     (case key of Some k \<Rightarrow> k = create_key sha256 private_create_code id_str | None \<Rightarrow> False)"

section \<open>Messages\<close>

record tournament_message =
  msg_type :: bytes
  msg_v :: int
  msg_t :: bytes
  msg_a :: bytes
  msg_name :: "bytes option"
  msg_g :: "bytes option"
  msg_n :: "int option"
  msg_from :: "bytes option"
  msg_to :: "bytes option"
  msg_promo :: "bytes option"
  msg_text :: "bytes option"
  msg_k :: "bytes option"
  msg_p :: "int option"

definition decode_message :: "(bytes \<Rightarrow> tournament_message option) \<Rightarrow> bytes \<Rightarrow> tournament_message option" where
  "decode_message from_json content =
     (if chars_count content > 2048 \<or> \<not> starts_with (ascii ''{'') content \<or>
         \<not> contains_str (ascii [CHR 0x22] @ ascii ''chess_t'' @ ascii [CHR 0x22]) content then None
      else case from_json content of
             None \<Rightarrow> None
           | Some m \<Rightarrow>
               if msg_type m \<noteq> ascii ''chess_t'' \<or> msg_v m \<noteq> 1 \<or> msg_t m = [] \<or> length (msg_t m) > 64
               then None else Some m)"

record arena_event =
  ae_tx_id :: bytes
  ae_sender :: bytes
  ae_block_time :: int
  ae_message :: tournament_message

definition to_arena_event ::
  "(bytes \<Rightarrow> tournament_message option) \<Rightarrow> bytes \<Rightarrow> bytes \<Rightarrow> int \<Rightarrow> bytes \<Rightarrow> arena_event option" where
  "to_arena_event from_json tx_id sender block_time content =
     (case decode_message from_json content of
        None \<Rightarrow> None
      | Some m \<Rightarrow> Some \<lparr>ae_tx_id = tx_id, ae_sender = sender, ae_block_time = block_time, ae_message = m\<rparr>)"

section \<open>Games and rooms\<close>

datatype outcome = Checkmate | Resignation | Timeout | Draw_Tiebreak

record game =
  g_round :: int
  g_index :: int
  g_white :: bytes
  g_black :: bytes
  g_board :: board
  g_started_at :: int
  g_moves_count :: nat
  g_white_used :: int
  g_black_used :: int
  g_last_event_at :: int
  g_winner :: "bytes option"
  g_outcome :: "outcome option"
  g_ended_at :: "int option"
  g_position_counts :: "(bytes, int) hash_map"
  g_halfmove_clock :: int

definition is_over :: "game \<Rightarrow> bool" where
  "is_over g \<longleftrightarrow> g_winner g \<noteq> None"

definition g_side :: "game \<Rightarrow> color" where
  "g_side g = side_to_move (g_board g)"

definition player_to_move :: "game \<Rightarrow> bytes" where
  "player_to_move g = (if g_side g = White then g_white g else g_black g)"

definition address_of :: "game \<Rightarrow> color \<Rightarrow> bytes" where
  "address_of g c = (if c = White then g_white g else g_black g)"

definition color_of :: "game \<Rightarrow> bytes \<Rightarrow> color option" where
  "color_of g a = (if a = g_white g then Some White else if a = g_black g then Some Black else None)"

definition charged_ms :: "game \<Rightarrow> int \<Rightarrow> int" where
  "charged_ms g elapsed = max (elapsed - allowance_ms (g_moves_count g + 1) (g_started_at g)) 0"

definition used_ms :: "game \<Rightarrow> color \<Rightarrow> int" where
  "used_ms g c = (if c = White then g_white_used g else g_black_used g)"

record tournament =
  t_creator :: bytes
  t_created_at :: int
  t_capacity :: int
  t_started_at :: "int option"
  t_cancelled :: bool
  t_players :: "bytes list"
  t_joined_at :: "(bytes, int) hash_map"
  t_games :: "(bytes, game) hash_map"
  t_white_count :: "(bytes, int) hash_map"

text \<open>\<open>format!("{}-{}", round, index)\<close>.\<close>

definition game_id :: "int \<Rightarrow> int \<Rightarrow> bytes" where
  "game_id r i = show_int r @ ascii ''-'' @ show_int i"

definition is_duel :: "tournament \<Rightarrow> bool" where
  "is_duel t \<longleftrightarrow> t_capacity t = 2"

definition t_rounds :: "tournament \<Rightarrow> int" where
  "t_rounds t = (if is_duel t then 1 else 3)"

definition final_game_id :: "tournament \<Rightarrow> bytes" where
  "final_game_id t = game_id (t_rounds t) 0"

definition is_full :: "tournament \<Rightarrow> bool" where
  "is_full t \<longleftrightarrow> int (length (t_players t)) \<ge> t_capacity t"

definition seed_of :: "tournament \<Rightarrow> bytes \<Rightarrow> nat option" where
  "seed_of t a = map_option Suc (position (\<lambda>p. p = a) (t_players t))"

definition t_game :: "tournament \<Rightarrow> int \<Rightarrow> int \<Rightarrow> game option" where
  "t_game t r i = hm_get (t_games t) (game_id r i)"

definition champion :: "tournament \<Rightarrow> bytes option" where
  "champion t = Option.bind (hm_get (t_games t) (final_game_id t)) g_winner"

definition is_finished :: "tournament \<Rightarrow> bool" where
  "is_finished t \<longleftrightarrow> (case hm_get (t_games t) (final_game_id t) of Some g \<Rightarrow> is_over g | None \<Rightarrow> False)"

definition is_live :: "tournament \<Rightarrow> bool" where
  "is_live t \<longleftrightarrow> \<not> t_cancelled t \<and> t_started_at t \<noteq> None \<and> \<not> is_finished t"

definition is_open :: "tournament \<Rightarrow> bool" where
  "is_open t \<longleftrightarrow> \<not> t_cancelled t \<and> t_started_at t = None"

section \<open>Games starting and ending\<close>

definition piece_letter :: "piece_type \<Rightarrow> u8" where
  "piece_letter t =
     (case t of Pawn \<Rightarrow> 112 | Knight \<Rightarrow> 110 | Bishop \<Rightarrow> 98 | Rook \<Rightarrow> 114 | Queen \<Rightarrow> 113 | King \<Rightarrow> 107)"

definition square_letter :: "piece option \<Rightarrow> u8" where
  "square_letter p =
     (case p of
        None \<Rightarrow> 46
      | Some q \<Rightarrow> if pcolor q = White then ascii_upper (piece_letter (ptype q)) else piece_letter (ptype q))"

definition position_key :: "board \<Rightarrow> bytes" where
  "position_key b =
     map square_letter (concat (squares b)) @
     [if side_to_move b = White then 119 else 98,
      if white_castle_k b then 75 else 45, if white_castle_q b then 81 else 45,
      if black_castle_k b then 107 else 45, if black_castle_q b then 113 else 45] @
     (case en_passant b of Some s \<Rightarrow> algebraic s | None \<Rightarrow> ascii ''-'')"

definition make_game :: "int \<Rightarrow> int \<Rightarrow> bytes \<Rightarrow> bytes \<Rightarrow> int \<Rightarrow> game" where
  "make_game r i white black time =
     \<lparr>g_round = r, g_index = i, g_white = white, g_black = black, g_board = initial_board,
      g_started_at = time, g_moves_count = 0, g_white_used = 0, g_black_used = 0,
      g_last_event_at = time, g_winner = None, g_outcome = None, g_ended_at = None,
      g_position_counts = hm_insert (position_key initial_board) 1 [], g_halfmove_clock = 0\<rparr>"

definition finish :: "bytes \<Rightarrow> outcome \<Rightarrow> int \<Rightarrow> game \<Rightarrow> game" where
  "finish winner out time g = g\<lparr>g_winner := Some winner, g_outcome := Some out, g_ended_at := Some time\<rparr>"

definition finish_draw :: "int \<Rightarrow> game \<Rightarrow> game" where
  "finish_draw time g =
     (let white_left = clock_ms - g_white_used g; black_left = clock_ms - g_black_used g
      in finish (if white_left > black_left then g_white g else g_black g) Draw_Tiebreak time g)"

section \<open>The bracket\<close>

text \<open>\<open>*counts.entry(k).or_insert(0) += 1\<close>.\<close>

definition count_up :: "'k \<Rightarrow> ('k, int) hash_map \<Rightarrow> ('k, int) hash_map" where
  "count_up k m = hm_insert k ((case hm_get m k of Some n \<Rightarrow> n | None \<Rightarrow> 0) + 1) m"

definition add_game :: "int \<Rightarrow> int \<Rightarrow> bytes \<Rightarrow> bytes \<Rightarrow> int \<Rightarrow> tournament \<Rightarrow> tournament" where
  "add_game r i white black time t =
     t\<lparr>t_games := hm_insert (game_id r i) (make_game r i white black time) (t_games t),
       t_white_count := count_up white (t_white_count t)\<rparr>"

definition first_pairs :: "tournament \<Rightarrow> (nat \<times> nat) list" where
  "first_pairs t = (if is_duel t then [(0, 1)] else [(0, 7), (1, 6), (2, 5), (3, 4)])"

definition start_room :: "int \<Rightarrow> tournament \<Rightarrow> tournament" where
  "start_room time t =
     (let seeds = t_players t
      in fold (\<lambda>(i, a, b). add_game 1 (int i) (seeds ! a) (seeds ! b) time)
           (List.enumerate 0 (first_pairs t)) (t\<lparr>t_started_at := Some time\<rparr>))"

definition white_first :: "tournament \<Rightarrow> bytes \<Rightarrow> bytes \<Rightarrow> bool" where
  "white_first t a b =
     (let whites_a = (case hm_get (t_white_count t) a of Some n \<Rightarrow> n | None \<Rightarrow> 0);
          whites_b = (case hm_get (t_white_count t) b of Some n \<Rightarrow> n | None \<Rightarrow> 0)
      in if whites_a \<noteq> whites_b then whites_a < whites_b
         else (case seed_of t a of Some n \<Rightarrow> n | None \<Rightarrow> 99) < (case seed_of t b of Some n \<Rightarrow> n | None \<Rightarrow> 99))"

definition advance_after :: "bytes \<Rightarrow> tournament \<Rightarrow> tournament" where
  "advance_after gid t =
     (case hm_get (t_games t) gid of
        None \<Rightarrow> t
      | Some g \<Rightarrow>
          (case g_ended_at g of
             None \<Rightarrow> t
           | Some ended \<Rightarrow>
               if \<not> g_round g < t_rounds t then t
               else let next_round = g_round g + 1; next_index = g_index g div 2
                    in (case (Option.bind (t_game t (g_round g) (next_index * 2)) g_winner,
                              Option.bind (t_game t (g_round g) (next_index * 2 + 1)) g_winner) of
                          (Some a, Some b) \<Rightarrow>
                            if t_game t next_round next_index \<noteq> None then t
                            else let (white, black) = (if white_first t a b then (a, b) else (b, a))
                                 in add_game next_round next_index white black ended t
                        | _ \<Rightarrow> t)))"

definition expire_seats :: "int \<Rightarrow> tournament \<Rightarrow> tournament" where
  "expire_seats time t =
     (let kept = filter (\<lambda>p. (case hm_get (t_joined_at t) p of Some j \<Rightarrow> j | None \<Rightarrow> t_created_at t)
                              + seat_ttl_ms > time) (t_players t)
      in if length kept = length (t_players t) then t
         else t\<lparr>t_joined_at := fold (\<lambda>gone. if gone \<notin> set kept then hm_remove gone else (\<lambda>m. m))
                                 (t_players t) (t_joined_at t),
                t_players := kept\<rparr>)"

section \<open>One message against one game\<close>

text \<open>
  The four ways a message changes a game it names; \<open>None\<close> is an early return. The clock is
  charged before the move is looked at.
\<close>

definition resign_game :: "arena_event \<Rightarrow> game \<Rightarrow> game option" where
  "resign_game e g =
     (case color_of g (ae_sender e) of
        None \<Rightarrow> None
      | Some c \<Rightarrow> Some (finish (address_of g (opposite c)) Resignation (ae_block_time e) g))"

definition claim_game :: "arena_event \<Rightarrow> game \<Rightarrow> game option" where
  "claim_game e g =
     (case color_of g (ae_sender e) of
        None \<Rightarrow> None
      | Some c \<Rightarrow>
          if c = g_side g then None
          else let elapsed = charged_ms g (ae_block_time e - g_last_event_at g);
                   remaining = clock_ms - used_ms g (g_side g)
               in if elapsed < remaining then None
                  else Some (finish (ae_sender e) Timeout (ae_block_time e)
                         (if g_side g = White then g\<lparr>g_white_used := clock_ms\<rparr>
                          else g\<lparr>g_black_used := clock_ms\<rparr>)))"

definition requested_move :: "tournament_message \<Rightarrow> board \<Rightarrow> move option" where
  "requested_move m b =
     (case (Option.bind (msg_from m) from_algebraic, Option.bind (msg_to m) from_algebraic) of
        (Some f, Some t) \<Rightarrow>
          Some (normalizing_promotion
            \<lparr>m_from = f, m_to = t, m_promotion = from_promotion_letter (msg_promo m)\<rparr> b)
      | _ \<Rightarrow> None)"

text \<open>Board, clock and counters after a legal move.\<close>

definition play_move :: "move \<Rightarrow> piece \<Rightarrow> int \<Rightarrow> int \<Rightarrow> game \<Rightarrow> game" where
  "play_move mv p elapsed time g =
     (let is_en_passant = is_en_passant_capture p mv (g_board g);
          captured = piece_at (g_board g) (m_to mv) \<noteq> None \<or> is_en_passant;
          b = apply_board mv (g_board g);
          g = (if g_side g = White
               then g\<lparr>g_board := b, g_white_used := g_white_used g + elapsed\<rparr>
               else g\<lparr>g_board := b, g_black_used := g_black_used g + elapsed\<rparr>)
      in g\<lparr>g_last_event_at := time, g_moves_count := g_moves_count g + 1,
           g_halfmove_clock := (if ptype p = Pawn \<or> captured then 0 else g_halfmove_clock g + 1),
           g_position_counts := count_up (position_key b) (g_position_counts g)\<rparr>)"

definition end_checks :: "bytes \<Rightarrow> int \<Rightarrow> game \<Rightarrow> game" where
  "end_checks winner time g =
     (let b = g_board g;
          count = (case hm_get (g_position_counts g) (position_key b) of Some n \<Rightarrow> n | None \<Rightarrow> 0)
      in if is_checkmate b then finish winner Checkmate time g
         else if is_stalemate b then finish_draw time g
         else if is_insufficient_material b then finish_draw time g
         else if g_halfmove_clock g \<ge> 100 then finish_draw time g
         else if count \<ge> 3 then finish_draw time g
         else g)"

definition move_game :: "arena_event \<Rightarrow> game \<Rightarrow> game option" where
  "move_game e g =
     (if player_to_move g \<noteq> ae_sender e then None
      else if msg_n (ae_message e) \<noteq> Some (int (g_moves_count g) + 1) then None
      else case requested_move (ae_message e) (g_board g) of
             None \<Rightarrow> None
           | Some mv \<Rightarrow>
               let elapsed = charged_ms g (ae_block_time e - g_last_event_at g);
                   remaining = clock_ms - used_ms g (g_side g)
               in if elapsed \<ge> remaining then None
                  else if \<not> is_legal mv (g_board g) then None
                  else (case piece_at (g_board g) (m_from mv) of
                          None \<Rightarrow> None
                        | Some p \<Rightarrow>
                            Some (end_checks (address_of g (g_side g)) (ae_block_time e)
                              (play_move mv p elapsed (ae_block_time e) g))))"

section \<open>One message against the rooms\<close>

text \<open>
  Looking the room and the game up, changing the game, and pairing the next round when the game
  is over: the frame of a move, a resignation and a claim.
\<close>

definition on_game :: "(arena_event \<Rightarrow> game \<Rightarrow> game option) \<Rightarrow> arena_event \<Rightarrow> tournament \<Rightarrow> tournament" where
  "on_game act e t =
     (if \<not> is_live t then t
      else case msg_g (ae_message e) of
             None \<Rightarrow> t
           | Some gid \<Rightarrow>
               (case hm_get (t_games t) gid of
                  None \<Rightarrow> t
                | Some g \<Rightarrow>
                    if is_over g then t
                    else (case act e g of
                            None \<Rightarrow> t
                          | Some g' \<Rightarrow>
                              let t' = t\<lparr>t_games := hm_insert gid g' (t_games t)\<rparr>
                              in if is_over g' then advance_after gid t' else t')))"

type_synonym rooms = "(bytes, tournament) hash_map"

definition update_room :: "bytes \<Rightarrow> (tournament \<Rightarrow> tournament) \<Rightarrow> rooms \<Rightarrow> rooms" where
  "update_room tid f ts =
     (case hm_get ts tid of None \<Rightarrow> ts | Some t \<Rightarrow> hm_insert tid (f t) ts)"

definition new_room :: "bytes \<Rightarrow> int \<Rightarrow> int \<Rightarrow> tournament" where
  "new_room creator time capacity =
     \<lparr>t_creator = creator, t_created_at = time, t_capacity = capacity, t_started_at = None,
      t_cancelled = False, t_players = [], t_joined_at = [], t_games = [], t_white_count = []\<rparr>"

definition apply_create :: "(bytes \<Rightarrow> bytes) \<Rightarrow> arena_event \<Rightarrow> rooms \<Rightarrow> rooms" where
  "apply_create sha256 e ts =
     (let m = ae_message e; capacity = (if msg_p m = Some 2 then 2 else player_count)
      in if hm_get ts (msg_t m) \<noteq> None \<or> is_public_id (msg_t m) then ts
         else if \<not> (capacity = 2 \<or> is_valid_create_key sha256 (msg_k m) (msg_t m)) then ts
         else hm_insert (msg_t m)
                ((new_room (ae_sender e) (ae_block_time e) capacity)
                   \<lparr>t_players := [ae_sender e],
                    t_joined_at := hm_insert (ae_sender e) (ae_block_time e) []\<rparr>) ts)"

definition seat_player :: "arena_event \<Rightarrow> tournament \<Rightarrow> tournament" where
  "seat_player e t =
     (if \<not> is_open t then t
      else let t = expire_seats (ae_block_time e) t
           in if ae_sender e \<in> set (t_players t) then t
              else let t = t\<lparr>t_players := t_players t @ [ae_sender e],
                             t_joined_at := hm_insert (ae_sender e) (ae_block_time e) (t_joined_at t)\<rparr>
                   in if int (length (t_players t)) = t_capacity t then start_room (ae_block_time e) t else t)"

definition open_room :: "arena_event \<Rightarrow> rooms \<Rightarrow> rooms option" where
  "open_room e ts =
     (let tid = msg_t (ae_message e)
      in if hm_get ts tid \<noteq> None then Some ts
         else if public_number tid \<noteq> None
         then Some (hm_insert tid (new_room (ae_sender e) (ae_block_time e) player_count) ts)
         else if duel_number tid \<noteq> None
         then Some (hm_insert tid (new_room (ae_sender e) (ae_block_time e) 2) ts)
         else None)"

definition apply_join :: "arena_event \<Rightarrow> rooms \<Rightarrow> rooms" where
  "apply_join e ts =
     (case open_room e ts of
        None \<Rightarrow> ts
      | Some ts \<Rightarrow> update_room (msg_t (ae_message e)) (seat_player e) ts)"

definition leave_room :: "arena_event \<Rightarrow> tournament \<Rightarrow> tournament" where
  "leave_room e t =
     (if \<not> is_open t then t
      else case position (\<lambda>p. p = ae_sender e) (t_players t) of
             None \<Rightarrow> t
           | Some i \<Rightarrow> t\<lparr>t_players := take i (t_players t) @ drop (Suc i) (t_players t),
                          t_joined_at := hm_remove (ae_sender e) (t_joined_at t)\<rparr>)"

definition cancel_room :: "arena_event \<Rightarrow> tournament \<Rightarrow> tournament" where
  "cancel_room e t =
     (if is_open t \<and> \<not> is_public_id (msg_t (ae_message e)) \<and> t_creator t = ae_sender e
      then t\<lparr>t_cancelled := True\<rparr> else t)"

definition apply_event :: "(bytes \<Rightarrow> bytes) \<Rightarrow> arena_event \<Rightarrow> rooms \<Rightarrow> rooms" where
  "apply_event sha256 e ts =
     (let m = ae_message e; on_room = (\<lambda>f. update_room (msg_t m) f ts)
      in if msg_a m = ascii ''create'' then apply_create sha256 e ts
         else if msg_a m = ascii ''join'' then apply_join e ts
         else if msg_a m = ascii ''leave'' then on_room (leave_room e)
         else if msg_a m = ascii ''cancel'' then on_room (cancel_room e)
         else if msg_a m = ascii ''move'' then on_room (on_game move_game e)
         else if msg_a m = ascii ''resign'' then on_room (on_game resign_game e)
         else if msg_a m = ascii ''claim'' then on_room (on_game claim_game e)
         else ts)"

section \<open>The replay\<close>

definition chain_order :: "arena_event \<Rightarrow> int \<times> bytes" where
  "chain_order e = (ae_block_time e, ae_tx_id e)"

text \<open>\<open>sort_by\<close> is stable, like \<open>sort_key\<close>.\<close>

definition reduce :: "(bytes \<Rightarrow> bytes) \<Rightarrow> arena_event list \<Rightarrow> rooms" where
  "reduce sha256 events = fold (apply_event sha256) (sort_key chain_order events) []"

end
