(* ===== verification/Chess_Boards.thy ===== *)
theory Chess_Boards
  imports Chess_Tournament
begin

text \<open>
  What the web server answers from the replayed rooms (\<open>chess.rs\<close> lines 1331-1550), and the boards
  of games against the on-phone bots (1552-1760). The list of a hash map stands for the order in
  which the source happens to iterate over it.
\<close>

section \<open>Periods\<close>

definition leaderboard_fresh_from_ms :: int where "leaderboard_fresh_from_ms = 1792647960000"

definition day_ms :: int where "day_ms = 86400000"

text \<open>
  \<open>div_euclid\<close> and \<open>/\<close> by a positive number: the second is only applied to non-negative numbers.
\<close>

definition year_of_era :: "int \<Rightarrow> int" where
  "year_of_era doe = (doe - doe div 1460 + doe div 36524 - doe div 146096) div 365"

definition year_start :: "int \<Rightarrow> int" where
  "year_start yoe = 365 * yoe + yoe div 4 - yoe div 100"

definition utc_month_start_ms :: "int \<Rightarrow> int" where
  "utc_month_start_ms now_ms =
     (let days = now_ms div day_ms;
          z = days + 719468;
          era = z div 146097;
          doe = z - era * 146097;
          yoe = year_of_era doe;
          doy = doe - year_start yoe;
          mp = (5 * doy + 2) div 153;
          doe_month_start = year_start yoe + (153 * mp + 2) div 5
      in (era * 146097 + doe_month_start - 719468) * day_ms)"

definition period_since_ms :: "bool \<Rightarrow> int \<Rightarrow> int" where
  "period_since_ms monthly now_ms =
     (if monthly then max leaderboard_fresh_from_ms (utc_month_start_ms now_ms)
      else leaderboard_fresh_from_ms)"

section \<open>The leaderboard\<close>

record leaderboard_row =
  lr_address :: bytes
  lr_wins :: int
  lr_losses :: int
  lr_duel_wins :: int
  lr_duel_losses :: int
  lr_tournament_game_wins :: int
  lr_tournament_game_losses :: int
  lr_tournaments_played :: int
  lr_tournaments_won :: int
  lr_tournaments_lost :: int
  lr_last_played_at :: int

type_synonym lb_rows = "(bytes, leaderboard_row) hash_map"

definition new_row :: "bytes \<Rightarrow> leaderboard_row" where
  "new_row a =
     \<lparr>lr_address = a, lr_wins = 0, lr_losses = 0, lr_duel_wins = 0, lr_duel_losses = 0,
      lr_tournament_game_wins = 0, lr_tournament_game_losses = 0, lr_tournaments_played = 0,
      lr_tournaments_won = 0, lr_tournaments_lost = 0, lr_last_played_at = 0\<rparr>"

text \<open>\<open>f(row(&mut rows, a))\<close>.\<close>

definition on_row :: "bytes \<Rightarrow> (leaderboard_row \<Rightarrow> leaderboard_row) \<Rightarrow> lb_rows \<Rightarrow> lb_rows" where
  "on_row a f rows = hm_insert a (f (case hm_get rows a of Some r \<Rightarrow> r | None \<Rightarrow> new_row a)) rows"

definition played_row :: "int \<Rightarrow> leaderboard_row \<Rightarrow> leaderboard_row" where
  "played_row started r =
     r\<lparr>lr_tournaments_played := lr_tournaments_played r + 1,
       lr_last_played_at := max (lr_last_played_at r) started\<rparr>"

definition won_row :: "bool \<Rightarrow> int \<Rightarrow> leaderboard_row \<Rightarrow> leaderboard_row" where
  "won_row duel ended r =
     (let r = r\<lparr>lr_wins := lr_wins r + 1, lr_last_played_at := max (lr_last_played_at r) ended\<rparr>
      in if duel then r\<lparr>lr_duel_wins := lr_duel_wins r + 1\<rparr>
         else r\<lparr>lr_tournament_game_wins := lr_tournament_game_wins r + 1\<rparr>)"

definition lost_row :: "bool \<Rightarrow> int \<Rightarrow> leaderboard_row \<Rightarrow> leaderboard_row" where
  "lost_row duel ended r =
     (let r = r\<lparr>lr_losses := lr_losses r + 1, lr_last_played_at := max (lr_last_played_at r) ended\<rparr>
      in if duel then r\<lparr>lr_duel_losses := lr_duel_losses r + 1\<rparr>
         else r\<lparr>lr_tournament_game_losses := lr_tournament_game_losses r + 1,
                lr_tournaments_lost := lr_tournaments_lost r + 1\<rparr>)"

definition champion_row :: "leaderboard_row \<Rightarrow> leaderboard_row" where
  "champion_row r = r\<lparr>lr_tournaments_won := lr_tournaments_won r + 1\<rparr>"

definition loser_of :: "game \<Rightarrow> bytes \<Rightarrow> bytes" where
  "loser_of g winner = (if winner = g_white g then g_black g else g_white g)"

definition count_game :: "bool \<Rightarrow> game \<Rightarrow> lb_rows \<Rightarrow> lb_rows" where
  "count_game duel g rows =
     (case g_winner g of
        None \<Rightarrow> rows
      | Some winner \<Rightarrow>
          (let ended = (case g_ended_at g of Some e \<Rightarrow> e | None \<Rightarrow> 0)
           in on_row (loser_of g winner) (lost_row duel ended)
                (on_row winner (won_row duel ended) rows)))"

definition count_room :: "int \<Rightarrow> tournament \<Rightarrow> lb_rows \<Rightarrow> lb_rows" where
  "count_room since t rows =
     (case t_started_at t of
        None \<Rightarrow> rows
      | Some started \<Rightarrow>
          if started < since then rows
          else let duel = is_duel t;
                   rows = (if duel then rows
                           else fold (\<lambda>p. on_row p (played_row started)) (t_players t) rows);
                   rows = fold (count_game duel) (map snd (t_games t)) rows
               in if duel then rows
                  else (case champion t of Some c \<Rightarrow> on_row c champion_row rows | None \<Rightarrow> rows))"

text \<open>The comparison chain of the final \<open>sort_by\<close>.\<close>

definition lb_order :: "leaderboard_row \<Rightarrow> int \<times> int \<times> int \<times> bytes" where
  "lb_order r = (- lr_wins r, lr_losses r, - lr_last_played_at r, lr_address r)"

definition leaderboard :: "rooms \<Rightarrow> int \<Rightarrow> leaderboard_row list" where
  "leaderboard ts since = sort_key lb_order (map snd (fold (count_room since) (map snd ts) []))"

section \<open>The snapshot\<close>

record arena_row =
  ar_tx_id :: bytes
  ar_sender :: bytes
  ar_block_time :: int
  ar_content :: bytes

record tournament_summary =
  ts_id :: bytes
  ts_status :: string
  ts_capacity :: int
  ts_players :: "bytes list"
  ts_started_at :: "int option"
  ts_champion :: "bytes option"

record arena_snapshot =
  as_all_time :: "leaderboard_row list"
  as_all_time_since :: int
  as_monthly :: "leaderboard_row list"
  as_monthly_since :: int
  as_lobby :: "tournament_summary list"
  as_games_started :: nat

definition room_status :: "tournament \<Rightarrow> string" where
  "room_status t =
     (if t_cancelled t then ''cancelled'' else if is_finished t then ''done''
      else if is_live t then ''live'' else ''open'')"

definition summary :: "bytes \<times> tournament \<Rightarrow> tournament_summary" where
  "summary kt =
     (case kt of (tid, t) \<Rightarrow>
       \<lparr>ts_id = tid, ts_status = room_status t, ts_capacity = t_capacity t, ts_players = t_players t,
        ts_started_at = t_started_at t, ts_champion = champion t\<rparr>)"

definition lobby_order :: "tournament_summary \<Rightarrow> int \<times> bytes" where
  "lobby_order s = (- (case ts_started_at s of Some x \<Rightarrow> x | None \<Rightarrow> 0), ts_id s)"

definition arena_events :: "(bytes \<Rightarrow> tournament_message option) \<Rightarrow> arena_row list \<Rightarrow> arena_event list" where
  "arena_events from_json rows =
     List.map_filter
       (\<lambda>r. to_arena_event from_json (ar_tx_id r) (ar_sender r) (ar_block_time r) (ar_content r)) rows"

definition snapshot_of :: "rooms \<Rightarrow> int \<Rightarrow> arena_snapshot" where
  "snapshot_of ts now_ms =
     \<lparr>as_all_time = leaderboard ts (period_since_ms False now_ms),
      as_all_time_since = period_since_ms False now_ms,
      as_monthly = leaderboard ts (period_since_ms True now_ms),
      as_monthly_since = period_since_ms True now_ms,
      as_lobby = sort_key lobby_order (map summary ts),
      as_games_started = sum_list (map (\<lambda>(tid, t). length (t_games t)) ts)\<rparr>"

definition compute_all ::
  "(bytes \<Rightarrow> bytes) \<Rightarrow> (bytes \<Rightarrow> tournament_message option) \<Rightarrow> arena_row list \<Rightarrow> int \<Rightarrow> arena_snapshot" where
  "compute_all sha256 from_json rows now_ms =
     snapshot_of (reduce sha256 (arena_events from_json rows)) now_ms"

section \<open>Bot games\<close>

definition bots_channel :: bytes where "bots_channel = ascii ''chess-bots''"

definition bot_levels :: "int list" where "bot_levels = [1, 2, 3, 4, 5]"

definition bot_end_reasons :: "bytes list" where
  "bot_end_reasons =
     map ascii [''checkmate'', ''resignation'', ''stalemate'', ''insufficient material'',
                ''the fifty-move rule'', ''threefold repetition'']"

record bot_message =
  bm_type :: bytes
  bm_v :: int
  bm_a :: bytes
  bm_g :: bytes
  bm_bot :: int
  bm_c :: bytes
  bm_r :: bytes
  bm_why :: bytes
  bm_m :: bytes

definition decode_bot_result :: "(bytes \<Rightarrow> bot_message option) \<Rightarrow> bytes \<Rightarrow> bot_message option" where
  "decode_bot_result from_json content =
     (if length content > 16384 \<or> \<not> starts_with (ascii ''{'') content \<or>
         \<not> contains_str (ascii [CHR 0x22] @ ascii ''chess_bot'' @ ascii [CHR 0x22]) content then None
      else case from_json content of
             None \<Rightarrow> None
           | Some m \<Rightarrow>
               if bm_type m = ascii ''chess_bot'' \<and> bm_v m = 2 \<and> bm_a m = ascii ''result''
               then Some m else None)"

definition game_id_byte :: "nat \<Rightarrow> u8 \<Rightarrow> bool" where
  "game_id_byte i b =
     (if i \<in> {8, 13, 18, 23} then b = 45 else is_ascii_digit b \<or> is_lower_af b)"

definition is_game_id :: "bytes \<Rightarrow> bool" where
  "is_game_id g \<longleftrightarrow> length g = 36 \<and> list_all (\<lambda>(i, b). game_id_byte i b) (List.enumerate 0 g)"

text \<open>One token: \<open>None\<close> for a malformed or illegal move.\<close>

definition bot_token_move :: "bytes \<Rightarrow> board \<Rightarrow> move option" where
  "bot_token_move token b =
     (if \<not> list_all (\<lambda>c. c < 128) token \<or> \<not> (4 \<le> length token \<and> length token \<le> 5) then None
      else case (if drop 4 token = [] then Some None
                 else map_option Some (from_promotion_letter (Some (drop 4 token)))) of
             None \<Rightarrow> None
           | Some promotion \<Rightarrow>
               (case (from_algebraic (take 2 token), from_algebraic (take 2 (drop 2 token))) of
                  (Some f, Some t) \<Rightarrow>
                    (let mv = normalizing_promotion \<lparr>m_from = f, m_to = t, m_promotion = promotion\<rparr> b
                     in if is_legal mv b then Some mv else None)
                | _ \<Rightarrow> None))"

fun replay_tokens :: "bytes list \<Rightarrow> board \<times> nat \<Rightarrow> (board \<times> nat) option" where
  "replay_tokens [] s = Some s"
| "replay_tokens (token # r) s =
     (case bot_token_move token (fst s) of
        None \<Rightarrow> None
      | Some mv \<Rightarrow> replay_tokens r (apply_board mv (fst s), snd s + 1))"

definition replay_bot_moves :: "bytes \<Rightarrow> (board \<times> nat) option" where
  "replay_bot_moves m = replay_tokens (split_whitespace m) (initial_board, 0)"

record bot_game =
  bg_level :: int
  bg_sender :: bytes
  bg_tx_id :: bytes
  bg_block_time :: int
  bg_game_id :: bytes
  bg_win_moves :: "nat option"

definition to_bot_game :: "arena_row \<Rightarrow> bot_message \<Rightarrow> bot_game option" where
  "to_bot_game row m =
     (case (if bm_c m = ascii ''w'' then Some White else if bm_c m = ascii ''b'' then Some Black else None) of
        None \<Rightarrow> None
      | Some player \<Rightarrow>
          if bm_bot m \<notin> set bot_levels \<or> bm_r m \<notin> set (map ascii [''won'', ''lost'', ''drawn'']) \<or>
             bm_why m \<notin> set bot_end_reasons then None
          else case replay_bot_moves (bm_m m) of
                 None \<Rightarrow> None
               | Some (b, plies) \<Rightarrow>
                   let mated_by_player = side_to_move b = opposite player \<and> is_checkmate b
                   in Some \<lparr>bg_level = bm_bot m, bg_sender = ar_sender row, bg_tx_id = ar_tx_id row,
                            bg_block_time = ar_block_time row, bg_game_id = bm_g m,
                            bg_win_moves =
                              (if bm_r m = ascii ''won'' \<and> bm_why m = ascii ''checkmate'' \<and> mated_by_player
                               then Some (if player = White then (plies + 1) div 2 else plies div 2)
                               else None)\<rparr>)"

record bot_board_row =
  br_address :: bytes
  br_moves :: nat
  br_at :: int
  br_game_id :: bytes
  br_tx_id :: bytes

record bot_board =
  bb_level :: int
  bb_games :: nat
  bb_players :: "bot_board_row list"

definition best_win :: "bot_game \<Rightarrow> (bytes, bot_board_row) hash_map \<Rightarrow> (bytes, bot_board_row) hash_map" where
  "best_win g best =
     (case bg_win_moves g of
        None \<Rightarrow> best
      | Some moves \<Rightarrow>
          if (case hm_get best (bg_sender g) of Some row \<Rightarrow> br_moves row \<le> moves | None \<Rightarrow> False) then best
          else hm_insert (bg_sender g)
                 \<lparr>br_address = bg_sender g, br_moves = moves, br_at = bg_block_time g,
                  br_game_id = bg_game_id g, br_tx_id = bg_tx_id g\<rparr> best)"

definition bot_row_order :: "bot_board_row \<Rightarrow> nat \<times> int \<times> bytes" where
  "bot_row_order r = (br_moves r, br_at r, br_tx_id r)"

definition level_board :: "bot_game list \<Rightarrow> int \<Rightarrow> int \<Rightarrow> bot_board option" where
  "level_board games since level =
     (let counted = filter (\<lambda>g. bg_level g = level \<and> bg_block_time g \<ge> since) games
      in if length counted = 0 then None
         else Some \<lparr>bb_level = level, bb_games = length counted,
                    bb_players = sort_key bot_row_order (map snd (fold best_win counted []))\<rparr>)"

definition bot_boards :: "bot_game list \<Rightarrow> int \<Rightarrow> bot_board list" where
  "bot_boards games since = List.map_filter (level_board games since) bot_levels"

record bot_snapshot =
  bs_all_time :: "bot_board list"
  bs_all_time_since :: int
  bs_monthly :: "bot_board list"
  bs_monthly_since :: int

text \<open>The loop over the rows: the set of (sender, game id) pairs seen and the games counted.\<close>

definition bot_row_step ::
  "(bytes \<Rightarrow> bot_message option) \<Rightarrow> arena_row \<Rightarrow> (bytes \<times> bytes) list \<times> bot_game list \<Rightarrow>
     (bytes \<times> bytes) list \<times> bot_game list" where
  "bot_row_step from_json row s =
     (case decode_bot_result from_json (ar_content row) of
        None \<Rightarrow> s
      | Some m \<Rightarrow>
          if \<not> is_game_id (bm_g m) then s
          else if (ar_sender row, bm_g m) \<in> set (fst s) then s
          else (List.insert (ar_sender row, bm_g m) (fst s),
                case to_bot_game row m of None \<Rightarrow> snd s | Some g \<Rightarrow> snd s @ [g]))"

definition bot_row_chain_order :: "arena_row \<Rightarrow> int \<times> bytes" where
  "bot_row_chain_order r = (ar_block_time r, ar_tx_id r)"

definition bot_replay ::
  "(bytes \<Rightarrow> bot_message option) \<Rightarrow> arena_row list \<Rightarrow> (bytes \<times> bytes) list \<times> bot_game list" where
  "bot_replay from_json rows =
     fold (bot_row_step from_json) (sort_key bot_row_chain_order rows) ([], [])"

definition bot_games :: "(bytes \<Rightarrow> bot_message option) \<Rightarrow> arena_row list \<Rightarrow> bot_game list" where
  "bot_games from_json rows = snd (bot_replay from_json rows)"

definition compute_bots :: "(bytes \<Rightarrow> bot_message option) \<Rightarrow> arena_row list \<Rightarrow> int \<Rightarrow> bot_snapshot" where
  "compute_bots from_json rows now_ms =
     (let games = bot_games from_json rows
      in \<lparr>bs_all_time = bot_boards games (period_since_ms False now_ms),
          bs_all_time_since = period_since_ms False now_ms,
          bs_monthly = bot_boards games (period_since_ms True now_ms),
          bs_monthly_since = period_since_ms True now_ms\<rparr>)"

end
