(* ===== verification/Replay.thy ===== *)
theory Replay
  imports Main "HOL-Library.Multiset"
begin

text \<open>
  A server state replayed from rows in chain order: the rows are sorted by a key and folded. The
  contract of a replay is that its key tells any two rows apart; then the order in which the rows
  arrive cannot be seen, and rows later in the chain only extend the replay.
\<close>

lemma sort_key_mset:
  "mset xs = mset ys \<Longrightarrow> inj_on f (set xs) \<Longrightarrow> sort_key f xs = sort_key f ys"
  by (rule sort_key_inj_key_eq) simp_all

lemma filter_key_later:
  assumes "\<And>x y. x \<in> set xs \<Longrightarrow> y \<in> set ys \<Longrightarrow> f x \<le> f y"
  shows "sort_key f (xs @ ys) = sort_key f xs @ sort_key f ys"
proof (rule properties_for_sort_key)
  show "mset (sort_key f xs @ sort_key f ys) = mset (xs @ ys)" by simp
  show "filter (\<lambda>x. f k = f x) (sort_key f xs @ sort_key f ys) = filter (\<lambda>x. f k = f x) (xs @ ys)" for k
    by (simp add: sort_key_stable eq_commute [of "f k"])
  show "sorted (map f (sort_key f xs @ sort_key f ys))"
    using assms by (auto simp: sorted_append)
qed

locale replay =
  fixes key :: "'e \<Rightarrow> 'k :: linorder"
    and step :: "'e \<Rightarrow> 's \<Rightarrow> 's"
    and start :: 's
    and run :: "'e list \<Rightarrow> 's"
  assumes run_fold: "run es = fold step (sort_key key es) start"
begin

lemma arrival_order: "mset es = mset es' \<Longrightarrow> inj_on key (set es) \<Longrightarrow> run es = run es'"
  by (simp add: run_fold sort_key_mset)

lemma later_rows:
  "(\<And>a b. a \<in> set es \<Longrightarrow> b \<in> set es' \<Longrightarrow> key a \<le> key b) \<Longrightarrow>
   run (es @ es') = fold step (sort_key key es') (run es)"
  by (simp add: run_fold filter_key_later)

lemma keeps:
  assumes "P start" and "\<And>e s. P s \<Longrightarrow> P (step e s)"
  shows "P (run es)"
proof -
  have "P s \<Longrightarrow> P (fold step xs s)" for s xs
    by (induction xs arbitrary: s) (auto intro: assms(2))
  then show ?thesis using assms(1) by (simp add: run_fold)
qed

end

end
