(* ===== verification/Chess_Bots.thy ===== *)
theory Chess_Bots
  imports Chess_Boards Replay
begin

text \<open>
  The boards of the bot games: a counted game is a legal game from the initial position, a
  (sender, game) pair counts once, and a board shows the shortest win of each player.
\<close>

section \<open>Replaying the moves\<close>

lemma bot_token_legal:
  assumes "bot_token_move token b = Some mv"
  shows "mv \<in> set (legal_moves b)"
proof -
  have idem: "normalizing_promotion (normalizing_promotion m b) b = normalizing_promotion m b" for m
    by (auto simp: normalizing_promotion_def split: option.split)
  show ?thesis using assms
    by (auto simp: bot_token_move_def is_legal_def list_ex_iff idem Let_def split: option.splits if_splits)
qed

lemma replay_tokens_reachable:
  assumes "replay_tokens tokens (b, n) = Some (b', n')" and "reachable_board b"
    and "side_to_move b = White \<longleftrightarrow> even n"
  shows "reachable_board b'" "n' = n + length tokens" "side_to_move b' = White \<longleftrightarrow> even n'"
proof -
  have "reachable_board b' \<and> n' = n + length tokens \<and> (side_to_move b' = White \<longleftrightarrow> even n')"
    using assms
  proof (induction tokens arbitrary: b n)
    case (Cons token r)
    from Cons.prems(1) obtain mv where mv: "bot_token_move token b = Some mv"
      "replay_tokens r (apply_board mv b, n + 1) = Some (b', n')" by (auto split: option.splits)
    have legal: "mv \<in> set (legal_moves b)" by (rule bot_token_legal [OF mv(1)])
    have "side_to_move (apply_board mv b) = opposite (side_to_move b)"
      by (rule legal_move_preserves(2) [OF reachable_inv [OF Cons.prems(2)] legal])
    then have "side_to_move (apply_board mv b) = White \<longleftrightarrow> even (n + 1)"
      using Cons.prems(3) by (cases "side_to_move b") auto
    from Cons.IH [OF mv(2) reachable_board.play [OF Cons.prems(2) legal] this] show ?case by simp
  qed simp
  then show "reachable_board b'" "n' = n + length tokens" "side_to_move b' = White \<longleftrightarrow> even n'" by simp_all
qed

lemma replay_bot_reachable:
  assumes "replay_bot_moves m = Some (b, n)"
  shows "reachable_board b" "n = length (split_whitespace m)" "side_to_move b = White \<longleftrightarrow> even n"
  using replay_tokens_reachable [OF assms [unfolded replay_bot_moves_def] reachable_board.start]
  by (simp_all add: initial_board_def)

section \<open>Counting a game once\<close>

definition bot_key :: "bot_game \<Rightarrow> bytes \<times> bytes" where
  "bot_key g = (bg_sender g, bg_game_id g)"

definition bot_inv :: "(bytes \<times> bytes) list \<times> bot_game list \<Rightarrow> bool" where
  "bot_inv s \<longleftrightarrow> distinct (map bot_key (snd s)) \<and> bot_key ` set (snd s) \<subseteq> set (fst s)"

lemma to_bot_game_fields:
  assumes "to_bot_game row m = Some g"
  shows "bg_sender g = ar_sender row" "bg_game_id g = bm_g m" "bg_tx_id g = ar_tx_id row"
    "bg_block_time g = ar_block_time row" "bg_level g = bm_bot m"
  using assms by (auto simp: to_bot_game_def Let_def split: option.splits if_splits prod.splits)

lemma bot_step_inv: "bot_inv s \<Longrightarrow> bot_inv (bot_row_step from_json row s)"
proof -
  assume s: "bot_inv s"
  show ?thesis
  proof (cases "bot_row_step from_json row s = s")
    case False
    then obtain m where m: "(ar_sender row, bm_g m) \<notin> set (fst s)"
      "bot_row_step from_json row s = (List.insert (ar_sender row, bm_g m) (fst s),
         case to_bot_game row m of None \<Rightarrow> snd s | Some g \<Rightarrow> snd s @ [g])"
      by (auto simp: bot_row_step_def split: option.splits if_splits)
    have "bot_key g = (ar_sender row, bm_g m)" if "to_bot_game row m = Some g" for g
      using to_bot_game_fields [OF that] by (simp add: bot_key_def)
    then show ?thesis using s m(1) unfolding m(2) by (force simp: bot_inv_def split: option.split)
  qed (use s in simp)
qed

interpretation bots: replay bot_row_chain_order "bot_row_step from_json" "([], [])" "bot_replay from_json" for from_json
  by unfold_locales (simp add: bot_replay_def)

lemma bot_replay_inv: "bot_inv (bot_replay from_json rows)"
  by (rule bots.keeps [where P = bot_inv]) (auto simp: bot_step_inv, simp add: bot_inv_def)

section \<open>The best win\<close>

definition best_so_far :: "bot_game list \<Rightarrow> (bytes, bot_board_row) hash_map \<Rightarrow> bool" where
  "best_so_far past best \<longleftrightarrow>
     hm_ok best \<and>
     (\<forall>a r. hm_get best a = Some r \<longrightarrow> br_address r = a \<and>
        (\<exists>g \<in> set past. bg_sender g = a \<and> bg_win_moves g = Some (br_moves r) \<and> br_at r = bg_block_time g \<and>
           br_game_id r = bg_game_id g \<and> br_tx_id r = bg_tx_id g) \<and>
        (\<forall>g n. g \<in> set past \<longrightarrow> bg_sender g = a \<longrightarrow> bg_win_moves g = Some n \<longrightarrow> br_moves r \<le> n)) \<and>
     (\<forall>g n. g \<in> set past \<longrightarrow> bg_win_moves g = Some n \<longrightarrow> hm_get best (bg_sender g) \<noteq> None)"

lemma best_win_step:
  assumes "best_so_far past best"
  shows "best_so_far (past @ [g]) (best_win g best)"
proof (cases "bg_win_moves g")
  case None
  then show ?thesis using assms by (fastforce simp: best_so_far_def best_win_def)
next
  case (Some n)
  show ?thesis
  proof (cases "\<exists>r. hm_get best (bg_sender g) = Some r \<and> br_moves r \<le> n")
    case True
    then have "best_win g best = best" using Some by (auto simp: best_win_def)
    then show ?thesis using assms Some True by (auto simp: best_so_far_def)
  next
    case False
    let ?r = "\<lparr>br_address = bg_sender g, br_moves = n, br_at = bg_block_time g,
                  br_game_id = bg_game_id g, br_tx_id = bg_tx_id g\<rparr>"
    have e: "best_win g best = hm_insert (bg_sender g) ?r best"
      using Some False by (auto simp: best_win_def split: option.split)
    have less: "n \<le> k" if "h \<in> set past" "bg_sender h = bg_sender g" "bg_win_moves h = Some k" for h k
    proof -
      have "hm_get best (bg_sender h) \<noteq> None" using assms that(1,3) unfolding best_so_far_def by blast
      then obtain r where r: "hm_get best (bg_sender h) = Some r" by blast
      then have "br_moves r \<le> k" using assms that(1,3) unfolding best_so_far_def by blast
      then show ?thesis using False r that(2) by auto
    qed
    show ?thesis
      unfolding e best_so_far_def
    proof (intro conjI allI impI)
      show "hm_ok (hm_insert (bg_sender g) ?r best)" using assms by (simp add: best_so_far_def)
    next
      fix a r assume "hm_get (hm_insert (bg_sender g) ?r best) a = Some r"
      then consider "a = bg_sender g" "r = ?r" | "a \<noteq> bg_sender g" "hm_get best a = Some r"
        by (auto split: if_splits)
      then show "br_address r = a" 
        and "\<exists>h \<in> set (past @ [g]). bg_sender h = a \<and> bg_win_moves h = Some (br_moves r) \<and>
          br_at r = bg_block_time h \<and> br_game_id r = bg_game_id h \<and> br_tx_id r = bg_tx_id h"
        and "\<And>h k. h \<in> set (past @ [g]) \<Longrightarrow> bg_sender h = a \<Longrightarrow> bg_win_moves h = Some k \<Longrightarrow> br_moves r \<le> k"
        using assms Some less by (cases; force simp: best_so_far_def)+
    next
      fix h k assume "h \<in> set (past @ [g])" "bg_win_moves h = Some k"
      then show "hm_get (hm_insert (bg_sender g) ?r best) (bg_sender h) \<noteq> None"
        using assms unfolding best_so_far_def by auto
    qed
  qed
qed

lemma best_wins: "best_so_far games (fold best_win games [])"
proof -
  have "best_so_far past best \<Longrightarrow> best_so_far (past @ games) (fold best_win games best)" for past best
  proof (induction games arbitrary: past best)
    case (Cons g games)
    from Cons.IH [OF best_win_step [OF Cons.prems]] show ?case by simp
  qed simp
  from this [of "[]" "[]"] show ?thesis by (simp add: best_so_far_def)
qed

lemma level_board_rows:
  assumes "level_board games since level = Some bb" and "counted = filter (\<lambda>g. bg_level g = level \<and> since \<le> bg_block_time g) games"
  shows "bb_level bb = level" "bb_games bb = length counted" "0 < bb_games bb"
    "set (bb_players bb) = snd ` set (fold best_win counted [])"
    "sorted (map bot_row_order (bb_players bb))" "distinct (map br_address (bb_players bb))"
proof -
  have bb: "bb = \<lparr>bb_level = level, bb_games = length counted,
      bb_players = sort_key bot_row_order (map snd (fold best_win counted []))\<rparr>" and ne: "counted \<noteq> []"
    using assms by (auto simp: level_board_def Let_def split: if_splits)
  show "bb_level bb = level" "bb_games bb = length counted" "0 < bb_games bb"
    "set (bb_players bb) = snd ` set (fold best_win counted [])"
    "sorted (map bot_row_order (bb_players bb))" using ne by (simp_all add: bb)
  have b: "best_so_far counted (fold best_win counted [])" by (rule best_wins)
  then have ok: "hm_ok (fold best_win counted [])" by (simp add: best_so_far_def)
  have "map br_address (map snd (fold best_win counted [])) = map fst (fold best_win counted [])"
    using b hm_in_iff [OF ok] by (auto simp: best_so_far_def)
  then have "distinct (map br_address (map snd (fold best_win counted [])))"
    using ok unfolding hm_ok_def by (rule ssubst)
  then show "distinct (map br_address (bb_players bb))"
    by (simp only: bb bot_board.simps distinct_map distinct_sort set_sort)
qed

end
