(* ===== verification/Chess_Reducer.thy ===== *)
theory Chess_Reducer
  imports Chess_Tournament Replay
begin

text \<open>
  What the replay keeps true of every room: the seats, the games, the bracket and the clocks. Two
  contracts carry the proofs: a \<open>game_action\<close> (move, resignation, claim) changes one unfinished game
  and keeps it well formed, a \<open>room_action\<close> keeps a room well formed and its results final.
\<close>

section \<open>Games\<close>

definition still_open :: "game \<Rightarrow> bool" where
  "still_open g \<longleftrightarrow>
     g_white_used g < clock_ms \<and> g_black_used g < clock_ms \<and>
     0 \<le> g_halfmove_clock g \<and> g_halfmove_clock g < 100 \<and>
     (\<forall>k n. hm_get (g_position_counts g) k = Some n \<longrightarrow> n < 3) \<and>
     \<not> is_checkmate (g_board g) \<and> \<not> is_stalemate (g_board g) \<and> \<not> is_insufficient_material (g_board g)"

definition game_ok :: "game \<Rightarrow> bool" where
  "game_ok g \<longleftrightarrow>
     reachable_board (g_board g) \<and> (g_side g = White \<longleftrightarrow> even (g_moves_count g)) \<and>
     0 \<le> g_white_used g \<and> g_white_used g \<le> clock_ms \<and> 0 \<le> g_black_used g \<and> g_black_used g \<le> clock_ms \<and>
     g_white g \<noteq> g_black g \<and>
     (\<forall>w. g_winner g = Some w \<longrightarrow> w = g_white g \<or> w = g_black g) \<and>
     (g_winner g = None \<longleftrightarrow> g_ended_at g = None) \<and> (g_winner g = None \<longleftrightarrow> g_outcome g = None) \<and>
     (\<not> is_over g \<longrightarrow> still_open g)"

text \<open>What a change of a game leaves alone.\<close>

definition same_pairing :: "game \<Rightarrow> game \<Rightarrow> bool" where
  "same_pairing g h \<longleftrightarrow>
     g_round h = g_round g \<and> g_index h = g_index g \<and> g_white h = g_white g \<and> g_black h = g_black g \<and>
     g_started_at h = g_started_at g"

lemma finish_fields [simp]:
  "g_winner (finish w out time g) = Some w" "g_outcome (finish w out time g) = Some out"
  "g_ended_at (finish w out time g) = Some time" "is_over (finish w out time g)"
  "g_board (finish w out time g) = g_board g" "g_moves_count (finish w out time g) = g_moves_count g"
  "g_white_used (finish w out time g) = g_white_used g" "g_black_used (finish w out time g) = g_black_used g"
  "g_white (finish w out time g) = g_white g" "g_black (finish w out time g) = g_black g"
  "g_side (finish w out time g) = g_side g" "same_pairing h (finish w out time g) = same_pairing h g"
  by (simp_all add: finish_def is_over_def g_side_def same_pairing_def)

definition unfinished_ok :: "game \<Rightarrow> bool" where
  "unfinished_ok g \<longleftrightarrow>
     reachable_board (g_board g) \<and> (g_side g = White \<longleftrightarrow> even (g_moves_count g)) \<and>
     0 \<le> g_white_used g \<and> g_white_used g \<le> clock_ms \<and> 0 \<le> g_black_used g \<and> g_black_used g \<le> clock_ms \<and>
     g_white g \<noteq> g_black g"

lemma game_ok_unfinished: "game_ok g \<Longrightarrow> unfinished_ok g"
  by (simp add: game_ok_def unfinished_ok_def)

lemma finish_ok: "unfinished_ok g \<Longrightarrow> w \<in> {g_white g, g_black g} \<Longrightarrow> game_ok (finish w out time g)"
  by (auto simp: game_ok_def unfinished_ok_def)

lemma finish_draw_ok:
  "unfinished_ok g \<Longrightarrow> game_ok (finish_draw time g)" "is_over (finish_draw time g)"
  "same_pairing h (finish_draw time g) = same_pairing h g"
  by (auto simp: finish_draw_def Let_def intro: finish_ok)

lemma address_of_in [simp]: "address_of g c \<in> {g_white g, g_black g}"
  by (simp add: address_of_def)

lemma end_checks_ok:
  assumes "unfinished_ok g" and "w \<in> {g_white g, g_black g}" and "\<not> is_over g"
    and "g_ended_at g = None" "g_outcome g = None"
    and "g_white_used g < clock_ms" "g_black_used g < clock_ms" "0 \<le> g_halfmove_clock g"
    and "\<And>k n. hm_get (g_position_counts g) k = Some n \<Longrightarrow> k \<noteq> position_key (g_board g) \<Longrightarrow> n < 3"
  shows "game_ok (end_checks w time g)" "same_pairing h (end_checks w time g) = same_pairing h g"
proof -
  show "same_pairing h (end_checks w time g) = same_pairing h g"
    by (simp add: end_checks_def Let_def finish_draw_ok)
  have "game_ok g" if "\<not> is_checkmate (g_board g)" "\<not> is_stalemate (g_board g)"
    "\<not> is_insufficient_material (g_board g)" "\<not> g_halfmove_clock g \<ge> 100"
    "\<not> (case hm_get (g_position_counts g) (position_key (g_board g)) of Some n \<Rightarrow> n | None \<Rightarrow> 0) \<ge> 3"
  proof -
    have "\<forall>k n. hm_get (g_position_counts g) k = Some n \<longrightarrow> n < 3"
    proof (intro allI impI)
      fix k n assume n: "hm_get (g_position_counts g) k = Some n"
      show "n < 3"
        by (cases "k = position_key (g_board g)") (use n that(5) assms(9) in auto)
    qed
    then show ?thesis using that assms
      by (simp add: game_ok_def unfinished_ok_def still_open_def is_over_def)
  qed
  then show "game_ok (end_checks w time g)"
    using assms(1,2) by (auto simp: end_checks_def Let_def intro: finish_ok finish_draw_ok)
qed

section \<open>The game contract\<close>

locale game_action =
  fixes act :: "arena_event \<Rightarrow> game \<Rightarrow> game option"
  assumes act_ok: "game_ok g \<Longrightarrow> \<not> is_over g \<Longrightarrow> act e g = Some h \<Longrightarrow> game_ok h"
    and act_same: "act e g = Some h \<Longrightarrow> same_pairing g h"

lemma same_pairing_refl [simp]: "same_pairing g g"
  by (simp add: same_pairing_def)

lemma resign_game_ok:
  assumes "game_ok g" and "resign_game e g = Some h"
  shows "game_ok h"
  using assms address_of_in game_ok_unfinished [OF assms(1)]
  by (auto simp: resign_game_def split: option.splits intro!: finish_ok)

lemma resign_game_same: "resign_game e g = Some h \<Longrightarrow> same_pairing g h"
  by (auto simp: resign_game_def split: option.splits)

interpretation resign: game_action resign_game
  by unfold_locales (blast intro: resign_game_ok resign_game_same)+

lemma claim_game_ok:
  assumes "game_ok g" and "claim_game e g = Some h"
  shows "game_ok h"
proof -
  define g0 where "g0 = (if g_side g = White then g\<lparr>g_white_used := clock_ms\<rparr>
                          else g\<lparr>g_black_used := clock_ms\<rparr>)"
  have h: "h = finish (ae_sender e) Timeout (ae_block_time e) g0" and "color_of g (ae_sender e) \<noteq> None"
    using assms(2) by (auto simp: claim_game_def g0_def Let_def split: option.splits if_splits)
  then have "ae_sender e \<in> {g_white g0, g_black g0}"
    by (auto simp: color_of_def g0_def split: if_splits)
  moreover have "unfinished_ok g0"
    using game_ok_unfinished [OF assms(1)] by (simp add: unfinished_ok_def g0_def g_side_def clock_ms_def)
  ultimately show ?thesis unfolding h by (intro finish_ok)
qed

lemma claim_game_same: "claim_game e g = Some h \<Longrightarrow> same_pairing g h"
  by (auto simp: claim_game_def Let_def split: option.splits if_splits) (simp_all add: same_pairing_def)

interpretation claim: game_action claim_game
  by unfold_locales (blast intro: claim_game_ok claim_game_same)+

section \<open>Moves\<close>

lemma normalizing_idem:
  "normalizing_promotion (normalizing_promotion m b) b = normalizing_promotion m b"
  by (auto simp: normalizing_promotion_def split: option.split)

lemma normalizing_from [simp]: "m_from (normalizing_promotion m b) = m_from m"
  "m_to (normalizing_promotion m b) = m_to m"
  by (auto simp: normalizing_promotion_def split: option.split)

lemma requested_move_normal: "requested_move msg b = Some mv \<Longrightarrow> normalizing_promotion mv b = mv"
  by (auto simp: requested_move_def normalizing_idem split: option.splits)

lemma legal_normal: "is_legal mv b \<Longrightarrow> normalizing_promotion mv b = mv \<Longrightarrow> mv \<in> set (legal_moves b)"
  by (auto simp: is_legal_def list_ex_iff)

lemma move_gameE:
  assumes "move_game e g = Some h"
  obtains mv p elapsed where
    "requested_move (ae_message e) (g_board g) = Some mv" "mv \<in> set (legal_moves (g_board g))"
    "piece_at (g_board g) (m_from mv) = Some p" "player_to_move g = ae_sender e"
    "msg_n (ae_message e) = Some (int (g_moves_count g) + 1)"
    "elapsed = charged_ms g (ae_block_time e - g_last_event_at g)" "0 \<le> elapsed"
    "elapsed < clock_ms - used_ms g (g_side g)"
    "h = end_checks (address_of g (g_side g)) (ae_block_time e)
       (play_move mv p elapsed (ae_block_time e) g)"
proof -
  from assms obtain mv p where
    r: "requested_move (ae_message e) (g_board g) = Some mv" "is_legal mv (g_board g)"
      "piece_at (g_board g) (m_from mv) = Some p" "player_to_move g = ae_sender e"
      "msg_n (ae_message e) = Some (int (g_moves_count g) + 1)"
      "charged_ms g (ae_block_time e - g_last_event_at g) < clock_ms - used_ms g (g_side g)"
      "h = end_checks (address_of g (g_side g)) (ae_block_time e)
        (play_move mv p (charged_ms g (ae_block_time e - g_last_event_at g)) (ae_block_time e) g)"
    by (auto simp: move_game_def Let_def split: if_splits option.splits)
  have "mv \<in> set (legal_moves (g_board g))"
    using r(2) requested_move_normal [OF r(1)] by (rule legal_normal)
  then show ?thesis using r by (intro that [of mv p]) (simp_all add: charged_ms_def)
qed

lemma play_move_fields [simp]:
  "g_white (play_move mv p el time g) = g_white g" "g_black (play_move mv p el time g) = g_black g"
  "g_board (play_move mv p el time g) = apply_board mv (g_board g)"
  "g_moves_count (play_move mv p el time g) = g_moves_count g + 1"
  "g_white_used (play_move mv p el time g) = g_white_used g + (if g_side g = White then el else 0)"
  "g_black_used (play_move mv p el time g) = g_black_used g + (if g_side g = White then 0 else el)"
  "g_winner (play_move mv p el time g) = g_winner g" "g_ended_at (play_move mv p el time g) = g_ended_at g"
  "g_outcome (play_move mv p el time g) = g_outcome g"
  "g_position_counts (play_move mv p el time g) =
     count_up (position_key (apply_board mv (g_board g))) (g_position_counts g)"
  "0 \<le> g_halfmove_clock g \<Longrightarrow> 0 \<le> g_halfmove_clock (play_move mv p el time g)"
  "same_pairing g (play_move mv p el time g)"
  by (simp_all add: play_move_def Let_def g_side_def same_pairing_def)

lemma move_game_ok:
  assumes ok: "game_ok g" and go: "\<not> is_over g" and "move_game e g = Some h"
  shows "game_ok h"
proof -
  from assms(3) obtain mv p el where
    mv: "mv \<in> set (legal_moves (g_board g))" "piece_at (g_board g) (m_from mv) = Some p"
    and el: "0 \<le> el" "el < clock_ms - used_ms g (g_side g)"
    and h: "h = end_checks (address_of g (g_side g)) (ae_block_time e)
       (play_move mv p el (ae_block_time e) g)" by (rule move_gameE) blast
  let ?g = "play_move mv p el (ae_block_time e) g"
  have reach: "reachable_board (g_board g)" and u: "unfinished_ok g" and s: "still_open g"
    using ok go game_ok_unfinished [OF ok] by (simp_all add: game_ok_def)
  have "side_to_move (apply_board mv (g_board g)) = opposite (side_to_move (g_board g))"
    by (rule legal_move_preserves(2) [OF reachable_inv [OF reach] mv(1)])
  then have "g_side ?g = opposite (g_side g)" by (simp add: g_side_def)
  then have side: "g_side ?g = White \<longleftrightarrow> g_side g \<noteq> White" by (cases "g_side g") simp_all
  have "unfinished_ok ?g"
    using u el side reachable_board.play [OF reach mv(1)]
    by (auto simp: unfinished_ok_def used_ms_def split: if_splits)
  moreover have "address_of g (g_side g) \<in> {g_white ?g, g_black ?g}" by (simp add: address_of_def)
  moreover have "hm_get (g_position_counts ?g) k = Some n \<Longrightarrow> k \<noteq> position_key (g_board ?g) \<Longrightarrow> n < 3" for k n
    using s by (auto simp: still_open_def count_up_def split: if_splits)
  moreover have "g_white_used ?g < clock_ms" "g_black_used ?g < clock_ms" "0 \<le> g_halfmove_clock ?g"
    using s el by (auto simp: still_open_def used_ms_def split: if_splits)
  moreover have "\<not> is_over ?g" "g_ended_at ?g = None" "g_outcome ?g = None"
    using ok go by (auto simp: is_over_def game_ok_def)
  ultimately show ?thesis unfolding h by (intro end_checks_ok)
qed

lemma move_game_same: "move_game e g = Some h \<Longrightarrow> same_pairing g h"
  by (erule move_gameE) (simp add: end_checks_def Let_def finish_draw_ok)

interpretation move: game_action move_game
  by unfold_locales (blast intro: move_game_ok move_game_same)+

lemma initial_not_stuck: "legal_moves initial_board \<noteq> []"
proof -
  have "plain (Square 0 1) (Square 0 2) \<in> set (legal_moves initial_board)"
    by code_simp
  then show ?thesis by (metis list.set(1) empty_iff)
qed

lemma make_game_ok: "w \<noteq> b \<Longrightarrow> game_ok (make_game r i w b time)"
proof -
  assume ne: "w \<noteq> b"
  have "\<not> is_checkmate initial_board" "\<not> is_stalemate initial_board"
    using initial_not_stuck by (simp_all add: is_checkmate_def is_stalemate_def)
  moreover have "\<not> is_insufficient_material initial_board"
    by code_simp
  ultimately show ?thesis
    using ne by (simp add: game_ok_def make_game_def is_over_def still_open_def clock_ms_def g_side_def
        reachable_board.start) (simp add: initial_board_def)
qed

lemma make_game_fields [simp]:
  "g_round (make_game r i w b time) = r" "g_index (make_game r i w b time) = i"
  "g_white (make_game r i w b time) = w" "g_black (make_game r i w b time) = b"
  "g_winner (make_game r i w b time) = None" "\<not> is_over (make_game r i w b time)"
  by (simp_all add: make_game_def is_over_def)

section \<open>Game identifiers\<close>

lemma takeWhile_show: "takeWhile (\<lambda>b. b \<noteq> 45) (show_nat n @ 45 # s) = show_nat n"
proof -
  have "b \<noteq> 45" if "b \<in> set (show_nat n)" for b
    using show_nat_digits [OF that] by (auto simp: is_ascii_digit_def)
  then show ?thesis by (simp add: takeWhile_append2)
qed

lemma game_id_inj:
  assumes "0 \<le> r" "0 \<le> r'"
  shows "game_id r i = game_id r' i' \<longleftrightarrow> r = r' \<and> i = i'"
proof
  assume e: "game_id r i = game_id r' i'"
  then have "takeWhile (\<lambda>b. b \<noteq> 45) (game_id r i) = takeWhile (\<lambda>b. b \<noteq> 45) (game_id r' i')" by simp
  then have "show_nat (nat r) = show_nat (nat r')"
    using assms by (simp add: game_id_def show_int_def ascii_def takeWhile_show)
  then have "r = r'" using assms by simp
  then show "r = r' \<and> i = i'" using e by (simp add: game_id_def)
qed simp

section \<open>The bracket\<close>

text \<open>
  The seats in bracket order: game \<open>(r, i)\<close> is played between the winners among the seats at the
  positions \<open>i * 2 ^ r\<close> up to \<open>(i + 1) * 2 ^ r\<close> of this list.
\<close>

definition seat_order :: "tournament \<Rightarrow> nat list" where
  "seat_order t = (if is_duel t then [0, 1] else [0, 7, 1, 6, 2, 5, 3, 4])"

definition in_subtree :: "tournament \<Rightarrow> int \<Rightarrow> int \<Rightarrow> bytes \<Rightarrow> bool" where
  "in_subtree t r i x \<longleftrightarrow>
     (\<exists>k < length (seat_order t). x = t_players t ! (seat_order t ! k) \<and> i = int k div 2 ^ nat r)"

definition won :: "tournament \<Rightarrow> int \<Rightarrow> int \<Rightarrow> bytes \<Rightarrow> bool" where
  "won t r i x \<longleftrightarrow> Option.bind (t_game t r i) g_winner = Some x"

definition pairing_ok :: "tournament \<Rightarrow> game \<Rightarrow> bool" where
  "pairing_ok t g \<longleftrightarrow>
     1 \<le> g_round g \<and> g_round g \<le> t_rounds t \<and> g_white g \<noteq> g_black g \<and>
     in_subtree t (g_round g) (g_index g) (g_white g) \<and> in_subtree t (g_round g) (g_index g) (g_black g) \<and>
     (g_round g > 1 \<longrightarrow>
        (\<forall>x \<in> {g_white g, g_black g}. \<exists>j. won t (g_round g - 1) j x \<and> j div 2 = g_index g))"

definition seats_ok :: "tournament \<Rightarrow> bool" where
  "seats_ok t \<longleftrightarrow>
     t_capacity t \<in> {2, 8} \<and> distinct (t_players t) \<and> int (length (t_players t)) \<le> t_capacity t \<and>
     hm_ok (t_games t) \<and>
     (if t_started_at t = None then t_games t = [] \<and> int (length (t_players t)) < t_capacity t
      else \<not> t_cancelled t \<and> int (length (t_players t)) = t_capacity t)"

definition games_ok :: "tournament \<Rightarrow> bool" where
  "games_ok t \<longleftrightarrow>
     (\<forall>k g. hm_get (t_games t) k = Some g \<longrightarrow>
        game_ok g \<and> k = game_id (g_round g) (g_index g) \<and> pairing_ok t g)"

text \<open>No pairing is missing: the first round exists, and two decided games have their successor.\<close>

definition complete :: "tournament \<Rightarrow> bool" where
  "complete t \<longleftrightarrow>
     (\<forall>k < length (seat_order t). t_game t 1 (int k div 2) \<noteq> None) \<and>
     (\<forall>r i x y. 1 \<le> r \<longrightarrow> r < t_rounds t \<longrightarrow> won t r (i * 2) x \<longrightarrow> won t r (i * 2 + 1) y \<longrightarrow>
        t_game t (r + 1) i \<noteq> None)"

definition room_ok :: "tournament \<Rightarrow> bool" where
  "room_ok t \<longleftrightarrow> seats_ok t \<and> games_ok t \<and> (t_started_at t \<noteq> None \<longrightarrow> complete t)"

lemma seat_order_facts:
  "distinct (seat_order t)" "seats_ok t \<Longrightarrow> int (length (seat_order t)) = t_capacity t"
  "seats_ok t \<Longrightarrow> set (seat_order t) = {..< length (seat_order t)}"
  "seats_ok t \<Longrightarrow> t_rounds t = (if is_duel t then 1 else 3)"
  by (auto simp: seat_order_def seats_ok_def is_duel_def t_rounds_def)

text \<open>A seated player has one place in the bracket.\<close>

lemma subtree_unique:
  assumes "seats_ok t" and "t_started_at t \<noteq> None" and "in_subtree t r i x" and "in_subtree t r' i' x"
    and "0 \<le> r" and "r \<le> r'"
  shows "i' = i div 2 ^ nat (r' - r)"
proof -
  from assms(3,4) obtain k k' where
    k: "k < length (seat_order t)" "x = t_players t ! (seat_order t ! k)" "i = int k div 2 ^ nat r"
    and k': "k' < length (seat_order t)" "x = t_players t ! (seat_order t ! k')" "i' = int k' div 2 ^ nat r'"
    unfolding in_subtree_def by blast
  have len: "length (t_players t) = length (seat_order t)"
    using assms(1,2) seat_order_facts(2) [OF assms(1)] by (auto simp: seats_ok_def)
  have "seat_order t ! k < length (seat_order t)" "seat_order t ! k' < length (seat_order t)"
    using k(1) k'(1) seat_order_facts(3) [OF assms(1)] nth_mem by blast+
  then have "seat_order t ! k = seat_order t ! k'"
    using k(2) k'(2) assms(1) len by (metis seats_ok_def nth_eq_iff_index_eq)
  then have "k = k'" using k(1) k'(1) seat_order_facts(1) nth_eq_iff_index_eq by metis
  moreover have "nat r' = nat r + nat (r' - r)" using assms(5,6) by simp
  ultimately show ?thesis using k(3) k'(3) by (simp add: power_add zdiv_zmult2_eq)
qed

lemma games_okD:
  assumes "games_ok t" and "t_game t r i = Some g" and "0 \<le> r"
  shows "g_round g = r" "g_index g = i" "game_ok g" "pairing_ok t g"
proof -
  have h: "hm_get (t_games t) (game_id r i) = Some g" using assms(2) by (simp add: t_game_def)
  then have g: "game_ok g" "game_id r i = game_id (g_round g) (g_index g)" "pairing_ok t g"
    using assms(1) unfolding games_ok_def by blast+
  have "0 \<le> g_round g" using g(3) by (simp add: pairing_ok_def)
  with g(2) show "g_round g = r" "g_index g = i" using game_id_inj [OF assms(3)] by auto
  show "game_ok g" "pairing_ok t g" by (rule g)+
qed

lemma won_subtree:
  assumes "games_ok t" and "won t r i x" and "0 \<le> r"
  shows "in_subtree t r i x" "1 \<le> r" "r \<le> t_rounds t"
proof -
  obtain g where g: "t_game t r i = Some g" "g_winner g = Some x"
    using assms(2) by (auto simp: won_def bind_eq_Some_conv)
  note d = games_okD [OF assms(1) g(1) assms(3)]
  have "x = g_white g \<or> x = g_black g" using d(3) g(2) by (simp add: game_ok_def)
  then show "in_subtree t r i x" "1 \<le> r" "r \<le> t_rounds t" using d(1,2,4) by (auto simp: pairing_ok_def)
qed

section \<open>Results are final\<close>

definition extends :: "tournament \<Rightarrow> tournament \<Rightarrow> bool" where
  "extends t t' \<longleftrightarrow>
     t_capacity t' = t_capacity t \<and> t_creator t' = t_creator t \<and>
     (\<forall>s. t_started_at t = Some s \<longrightarrow> t_started_at t' = Some s \<and> t_players t' = t_players t) \<and>
     (t_cancelled t \<longrightarrow> t_cancelled t') \<and>
     (\<forall>k g. hm_get (t_games t) k = Some g \<longrightarrow>
        (\<exists>h. hm_get (t_games t') k = Some h \<and> same_pairing g h \<and> (is_over g \<longrightarrow> h = g)))"

lemma extends_refl [simp]: "extends t t"
  by (auto simp: extends_def)

lemma extends_trans: "extends t u \<Longrightarrow> extends u v \<Longrightarrow> extends t v"
  unfolding extends_def same_pairing_def by (fastforce)

lemma extends_won: "extends t t' \<Longrightarrow> won t r i x \<Longrightarrow> won t' r i x"
proof -
  assume e: "extends t t'" and "won t r i x"
  then obtain g where g: "hm_get (t_games t) (game_id r i) = Some g" "g_winner g = Some x"
    by (auto simp: won_def t_game_def bind_eq_Some_conv)
  then have "hm_get (t_games t') (game_id r i) = Some g"
    using e unfolding extends_def is_over_def by (metis option.distinct(1))
  then show ?thesis using g(2) by (simp add: won_def t_game_def)
qed

lemma pairing_extends:
  assumes "extends t t'" and "t_players t' = t_players t" and "pairing_ok t g" and "same_pairing g h"
  shows "pairing_ok t' h"
proof -
  have "in_subtree t' r i x = in_subtree t r i x" "t_rounds t' = t_rounds t" for r i x
    using assms(1,2) by (simp_all add: in_subtree_def seat_order_def is_duel_def t_rounds_def extends_def)
  then show ?thesis
    using assms(3,4) extends_won [OF assms(1)] unfolding pairing_ok_def same_pairing_def by metis
qed

section \<open>Adding a game\<close>

lemma add_game_fields [simp]:
  "hm_get (t_games (add_game r i w b time t)) k =
     (if k = game_id r i then Some (make_game r i w b time) else hm_get (t_games t) k)"
  "t_players (add_game r i w b time t) = t_players t" "t_capacity (add_game r i w b time t) = t_capacity t"
  "t_started_at (add_game r i w b time t) = t_started_at t"
  "t_cancelled (add_game r i w b time t) = t_cancelled t" "t_creator (add_game r i w b time t) = t_creator t"
  "hm_ok (t_games t) \<Longrightarrow> hm_ok (t_games (add_game r i w b time t))"
  by (simp_all add: add_game_def)

lemma add_game_extends: "t_game t r i = None \<Longrightarrow> extends t (add_game r i w b time t)"
  by (auto simp: extends_def t_game_def)

lemma add_game_won: "t_game t r i = None \<Longrightarrow> won (add_game r i w b time t) r' i' x = won t r' i' x"
  by (auto simp: won_def t_game_def)

lemma add_game_ok:
  assumes "games_ok t" and "t_game t r i = None" and "pairing_ok t (make_game r i w b time)"
  shows "games_ok (add_game r i w b time t)"
proof -
  note e = add_game_extends [OF assms(2), of w b time]
  have p: "pairing_ok (add_game r i w b time t) g" if "pairing_ok t g" for g
    by (rule pairing_extends [OF e _ that]) simp_all
  have "w \<noteq> b" using assms(3) by (simp add: pairing_ok_def)
  then show ?thesis
    using assms(1,3) p make_game_ok unfolding games_ok_def by (auto split: if_splits)
qed

section \<open>Changing a game\<close>

definition set_game :: "bytes \<Rightarrow> game \<Rightarrow> tournament \<Rightarrow> tournament" where
  "set_game k h t = t\<lparr>t_games := hm_insert k h (t_games t)\<rparr>"

lemma set_game_fields [simp]:
  "hm_get (t_games (set_game k h t)) l = (if l = k then Some h else hm_get (t_games t) l)"
  "t_players (set_game k h t) = t_players t" "t_capacity (set_game k h t) = t_capacity t"
  "t_started_at (set_game k h t) = t_started_at t" "t_cancelled (set_game k h t) = t_cancelled t"
  "t_creator (set_game k h t) = t_creator t" "hm_ok (t_games t) \<Longrightarrow> hm_ok (t_games (set_game k h t))"
  "seat_order (set_game k h t) = seat_order t" "t_rounds (set_game k h t) = t_rounds t"
  by (simp_all add: set_game_def seat_order_def is_duel_def t_rounds_def)

lemma set_game_extends:
  "hm_get (t_games t) k = Some g \<Longrightarrow> \<not> is_over g \<Longrightarrow> same_pairing g h \<Longrightarrow> extends t (set_game k h t)"
  by (auto simp: extends_def)

lemma seats_ok_cong:
  "seats_ok t \<Longrightarrow> t_started_at t \<noteq> None \<Longrightarrow> hm_ok (t_games t') \<Longrightarrow> t_capacity t' = t_capacity t \<Longrightarrow>
   t_players t' = t_players t \<Longrightarrow> t_started_at t' = t_started_at t \<Longrightarrow> t_cancelled t' = t_cancelled t \<Longrightarrow>
   seats_ok t'"
  by (simp add: seats_ok_def)

text \<open>After the change, only the successor of the changed game may be missing.\<close>

lemma set_game_ok:
  assumes ok: "room_ok t" and started: "t_started_at t \<noteq> None"
    and g: "hm_get (t_games t) k = Some g" "\<not> is_over g" and h: "game_ok h" "same_pairing g h"
  shows "seats_ok (set_game k h t)" "games_ok (set_game k h t)"
    and "\<not> is_over h \<Longrightarrow> complete (set_game k h t)"
    and "\<And>r i x y. 1 \<le> r \<Longrightarrow> r < t_rounds t \<Longrightarrow> won (set_game k h t) r (i * 2) x \<Longrightarrow>
      won (set_game k h t) r (i * 2 + 1) y \<Longrightarrow> \<not> (r = g_round h \<and> i = g_index h div 2) \<Longrightarrow>
      t_game (set_game k h t) (r + 1) i \<noteq> None"
    and "\<And>j. j < length (seat_order t) \<Longrightarrow> t_game (set_game k h t) 1 (int j div 2) \<noteq> None"
proof -
  note e = set_game_extends [OF g h(2)]
  have games: "games_ok t" and comp: "complete t" and seats: "seats_ok t"
    using ok started by (simp_all add: room_ok_def)
  have key: "k = game_id (g_round g) (g_index g)" and pk: "pairing_ok t g" and gg: "game_ok g"
    using games g(1) unfolding games_ok_def by blast+
  show "seats_ok (set_game k h t)"
    by (rule seats_ok_cong [OF seats started]) (use seats in \<open>simp_all add: seats_ok_def\<close>)
  have p: "pairing_ok (set_game k h t) g'" if "pairing_ok t g''" "same_pairing g'' g'" for g' g''
    by (rule pairing_extends [OF e _ that]) simp
  show "games_ok (set_game k h t)"
    unfolding games_ok_def
  proof (intro allI impI)
    fix l g' assume l: "hm_get (t_games (set_game k h t)) l = Some g'"
    show "game_ok g' \<and> l = game_id (g_round g') (g_index g') \<and> pairing_ok (set_game k h t) g'"
    proof (cases "l = k")
      case True
      then have "g' = h" using l by simp
      moreover have "k = game_id (g_round h) (g_index h)" using key h(2) by (simp add: same_pairing_def)
      ultimately show ?thesis using True h(1) p [OF pk h(2)] by simp
    next
      case False
      then have "hm_get (t_games t) l = Some g'" using l by simp
      then have "game_ok g'" "l = game_id (g_round g') (g_index g')" "pairing_ok t g'"
        using games unfolding games_ok_def by blast+
      then show ?thesis using p by simp
    qed
  qed
  have old: "won t r i x" if "won (set_game k h t) r i x" "0 \<le> r"
    "is_over h \<longrightarrow> \<not> (r = g_round h \<and> i = g_index h)" for r i x
  proof (cases "game_id r i = k")
    case True
    then have "r = g_round g" "i = g_index g" using key that(2) game_id_inj [OF that(2)] pk
      by (auto simp: pairing_ok_def)
    then have "\<not> is_over h" using that(3) h(2) by (auto simp: same_pairing_def)
    then show ?thesis using that(1) True by (auto simp: won_def t_game_def is_over_def)
  next
    case False
    then show ?thesis using that(1) by (simp add: won_def t_game_def)
  qed
  have keep: "t_game t r i \<noteq> None \<Longrightarrow> t_game (set_game k h t) r i \<noteq> None" for r i
    by (auto simp: t_game_def)
  show first: "t_game (set_game k h t) 1 (int j div 2) \<noteq> None" if "j < length (seat_order t)" for j
    using comp that keep unfolding complete_def by blast
  show "t_game (set_game k h t) (r + 1) i \<noteq> None"
    if "1 \<le> r" "r < t_rounds t" "won (set_game k h t) r (i * 2) x" "won (set_game k h t) r (i * 2 + 1) y"
      "\<not> (r = g_round h \<and> i = g_index h div 2)" for r i x y
  proof -
    have "0 \<le> r" using that(1) by simp
    have "won t r (i * 2) x" by (rule old [OF that(3) \<open>0 \<le> r\<close>]) (use that(5) in auto)
    moreover have "won t r (i * 2 + 1) y" by (rule old [OF that(4) \<open>0 \<le> r\<close>]) (use that(5) in auto)
    ultimately show ?thesis using comp that(1,2) keep unfolding complete_def by blast
  qed
  show "complete (set_game k h t)" if nov: "\<not> is_over h"
    unfolding complete_def set_game_fields
  proof (intro conjI allI impI)
    fix r i x y
    assume a: "1 \<le> r" "r < t_rounds t" "won (set_game k h t) r (i * 2) x"
      "won (set_game k h t) r (i * 2 + 1) y"
    have "0 \<le> r" using a(1) by simp
    have "won t r (i * 2) x" "won t r (i * 2 + 1) y"
      using old [OF a(3) \<open>0 \<le> r\<close>] old [OF a(4) \<open>0 \<le> r\<close>] nov by blast+
    then show "t_game (set_game k h t) (r + 1) i \<noteq> None"
      using comp a(1,2) keep unfolding complete_def by blast
  qed (rule first)
qed

section \<open>Pairing the next round\<close>

text \<open>What \<open>advance_after\<close> needs of a room in which the game \<open>gid\<close> has just ended.\<close>

lemma t_rounds_cases: "t_rounds t = 1 \<or> t_rounds t = 3"
  by (simp add: t_rounds_def)

lemma subtree_parent: "in_subtree t r i x \<Longrightarrow> 0 \<le> r \<Longrightarrow> in_subtree t (r + 1) (i div 2) x"
proof -
  assume "in_subtree t r i x" and "0 \<le> r"
  then obtain k where k: "k < length (seat_order t)" "x = t_players t ! (seat_order t ! k)"
    "i = int k div 2 ^ nat r" unfolding in_subtree_def by blast
  have "nat (r + 1) = nat r + 1" using \<open>0 \<le> r\<close> by simp
  then have "int k div 2 ^ nat (r + 1) = int k div (2 ^ nat r * 2)" by (simp add: mult.commute)
  also have "\<dots> = i div 2" unfolding k(3) by (rule zdiv_zmult2_eq) simp
  finally have "i div 2 = int k div 2 ^ nat (r + 1)" by (rule sym)
  then show ?thesis using k(1,2) unfolding in_subtree_def by blast
qed

lemma winners_differ:
  assumes "seats_ok t" and "t_started_at t \<noteq> None" and "games_ok t"
    and "won t r (i * 2) a" and "won t r (i * 2 + 1) b" and "1 \<le> r"
  shows "a \<noteq> b"
proof
  assume "a = b"
  have "0 \<le> r" using assms(6) by simp
  have "in_subtree t r (i * 2) a" "in_subtree t r (i * 2 + 1) a"
    using won_subtree(1) [OF assms(3) assms(4) \<open>0 \<le> r\<close>] won_subtree(1) [OF assms(3) assms(5) \<open>0 \<le> r\<close>]
      \<open>a = b\<close> by simp_all
  from subtree_unique [OF assms(1,2) this \<open>0 \<le> r\<close> order_refl] show False by simp
qed

lemma next_pairing:
  assumes "seats_ok t" and "t_started_at t \<noteq> None" and "games_ok t"
    and "won t r (i * 2) a" and "won t r (i * 2 + 1) b" and "1 \<le> r" and "r < t_rounds t"
    and "{w, l} = {a, b}"
  shows "pairing_ok t (make_game (r + 1) i w l time)"
proof -
  have "0 \<le> r" using assms(6) by simp
  have ne: "a \<noteq> b" by (rule winners_differ [OF assms(1-6)])
  have "in_subtree t r (i * 2) a" "in_subtree t r (i * 2 + 1) b"
    using won_subtree(1) [OF assms(3) _ \<open>0 \<le> r\<close>] assms(4,5) by blast+
  then have "in_subtree t (r + 1) i a" "in_subtree t (r + 1) i b"
    using subtree_parent [OF _ \<open>0 \<le> r\<close>] by fastforce+
  moreover have "\<exists>j. won t r j a \<and> j div 2 = i" by (rule exI [of _ "i * 2"]) (simp add: assms(4))
  moreover have "\<exists>j. won t r j b \<and> j div 2 = i" by (rule exI [of _ "i * 2 + 1"]) (simp add: assms(5))
  moreover have "w = a \<and> l = b \<or> w = b \<and> l = a" using assms(8) by (auto simp: doubleton_eq_iff)
  ultimately show ?thesis using assms(6,7) ne
    by (elim disjE conjE) (simp_all add: pairing_ok_def)
qed

lemma advance_ok:
  assumes seats: "seats_ok t" and started: "t_started_at t \<noteq> None" and games: "games_ok t"
    and g: "hm_get (t_games t) gid = Some g" "is_over g"
    and first: "\<And>j. j < length (seat_order t) \<Longrightarrow> t_game t 1 (int j div 2) \<noteq> None"
    and rest: "\<And>r i x y. 1 \<le> r \<Longrightarrow> r < t_rounds t \<Longrightarrow> won t r (i * 2) x \<Longrightarrow> won t r (i * 2 + 1) y \<Longrightarrow>
      \<not> (r = g_round g \<and> i = g_index g div 2) \<Longrightarrow> t_game t (r + 1) i \<noteq> None"
  shows "room_ok (advance_after gid t)" "extends t (advance_after gid t)"
proof -
  define r where "r = g_round g"
  define i where "i = g_index g div 2"
  have gok: "game_ok g" and "pairing_ok t g" using games g(1) unfolding games_ok_def by blast+
  then have r1: "1 \<le> r" "0 \<le> r" by (auto simp: pairing_ok_def r_def)
  obtain ended where ended: "g_ended_at g = Some ended" using gok g(2) by (auto simp: game_ok_def is_over_def)
  have same: "room_ok t" if "\<And>x y. r < t_rounds t \<Longrightarrow> won t r (i * 2) x \<Longrightarrow> won t r (i * 2 + 1) y \<Longrightarrow>
      t_game t (r + 1) i \<noteq> None"
    using that first rest seats games unfolding room_ok_def complete_def r_def i_def by metis
  have "room_ok (advance_after gid t) \<and> extends t (advance_after gid t)"
  proof (cases "r < t_rounds t \<and> t_game t (r + 1) i = None \<and>
      (\<exists>a b. won t r (i * 2) a \<and> won t r (i * 2 + 1) b)")
    case False
    then have "advance_after gid t = t"
      using g(1) ended by (auto simp: advance_after_def r_def i_def won_def Let_def split: option.split)
    then show ?thesis using same False by auto
  next
    case True
    then obtain a b where ab: "r < t_rounds t" "t_game t (r + 1) i = None" "won t r (i * 2) a"
      "won t r (i * 2 + 1) b" by blast
    obtain w l where wl: "{w, l} = {a, b}" and adv: "advance_after gid t = add_game (r + 1) i w l ended t"
    proof (cases "white_first t a b")
      case True
      then show ?thesis using g(1) ended ab by (intro that [of a b])
        (simp_all add: advance_after_def r_def i_def won_def Let_def)
    next
      case False
      then show ?thesis using g(1) ended ab by (intro that [of b a])
        (auto simp add: advance_after_def r_def i_def won_def Let_def)
    qed
    have "games_ok (add_game (r + 1) i w l ended t)"
      by (rule add_game_ok [OF games ab(2) next_pairing [OF seats started games ab(3,4) r1(1) ab(1) wl]])
    moreover have "seats_ok (add_game (r + 1) i w l ended t)"
      by (rule seats_ok_cong [OF seats started]) (use seats in \<open>simp_all add: seats_ok_def\<close>)
    moreover have "complete (add_game (r + 1) i w l ended t)"
      unfolding complete_def add_game_won [OF ab(2)]
    proof (intro conjI allI impI)
      have keep: "t_game t r' i' \<noteq> None \<Longrightarrow> t_game (add_game (r + 1) i w l ended t) r' i' \<noteq> None" for r' i'
        by (simp add: t_game_def)
      show "t_game (add_game (r + 1) i w l ended t) 1 (int j div 2) \<noteq> None"
        if "j < length (seat_order (add_game (r + 1) i w l ended t))" for j
        using that first keep by (simp add: seat_order_def is_duel_def)
      show "t_game (add_game (r + 1) i w l ended t) (r' + 1) i' \<noteq> None"
        if "1 \<le> r'" "r' < t_rounds (add_game (r + 1) i w l ended t)" "won t r' (i' * 2) x" "won t r' (i' * 2 + 1) y"
        for r' i' x y
      proof (cases "r' = r \<and> i' = i")
        case True
        then show ?thesis by (simp add: t_game_def)
      next
        case False
        have "t_rounds (add_game (r + 1) i w l ended t) = t_rounds t" by (simp add: t_rounds_def is_duel_def)
        then show ?thesis using rest [OF that(1) _ that(3,4)] that(2) False keep by (simp add: r_def i_def)
      qed
    qed
    ultimately show ?thesis unfolding adv room_ok_def by (simp add: add_game_extends [OF ab(2)])
  qed
  then show "room_ok (advance_after gid t)" "extends t (advance_after gid t)" by simp_all
qed

section \<open>Starting a room\<close>

lemma start_shape:
  "start_room time t =
     (if is_duel t then add_game 1 0 (t_players t ! 0) (t_players t ! 1) time (t\<lparr>t_started_at := Some time\<rparr>)
      else add_game 1 3 (t_players t ! 3) (t_players t ! 4) time
            (add_game 1 2 (t_players t ! 2) (t_players t ! 5) time
              (add_game 1 1 (t_players t ! 1) (t_players t ! 6) time
                (add_game 1 0 (t_players t ! 0) (t_players t ! 7) time (t\<lparr>t_started_at := Some time\<rparr>)))))"
  by (simp add: start_room_def first_pairs_def Let_def is_duel_def)

lemma first_pairing:
  assumes "distinct (t_players t)" and "length (t_players t) = length (seat_order t)"
    and "k + 1 < length (seat_order t)" and "i = int k div 2" and "even k"
  shows "pairing_ok t (make_game 1 i (t_players t ! (seat_order t ! k)) (t_players t ! (seat_order t ! (k + 1))) time)"
proof -
  have sub: "in_subtree t 1 i (t_players t ! (seat_order t ! j))" if "j = k \<or> j = k + 1" for j
    using that assms(3-5) unfolding in_subtree_def by (intro exI [of _ j]) auto
  have set: "set (seat_order t) = {..< length (seat_order t)}" by (auto simp: seat_order_def)
  then have "seat_order t ! k < length (t_players t)" "seat_order t ! (k + 1) < length (t_players t)"
    using assms(2,3) nth_mem [of k "seat_order t"] nth_mem [of "k + 1" "seat_order t"] by auto
  moreover have "seat_order t ! k \<noteq> seat_order t ! (k + 1)"
    using seat_order_facts(1) [of t] assms(3) by (simp add: nth_eq_iff_index_eq)
  ultimately have "t_players t ! (seat_order t ! k) \<noteq> t_players t ! (seat_order t ! (k + 1))"
    using assms(1) by (simp add: nth_eq_iff_index_eq)
  then show ?thesis using sub t_rounds_cases [of t] by (auto simp: pairing_ok_def)
qed

lemma add_game_seat [simp]:
  "seat_order (add_game r i w b time t) = seat_order t" "t_rounds (add_game r i w b time t) = t_rounds t"
  by (simp_all add: seat_order_def t_rounds_def is_duel_def)

lemma start_ok:
  assumes "t_capacity t \<in> {2, 8}" "distinct (t_players t)" "int (length (t_players t)) = t_capacity t"
    and "t_games t = []" "\<not> t_cancelled t"
  shows "room_ok (start_room time t)" "t_started_at (start_room time t) = Some time"
    "t_players (start_room time t) = t_players t"
    "t_capacity (start_room time t) = t_capacity t" "t_creator (start_room time t) = t_creator t"
proof -
  define t0 where "t0 = t\<lparr>t_started_at := Some time\<rparr>"
  have t0: "t_games t0 = []" "t_players t0 = t_players t" "t_capacity t0 = t_capacity t"
    "t_started_at t0 = Some time" "\<not> t_cancelled t0" "t_creator t0 = t_creator t"
    using assms by (simp_all add: t0_def)
  have so: "seat_order t0 = seat_order t" "is_duel t0 = is_duel t" "length (t_players t) = length (seat_order t)"
    using assms(1,3) by (auto simp: t0_def seat_order_def is_duel_def)
  have empty: "games_ok t0" "t_game t0 r i = None" "\<not> won t0 r i x" for r i x
    using t0(1) by (simp_all add: games_ok_def t_game_def won_def)
  have pair: "pairing_ok t0 (make_game 1 i (t_players t ! (seat_order t ! k)) (t_players t ! (seat_order t ! (k + 1))) time)"
    if "k + 1 < length (seat_order t)" "i = int k div 2" "even k" for k i
    using first_pairing [of t0 k i] that assms(2) so t0(2) by simp
  let ?s = "start_room time t"
  show fields: "t_started_at ?s = Some time" "t_players ?s = t_players t"
    "t_capacity ?s = t_capacity t" "t_creator ?s = t_creator t"
    by (simp_all add: start_shape)
  have "hm_ok (t_games ?s)" "t_cancelled ?s = False"
    using assms(4,5) by (simp_all add: start_shape)
  then have seats: "seats_ok ?s" using assms(1-3) fields by (auto simp: seats_ok_def)
  have rest: "games_ok ?s \<and> (\<forall>k < length (seat_order t). t_game ?s 1 (int k div 2) \<noteq> None) \<and>
    (\<forall>r i x. \<not> won ?s r i x) \<and> seat_order ?s = seat_order t"
  proof (cases "is_duel t")
    case True
    have s: "?s = add_game 1 0 (t_players t ! 0) (t_players t ! 1) time t0"
      using True by (simp add: start_shape t0_def)
    have "games_ok ?s" unfolding s
      by (rule add_game_ok [OF empty(1,2)])
        (use pair [of 0 0] True in \<open>simp add: seat_order_def\<close>)
    then show ?thesis using True empty unfolding s add_game_won [OF empty(2)]
      by (auto simp: t_game_def seat_order_def is_duel_def t0_def)
  next
    case False
    define t1 where "t1 = add_game 1 0 (t_players t ! 0) (t_players t ! 7) time t0"
    define t2 where "t2 = add_game 1 1 (t_players t ! 1) (t_players t ! 6) time t1"
    define t3 where "t3 = add_game 1 2 (t_players t ! 2) (t_players t ! 5) time t2"
    have s: "?s = add_game 1 3 (t_players t ! 3) (t_players t ! 4) time t3"
      using False by (simp add: start_shape t0_def t1_def t2_def t3_def)
    have so8: "seat_order t = [0, 7, 1, 6, 2, 5, 3, 4]" using False by (simp add: seat_order_def)
    have free: "t_game t1 1 1 = None" "t_game t2 1 2 = None" "t_game t3 1 3 = None"
      using empty(2) by (simp_all add: t1_def t2_def t3_def t_game_def game_id_inj)
    have ext: "extends t0 t1" unfolding t1_def by (rule add_game_extends [OF empty(2)])
    have ext2: "extends t1 t2" unfolding t2_def by (rule add_game_extends [OF free(1)])
    have ext3: "extends t2 t3" unfolding t3_def by (rule add_game_extends [OF free(2)])
    have players: "t_players t1 = t_players t0" "t_players t2 = t_players t0" "t_players t3 = t_players t0"
      by (simp_all add: t1_def t2_def t3_def)
    have p: "pairing_ok t0 (make_game 1 0 (t_players t ! 0) (t_players t ! 7) time)"
      "pairing_ok t0 (make_game 1 1 (t_players t ! 1) (t_players t ! 6) time)"
      "pairing_ok t0 (make_game 1 2 (t_players t ! 2) (t_players t ! 5) time)"
      "pairing_ok t0 (make_game 1 3 (t_players t ! 3) (t_players t ! 4) time)"
      using pair [of 0 0] pair [of 2 1] pair [of 4 2] pair [of 6 3] by (simp_all add: so8)
    have g1: "games_ok t1" unfolding t1_def by (rule add_game_ok [OF empty(1,2) p(1)])
    have g2: "games_ok t2" unfolding t2_def
      by (rule add_game_ok [OF g1 free(1) pairing_extends [OF ext players(1) p(2) same_pairing_refl]])
    have e2: "extends t0 t2" by (rule extends_trans [OF ext ext2])
    have g3: "games_ok t3" unfolding t3_def
      by (rule add_game_ok [OF g2 free(2) pairing_extends [OF e2 players(2) p(3) same_pairing_refl]])
    have e3: "extends t0 t3" by (rule extends_trans [OF e2 ext3])
    have "games_ok ?s" unfolding s
      by (rule add_game_ok [OF g3 free(3) pairing_extends [OF e3 players(3) p(4) same_pairing_refl]])
    moreover have "won ?s r i x = won t0 r i x" for r i x
      unfolding s t3_def t2_def t1_def
      using add_game_won free empty(2) unfolding t3_def t2_def t1_def by simp
    moreover have "t_game ?s 1 (int k div 2) \<noteq> None" if "k < length (seat_order t)" for k
    proof -
      have "int k div 2 \<in> {0, 1, 2, 3}" using that by (auto simp: so8)
      then show ?thesis by (auto simp: s t3_def t2_def t1_def t_game_def)
    qed
    moreover have "seat_order ?s = seat_order t" using so(1) by (simp add: s t3_def t2_def t1_def)
    ultimately show ?thesis using empty(3) by blast
  qed
  then show "room_ok ?s" using seats unfolding room_ok_def complete_def by auto
qed

section \<open>Seats\<close>

lemma open_room_ok:
  "is_open t \<Longrightarrow> room_ok t \<longleftrightarrow>
     t_capacity t \<in> {2, 8} \<and> distinct (t_players t) \<and> int (length (t_players t)) < t_capacity t \<and> t_games t = []"
  by (auto simp: is_open_def room_ok_def seats_ok_def games_ok_def)

lemma expire_fields:
  "t_capacity (expire_seats time t) = t_capacity t" "t_games (expire_seats time t) = t_games t"
  "t_started_at (expire_seats time t) = t_started_at t" "t_cancelled (expire_seats time t) = t_cancelled t"
  "t_creator (expire_seats time t) = t_creator t" "is_open (expire_seats time t) = is_open t"
  by (simp_all add: expire_seats_def Let_def is_open_def)

lemma expire_players:
  "t_players (expire_seats time t) =
     filter (\<lambda>p. (case hm_get (t_joined_at t) p of Some j \<Rightarrow> j | None \<Rightarrow> t_created_at t) + seat_ttl_ms > time)
       (t_players t)"
  by (auto simp: expire_seats_def Let_def) (metis filter_id_conv length_filter_less less_irrefl)

lemma expire_ok: "is_open t \<Longrightarrow> room_ok t \<Longrightarrow> room_ok (expire_seats time t)"
  unfolding open_room_ok [of t] open_room_ok [of "expire_seats time t", unfolded expire_fields]
  by (auto simp: expire_fields expire_players intro: le_less_trans [OF of_nat_mono [OF length_filter_le]])

lemma open_extends:
  "is_open t \<Longrightarrow> room_ok t \<Longrightarrow> t_capacity t' = t_capacity t \<Longrightarrow> t_creator t' = t_creator t \<Longrightarrow> extends t t'"
  by (auto simp: open_room_ok extends_def is_open_def)

lemma seat_player_ok:
  assumes "room_ok t"
  shows "room_ok (seat_player e t)" "extends t (seat_player e t)"
proof -
  have "room_ok (seat_player e t) \<and> extends t (seat_player e t)"
  proof (cases "is_open t")
    case False
    then show ?thesis using assms by (simp add: seat_player_def)
  next
    case True
    define u where "u = expire_seats (ae_block_time e) t"
    define v where "v = u\<lparr>t_players := t_players u @ [ae_sender e],
      t_joined_at := hm_insert (ae_sender e) (ae_block_time e) (t_joined_at u)\<rparr>"
    have u: "room_ok u" "is_open u" "t_capacity u = t_capacity t" "t_creator u = t_creator t"
      using expire_ok [OF True assms] True by (simp_all add: u_def expire_fields)
    note uo = u(1) [unfolded open_room_ok [OF u(2)]]
    have shape: "seat_player e t =
      (if ae_sender e \<in> set (t_players u) then u
       else if int (length (t_players v)) = t_capacity v then start_room (ae_block_time e) v else v)"
      using True by (simp add: seat_player_def u_def v_def Let_def)
    have v: "t_capacity v = t_capacity t" "t_creator v = t_creator t" "t_games v = []" "is_open v"
      "t_capacity v \<in> {2, 8}" "\<not> t_cancelled v"
      using u uo by (auto simp: v_def is_open_def)
    have d: "ae_sender e \<notin> set (t_players u) \<Longrightarrow> distinct (t_players v)" using uo by (simp add: v_def)
    have l: "int (length (t_players v)) \<le> t_capacity v" using uo by (simp add: v_def)
    have "room_ok (seat_player e t)"
      unfolding shape using u(1) start_ok(1) [OF v(5) d _ v(3,6)] open_room_ok [OF v(4)] v d l by auto
    moreover have "t_capacity (seat_player e t) = t_capacity t \<and> t_creator (seat_player e t) = t_creator t"
      unfolding shape using u v by (auto simp: start_shape)
    ultimately show ?thesis using open_extends [OF True assms] by blast
  qed
  then show "room_ok (seat_player e t)" "extends t (seat_player e t)" by simp_all
qed

lemma leave_room_ok:
  assumes "room_ok t"
  shows "room_ok (leave_room e t)" "extends t (leave_room e t)"
proof -
  have "room_ok (leave_room e t) \<and> extends t (leave_room e t)"
  proof (cases "is_open t")
    case False
    then show ?thesis using assms by (simp add: leave_room_def)
  next
    case True
    note o = assms [unfolded open_room_ok [OF True]]
    have op: "is_open (leave_room e t)" using True by (auto simp: leave_room_def is_open_def split: option.split)
    have "distinct (take i xs @ drop (Suc i) xs)" "length (take i xs @ drop (Suc i) xs) \<le> length xs"
      if "distinct xs" for i and xs :: "bytes list"
      using that by (auto simp: set_take_disj_set_drop_if_distinct)
    then have "distinct (t_players (leave_room e t))"
      "length (t_players (leave_room e t)) \<le> length (t_players t)"
      using o by (auto simp: leave_room_def split: option.split)
    moreover have "t_capacity (leave_room e t) = t_capacity t" "t_creator (leave_room e t) = t_creator t"
      "t_games (leave_room e t) = t_games t"
      by (simp_all add: leave_room_def split: option.split)
    ultimately show ?thesis using o open_room_ok [OF op] open_extends [OF True assms] by auto
  qed
  then show "room_ok (leave_room e t)" "extends t (leave_room e t)" by simp_all
qed

lemma cancel_room_ok:
  assumes "room_ok t"
  shows "room_ok (cancel_room e t)" "extends t (cancel_room e t)"
  using assms
  by (auto simp: cancel_room_def room_ok_def seats_ok_def games_ok_def is_open_def extends_def
      split: if_splits)

section \<open>The room contract\<close>

definition rooms_ok :: "rooms \<Rightarrow> bool" where
  "rooms_ok ts \<longleftrightarrow> hm_ok ts \<and> (\<forall>k t. hm_get ts k = Some t \<longrightarrow> room_ok t)"

definition rooms_extend :: "rooms \<Rightarrow> rooms \<Rightarrow> bool" where
  "rooms_extend ts ts' \<longleftrightarrow>
     (\<forall>k t. hm_get ts k = Some t \<longrightarrow> (\<exists>t'. hm_get ts' k = Some t' \<and> extends t t'))"

lemma rooms_extend_refl [simp]: "rooms_extend ts ts"
  by (auto simp: rooms_extend_def)

lemma rooms_extend_trans: "rooms_extend a b \<Longrightarrow> rooms_extend b c \<Longrightarrow> rooms_extend a c"
  unfolding rooms_extend_def by (blast dest: extends_trans)

locale room_action =
  fixes run :: "arena_event \<Rightarrow> tournament \<Rightarrow> tournament"
  assumes run_ok: "room_ok t \<Longrightarrow> room_ok (run e t)"
    and run_extends: "room_ok t \<Longrightarrow> extends t (run e t)"
begin

lemma update_ok: "rooms_ok ts \<Longrightarrow> rooms_ok (update_room k (run e) ts)"
  by (auto simp: rooms_ok_def update_room_def run_ok split: option.split)

lemma update_extends: "rooms_ok ts \<Longrightarrow> rooms_extend ts (update_room k (run e) ts)"
  by (auto simp: rooms_ok_def rooms_extend_def update_room_def run_extends split: option.split)

end

interpretation seat: room_action seat_player
  by unfold_locales (blast intro: seat_player_ok)+

interpretation leave: room_action leave_room
  by unfold_locales (blast intro: leave_room_ok)+

interpretation cancel: room_action cancel_room
  by unfold_locales (blast intro: cancel_room_ok)+

text \<open>An action on a game gives one on its room: pairing the next round is part of the frame.\<close>

lemma on_game_cases:
  obtains (same) "on_game act e t = t"
  | (changed) k g h where "is_live t" "hm_get (t_games t) k = Some g" "\<not> is_over g" "act e g = Some h"
      "on_game act e t = (if is_over h then advance_after k (set_game k h t) else set_game k h t)"
proof (cases "\<exists>k g h. is_live t \<and> msg_g (ae_message e) = Some k \<and> hm_get (t_games t) k = Some g \<and>
    \<not> is_over g \<and> act e g = Some h")
  case True
  then obtain k g h where "is_live t" "msg_g (ae_message e) = Some k" "hm_get (t_games t) k = Some g"
    "\<not> is_over g" "act e g = Some h" by blast
  then show ?thesis by (intro changed [of k g h]) (simp_all add: on_game_def set_game_def Let_def)
next
  case False
  then have "on_game act e t = t" by (auto simp: on_game_def split: option.split)
  then show ?thesis by (rule same)
qed

sublocale game_action \<subseteq> on_game: room_action "on_game act"
proof
  fix t e
  assume ok: "room_ok t"
  have "room_ok (on_game act e t) \<and> extends t (on_game act e t)"
  proof (cases rule: on_game_cases [of act e t])
    case same
    then show ?thesis using ok by simp
  next
    case (changed k g h)
    have started: "t_started_at t \<noteq> None" using changed(1) by (simp add: is_live_def)
    have "game_ok g" using ok changed(2) unfolding room_ok_def games_ok_def by blast
    then have h: "game_ok h" "same_pairing g h" using act_ok act_same changed(3,4) by blast+
    note s = set_game_ok [OF ok started changed(2,3) h]
    note e = set_game_extends [OF changed(2,3) h(2)]
    show ?thesis
    proof (cases "is_over h")
      case False
      then show ?thesis using s(1-3) e changed(5) started by (simp add: room_ok_def)
    next
      case True
      have "room_ok (advance_after k (set_game k h t))" "extends (set_game k h t) (advance_after k (set_game k h t))"
        using advance_ok [OF s(1) _ s(2) _ True, of k] s(4,5) started by simp_all
      then show ?thesis using changed(5) True extends_trans [OF e] by simp
    qed
  qed
  then show "room_ok (on_game act e t)" "extends t (on_game act e t)" by simp_all
qed

lemmas actions_ok = seat.update_ok leave.update_ok cancel.update_ok move.on_game.update_ok
  resign.on_game.update_ok claim.on_game.update_ok

lemmas actions_extend = seat.update_extends leave.update_extends cancel.update_extends
  move.on_game.update_extends resign.on_game.update_extends claim.on_game.update_extends

section \<open>The replay\<close>

lemma new_room_ok: "c \<in> {2, 8} \<Longrightarrow> room_ok (new_room a time c)"
  by (auto simp: room_ok_def seats_ok_def games_ok_def new_room_def)

lemma insert_rooms:
  "rooms_ok ts \<Longrightarrow> room_ok t \<Longrightarrow> rooms_ok (hm_insert k t ts)"
  "hm_get ts k = None \<Longrightarrow> rooms_extend ts (hm_insert k t ts)"
  by (auto simp: rooms_ok_def rooms_extend_def)

lemma create_ok:
  assumes "rooms_ok ts"
  shows "rooms_ok (apply_create sha e ts)" "rooms_extend ts (apply_create sha e ts)"
proof -
  have "room_ok ((new_room a time c)\<lparr>t_players := [a], t_joined_at := m\<rparr>)" if "c \<in> {2, 8}" for a time c m
    using that by (auto simp: room_ok_def seats_ok_def games_ok_def new_room_def)
  then show "rooms_ok (apply_create sha e ts)" "rooms_extend ts (apply_create sha e ts)"
    using assms by (simp_all add: apply_create_def Let_def insert_rooms player_count_def)
qed

lemma join_ok:
  assumes "rooms_ok ts"
  shows "rooms_ok (apply_join e ts)" "rooms_extend ts (apply_join e ts)"
proof -
  have "rooms_ok us \<and> rooms_extend ts us" if "open_room e ts = Some us" for us
    using that assms
    by (auto simp: open_room_def Let_def player_count_def intro: insert_rooms new_room_ok split: if_splits)
  then show "rooms_ok (apply_join e ts)" "rooms_extend ts (apply_join e ts)"
    using assms seat.update_ok rooms_extend_trans [OF _ seat.update_extends]
    by (auto simp: apply_join_def split: option.split)
qed

lemma apply_event_ok:
  assumes "rooms_ok ts"
  shows "rooms_ok (apply_event sha e ts)" "rooms_extend ts (apply_event sha e ts)"
  using assms create_ok join_ok actions_ok actions_extend by (simp_all add: apply_event_def Let_def)

interpretation rooms: replay chain_order "apply_event sha" "[]" "reduce sha" for sha
  by unfold_locales (simp add: reduce_def)

lemma reduce_ok: "rooms_ok (reduce sha events)"
  by (rule rooms.keeps [where P = rooms_ok])
    (simp_all add: apply_event_ok(1), simp add: rooms_ok_def)

lemma fold_events_ok:
  "rooms_ok ts \<Longrightarrow> rooms_ok (fold (apply_event sha) es ts) \<and> rooms_extend ts (fold (apply_event sha) es ts)"
proof (induction es arbitrary: ts)
  case Nil
  then show ?case by simp
next
  case (Cons e es)
  have "rooms_ok (apply_event sha e ts)" by (rule apply_event_ok(1) [OF Cons.prems])
  note step = Cons.IH [OF this]
  have "rooms_extend ts (fold (apply_event sha) es (apply_event sha e ts))"
    by (rule rooms_extend_trans [OF apply_event_ok(2) [OF Cons.prems] step [THEN conjunct2]])
  then show ?case using step by simp
qed

section \<open>Single elimination\<close>

lemma plays_then_won:
  assumes "games_ok t" and "t_game t r' i = Some g" and "x = g_white g \<or> x = g_black g"
    and "1 \<le> r" and "r < r'"
  shows "\<exists>j. won t r j x"
  using assms(2,3,5)
proof (induction "nat (r' - r)" arbitrary: r' i g)
  case 0
  then show ?case by simp
next
  case (Suc n)
  have "0 \<le> r'" using assms(4) Suc.prems(3) by simp
  note d = games_okD [OF assms(1) Suc.prems(1) this]
  have "1 < g_round g" using d(1) assms(4) Suc.prems(3) by simp
  then obtain j where j: "won t (r' - 1) j x" using d(1,4) Suc.prems(2) by (auto simp: pairing_ok_def)
  show ?case
  proof (cases "r = r' - 1")
    case True
    then show ?thesis using j by blast
  next
    case False
    then have lt: "r < r' - 1" "n = nat (r' - 1 - r)" "0 \<le> r' - 1" using Suc.prems(3) Suc.hyps(2) assms(4) by auto
    obtain h where h: "t_game t (r' - 1) j = Some h" "g_winner h = Some x"
      using j by (auto simp: won_def bind_eq_Some_conv)
    have "x = g_white h \<or> x = g_black h"
      using games_okD(3) [OF assms(1) h(1) lt(3)] h(2) by (simp add: game_ok_def)
    from Suc.hyps(1) [OF lt(2) h(1) this lt(1)] show ?thesis .
  qed
qed

text \<open>Who has lost a game plays no other.\<close>

definition lost :: "bytes \<Rightarrow> game \<Rightarrow> bool" where
  "lost x g \<longleftrightarrow> (x = g_white g \<or> x = g_black g) \<and> is_over g \<and> g_winner g \<noteq> Some x"

lemma room_game_at:
  assumes "room_ok t" and "hm_get (t_games t) k = Some g"
  shows "t_game t (g_round g) (g_index g) = Some g" "1 \<le> g_round g" "0 \<le> g_round g"
    "k = game_id (g_round g) (g_index g)" "pairing_ok t g" "game_ok g" "t_started_at t \<noteq> None"
proof -
  have k: "k = game_id (g_round g) (g_index g)" "pairing_ok t g" "game_ok g"
    using assms unfolding room_ok_def games_ok_def by blast+
  then show "t_game t (g_round g) (g_index g) = Some g" "1 \<le> g_round g" "0 \<le> g_round g"
    "k = game_id (g_round g) (g_index g)" "pairing_ok t g" "game_ok g"
    using assms(2) by (auto simp: t_game_def pairing_ok_def)
  show "t_started_at t \<noteq> None"
  proof
    assume "t_started_at t = None"
    then have "t_games t = []" using assms(1) by (simp add: room_ok_def seats_ok_def)
    then show False using assms(2) by simp
  qed
qed

lemma loser_plays_no_more:
  assumes ok: "room_ok t" and g: "hm_get (t_games t) k = Some g" "lost x g"
    and h: "hm_get (t_games t) l = Some h" "x = g_white h \<or> x = g_black h"
  shows "k = l \<or> g_round h < g_round g"
proof (rule ccontr)
  assume neg: "\<not> (k = l \<or> g_round h < g_round g)"
  note dg = room_game_at [OF ok g(1)] and dh = room_game_at [OF ok h(1)]
  have games: "games_ok t" and seats: "seats_ok t" using ok by (simp_all add: room_ok_def)
  have xg: "in_subtree t (g_round g) (g_index g) x" using g(2) dg(5) by (auto simp: lost_def pairing_ok_def)
  have xh: "in_subtree t (g_round h) (g_index h) x" using h(2) dh(5) by (auto simp: pairing_ok_def)
  show False
  proof (cases "g_round g = g_round h")
    case True
    have "g_index h = g_index g"
      using subtree_unique [OF seats dg(7) xg xh [folded True] dg(3) order_refl] by simp
    then show False using neg dg(4) dh(4) True by simp
  next
    case False
    then have lt: "g_round g < g_round h" using neg by simp
    obtain j where j: "won t (g_round g) j x" using plays_then_won [OF games dh(1) h(2) dg(2) lt] by blast
    have "g_index g = j div 2 ^ nat 0"
      using subtree_unique [OF seats dg(7) won_subtree(1) [OF games j dg(3)] xg dg(3) order_refl] by simp
    then have "won t (g_round g) (g_index g) x" using j by simp
    then show False using dg(1) g(2) by (simp add: won_def lost_def)
  qed
qed

lemma lost_once:
  assumes "room_ok t" and "hm_get (t_games t) k = Some g" "lost x g"
    and "hm_get (t_games t) l = Some h" "lost x h"
  shows "k = l"
  using loser_plays_no_more [OF assms(1-4)] loser_plays_no_more [OF assms(1,4,5,2)] assms(3,5)
  by (auto simp: lost_def)

lemma champion_never_lost:
  assumes "room_ok t" and "champion t = Some x" and "hm_get (t_games t) k = Some g"
  shows "\<not> lost x g"
proof
  assume l: "lost x g"
  obtain h where h: "hm_get (t_games t) (final_game_id t) = Some h" "g_winner h = Some x"
    using assms(2) by (auto simp: champion_def bind_eq_Some_conv)
  note dh = room_game_at [OF assms(1) h(1)] and dg = room_game_at [OF assms(1,3)]
  have "game_id (t_rounds t) 0 = game_id (g_round h) (g_index h)" using dh(4) by (simp add: final_game_id_def)
  then have r: "g_round h = t_rounds t" using game_id_inj [of "t_rounds t" "g_round h"] dh(3) t_rounds_cases [of t] by auto
  have "x = g_white h \<or> x = g_black h" using h(2) dh(6) by (simp add: game_ok_def)
  from loser_plays_no_more [OF assms(1,3) l h(1) this] have "k = final_game_id t"
    using r dg(5) by (auto simp: pairing_ok_def)
  then show False using h assms(3) l by (simp add: lost_def)
qed

text \<open>Every player of a game holds a seat.\<close>

lemma subtree_seated:
  assumes "room_ok t" and "t_started_at t \<noteq> None" and "in_subtree t r i x"
  shows "x \<in> set (t_players t)"
proof -
  have seats: "seats_ok t" using assms(1) by (simp add: room_ok_def)
  obtain k where k: "k < length (seat_order t)" "x = t_players t ! (seat_order t ! k)"
    using assms(3) unfolding in_subtree_def by blast
  have "seat_order t ! k < length (seat_order t)" using k(1) seat_order_facts(3) [OF seats] nth_mem by blast
  moreover have "int (length (seat_order t)) = int (length (t_players t))"
    using seat_order_facts(2) [OF seats] seats assms(2) by (simp add: seats_ok_def)
  ultimately show ?thesis using k(2) by simp
qed

section \<open>Progress\<close>

lemma live_has_open_game:
  assumes "room_ok t" and "is_live t"
  shows "\<exists>k g. hm_get (t_games t) k = Some g \<and> \<not> is_over g"
proof (rule ccontr)
  assume none: "\<not> ?thesis"
  have started: "t_started_at t \<noteq> None" and unfinished: "\<not> is_finished t" using assms(2) by (simp_all add: is_live_def)
  have seats: "seats_ok t" and comp: "complete t" using assms(1) started by (simp_all add: room_ok_def)
  have won: "\<exists>x. won t r i x" if "t_game t r i \<noteq> None" for r i
    using that none unfolding t_game_def won_def is_over_def by (metis bind.bind_lunit not_None_eq)
  have next_round: "t_game t (r + 1) i \<noteq> None"
    if "1 \<le> r" "r < t_rounds t" "t_game t r (i * 2) \<noteq> None" "t_game t r (i * 2 + 1) \<noteq> None" for r i
    using won [OF that(3)] won [OF that(4)] comp that(1,2) unfolding complete_def by blast
  have first: "k < length (seat_order t) \<Longrightarrow> t_game t 1 (int k div 2) \<noteq> None" for k
    using comp unfolding complete_def by blast
  have "t_game t (t_rounds t) 0 \<noteq> None"
  proof (cases "is_duel t")
    case True
    then show ?thesis using first [of 0] by (simp add: seat_order_def t_rounds_def)
  next
    case False
    then have r: "t_rounds t = 3" "length (seat_order t) = 8" by (simp_all add: t_rounds_def seat_order_def)
    have one: "t_game t 1 0 \<noteq> None" "t_game t 1 1 \<noteq> None" "t_game t 1 2 \<noteq> None" "t_game t 1 3 \<noteq> None"
      using first [of 0] first [of 2] first [of 4] first [of 6] by (simp_all add: r(2))
    have two: "t_game t 2 0 \<noteq> None" "t_game t 2 1 \<noteq> None"
      using next_round [of 1 0] next_round [of 1 1] one by (simp_all add: r(1))
    show ?thesis using next_round [of 2 0] two by (simp add: r(1))
  qed
  then show False using unfinished none by (auto simp: is_finished_def final_game_id_def t_game_def split: option.splits)
qed

end
