(* ===== verification/Chess_Leaderboard.thy ===== *)
theory Chess_Leaderboard
  imports Chess_Boards Chess_Reducer "HOL-Library.Multiset"
begin

text \<open>
  The leaderboard as a list of row updates: what a row counts, that the counts do not depend on the
  iteration order of the hash maps, and how the totals relate to the games of the rooms.
\<close>

section \<open>Row updates\<close>

datatype lb_update = Played int | Won bool int | Lost bool int | Champion

fun row_update :: "lb_update \<Rightarrow> leaderboard_row \<Rightarrow> leaderboard_row" where
  "row_update (Played s) = played_row s"
| "row_update (Won d e) = won_row d e"
| "row_update (Lost d e) = lost_row d e"
| "row_update Champion = champion_row"

definition ended_of :: "game \<Rightarrow> int" where
  "ended_of g = (case g_ended_at g of Some e \<Rightarrow> e | None \<Rightarrow> 0)"

definition game_updates :: "bool \<Rightarrow> game \<Rightarrow> (bytes \<times> lb_update) list" where
  "game_updates d g =
     (case g_winner g of
        None \<Rightarrow> []
      | Some w \<Rightarrow> [(w, Won d (ended_of g)), (loser_of g w, Lost d (ended_of g))])"

definition counted :: "int \<Rightarrow> tournament \<Rightarrow> bool" where
  "counted since t \<longleftrightarrow> (\<exists>s. t_started_at t = Some s \<and> since \<le> s)"

definition room_updates :: "int \<Rightarrow> tournament \<Rightarrow> (bytes \<times> lb_update) list" where
  "room_updates since t =
     (if \<not> counted since t then []
      else (if is_duel t then [] else map (\<lambda>p. (p, Played (the (t_started_at t)))) (t_players t)) @
           concat (map (\<lambda>kg. game_updates (is_duel t) (snd kg)) (t_games t)) @
           (if is_duel t then [] else case champion t of Some c \<Rightarrow> [(c, Champion)] | None \<Rightarrow> []))"

definition all_updates :: "rooms \<Rightarrow> int \<Rightarrow> (bytes \<times> lb_update) list" where
  "all_updates ts since = concat (map (\<lambda>kt. room_updates since (snd kt)) ts)"

definition run_updates :: "(bytes \<times> lb_update) list \<Rightarrow> lb_rows \<Rightarrow> lb_rows" where
  "run_updates us rows = fold (\<lambda>(a, u). on_row a (row_update u)) us rows"

lemma run_updates_simps [simp]:
  "run_updates [] rows = rows"
  "run_updates ((a, u) # us) rows = run_updates us (on_row a (row_update u) rows)"
  "run_updates (us @ vs) rows = run_updates vs (run_updates us rows)"
  by (simp_all add: run_updates_def)

lemma count_game_updates: "count_game d g rows = run_updates (game_updates d g) rows"
  by (simp add: count_game_def game_updates_def ended_of_def Let_def split: option.split)

lemma fold_count_game:
  "fold (count_game d) (map snd gs) rows = run_updates (concat (map (\<lambda>kg. game_updates d (snd kg)) gs)) rows"
  by (induction gs arbitrary: rows) (simp_all add: count_game_updates)

lemma fold_played:
  "fold (\<lambda>p. on_row p (played_row s)) ps rows = run_updates (map (\<lambda>p. (p, Played s)) ps) rows"
  by (induction ps arbitrary: rows) simp_all

lemma count_room_updates: "count_room since t rows = run_updates (room_updates since t) rows"
  by (auto simp: count_room_def room_updates_def counted_def Let_def fold_count_game fold_played
      split: option.split)

lemma leaderboard_updates:
  "leaderboard ts since = sort_key lb_order (map snd (run_updates (all_updates ts since) []))"
proof -
  have "fold (count_room since) (map snd ts) rows = run_updates (all_updates ts since) rows" for rows
    by (induction ts arbitrary: rows) (simp_all add: all_updates_def count_room_updates)
  then show ?thesis by (simp add: leaderboard_def)
qed

section \<open>The rows\<close>

definition updates_for :: "bytes \<Rightarrow> (bytes \<times> lb_update) list \<Rightarrow> lb_update list" where
  "updates_for a us = map snd (filter (\<lambda>(b, u). b = a) us)"

lemma updates_for_simps [simp]:
  "updates_for a [] = []"
  "updates_for a ((b, u) # us) = (if b = a then u # updates_for a us else updates_for a us)"
  "updates_for a (us @ vs) = updates_for a us @ updates_for a vs"
  by (simp_all add: updates_for_def)

lemma updates_for_concat: "updates_for a (concat xss) = concat (map (updates_for a) xss)"
  by (induction xss) simp_all

lemma hm_get_run:
  "hm_get (run_updates us rows) a =
     (if updates_for a us = [] then hm_get rows a
      else Some (fold row_update (updates_for a us) (case hm_get rows a of Some r \<Rightarrow> r | None \<Rightarrow> new_row a)))"
proof (induction us arbitrary: rows)
  case (Cons bu us)
  obtain b u where "bu = (b, u)" by (cases bu)
  then show ?case using Cons.IH [of "on_row b (row_update u) rows"] by (auto simp: on_row_def)
qed simp

lemma run_ok: "hm_ok rows \<Longrightarrow> hm_ok (run_updates us rows)"
proof (induction us arbitrary: rows)
  case (Cons bu us)
  then show ?case by (cases bu) (simp add: on_row_def)
qed simp

text \<open>What one row counts.\<close>

lemma row_update_fields:
  "lr_address (row_update u r) = lr_address r"
  "lr_wins (row_update u r) = lr_wins r + of_bool (\<exists>d e. u = Won d e)"
  "lr_losses (row_update u r) = lr_losses r + of_bool (\<exists>d e. u = Lost d e)"
  "lr_duel_wins (row_update u r) = lr_duel_wins r + of_bool (\<exists>e. u = Won True e)"
  "lr_duel_losses (row_update u r) = lr_duel_losses r + of_bool (\<exists>e. u = Lost True e)"
  "lr_tournament_game_wins (row_update u r) = lr_tournament_game_wins r + of_bool (\<exists>e. u = Won False e)"
  "lr_tournament_game_losses (row_update u r) = lr_tournament_game_losses r + of_bool (\<exists>e. u = Lost False e)"
  "lr_tournaments_lost (row_update u r) = lr_tournaments_lost r + of_bool (\<exists>e. u = Lost False e)"
  "lr_tournaments_played (row_update u r) = lr_tournaments_played r + of_bool (\<exists>s. u = Played s)"
  "lr_tournaments_won (row_update u r) = lr_tournaments_won r + of_bool (u = Champion)"
  "lr_last_played_at (row_update u r) =
     (case u of Played s \<Rightarrow> max (lr_last_played_at r) s | Won d e \<Rightarrow> max (lr_last_played_at r) e
      | Lost d e \<Rightarrow> max (lr_last_played_at r) e | Champion \<Rightarrow> lr_last_played_at r)"
  by (cases u; simp add: played_row_def won_row_def lost_row_def champion_row_def Let_def)+

lemma fold_row_fields:
  "lr_address (fold row_update us r) = lr_address r"
  "lr_wins (fold row_update us r) = lr_wins r + int (length (filter (\<lambda>u. \<exists>d e. u = Won d e) us))"
  "lr_losses (fold row_update us r) = lr_losses r + int (length (filter (\<lambda>u. \<exists>d e. u = Lost d e) us))"
  "lr_duel_wins (fold row_update us r) = lr_duel_wins r + int (length (filter (\<lambda>u. \<exists>e. u = Won True e) us))"
  "lr_duel_losses (fold row_update us r) = lr_duel_losses r + int (length (filter (\<lambda>u. \<exists>e. u = Lost True e) us))"
  "lr_tournament_game_wins (fold row_update us r) =
     lr_tournament_game_wins r + int (length (filter (\<lambda>u. \<exists>e. u = Won False e) us))"
  "lr_tournament_game_losses (fold row_update us r) =
     lr_tournament_game_losses r + int (length (filter (\<lambda>u. \<exists>e. u = Lost False e) us))"
  "lr_tournaments_lost (fold row_update us r) =
     lr_tournaments_lost r + int (length (filter (\<lambda>u. \<exists>e. u = Lost False e) us))"
  "lr_tournaments_played (fold row_update us r) =
     lr_tournaments_played r + int (length (filter (\<lambda>u. \<exists>s. u = Played s) us))"
  "lr_tournaments_won (fold row_update us r) =
     lr_tournaments_won r + int (length (filter (\<lambda>u. u = Champion) us))"
  by (induction us arbitrary: r; simp add: row_update_fields)+

text \<open>Updates commute, so their order does not matter.\<close>

lemma row_eqI:
  fixes r s :: leaderboard_row
  assumes "lr_address r = lr_address s" "lr_wins r = lr_wins s" "lr_losses r = lr_losses s"
    "lr_duel_wins r = lr_duel_wins s" "lr_duel_losses r = lr_duel_losses s"
    "lr_tournament_game_wins r = lr_tournament_game_wins s"
    "lr_tournament_game_losses r = lr_tournament_game_losses s"
    "lr_tournaments_played r = lr_tournaments_played s" "lr_tournaments_won r = lr_tournaments_won s"
    "lr_tournaments_lost r = lr_tournaments_lost s" "lr_last_played_at r = lr_last_played_at s"
  shows "r = s"
  using assms by simp

lemma row_update_commute: "row_update u (row_update v r) = row_update v (row_update u r)"
  by (rule row_eqI; simp only: row_update_fields; cases u; cases v; simp)

lemma fold_row_mset: "mset us = mset vs \<Longrightarrow> fold row_update us r = fold row_update vs r"
  by (rule fun_cong [OF fold_multiset_equiv]) (auto simp: fun_eq_iff row_update_commute)

lemma mset_updates_for: "mset us = mset vs \<Longrightarrow> mset (updates_for a us) = mset (updates_for a vs)"
  by (simp add: updates_for_def)

lemma run_updates_mset:
  assumes "mset us = mset vs"
  shows "hm_get (run_updates us []) = hm_get (run_updates vs [])"
proof
  fix a
  have m: "mset (updates_for a us) = mset (updates_for a vs)" by (rule mset_updates_for [OF assms])
  then have "updates_for a us = [] \<longleftrightarrow> updates_for a vs = []" by (metis mset_zero_iff)
  then show "hm_get (run_updates us []) a = hm_get (run_updates vs []) a"
    using fold_row_mset [OF m] by (simp add: hm_get_run)
qed

lemma run_address: "hm_get (run_updates us []) a = Some r \<Longrightarrow> lr_address r = a"
  by (auto simp: hm_get_run fold_row_fields new_row_def split: if_splits)

text \<open>The rows of the board: one per address with an update.\<close>

lemma leaderboard_row:
  assumes "r \<in> set (leaderboard ts since)"
  shows "r = fold row_update (updates_for (lr_address r) (all_updates ts since)) (new_row (lr_address r))"
    and "updates_for (lr_address r) (all_updates ts since) \<noteq> []"
proof -
  let ?m = "run_updates (all_updates ts since) []"
  have ok: "hm_ok ?m" by (rule run_ok) simp
  obtain a where "(a, r) \<in> set ?m" using assms by (auto simp: leaderboard_updates)
  then have g: "hm_get ?m a = Some r" using hm_in_iff [OF ok] by blast
  then have "lr_address r = a" by (rule run_address)
  with g show "r = fold row_update (updates_for (lr_address r) (all_updates ts since)) (new_row (lr_address r))"
    and "updates_for (lr_address r) (all_updates ts since) \<noteq> []"
    by (auto simp: hm_get_run split: if_splits)
qed

lemma hm_same_mset:
  assumes "hm_ok m" "hm_ok m'" and "hm_get m = hm_get m'"
  shows "mset m = mset m'"
proof -
  have "distinct m" "distinct m'" using assms(1,2) by (simp_all add: hm_ok_def distinct_map)
  moreover have "set m = set m'"
    using hm_in_iff [OF assms(1)] hm_in_iff [OF assms(2)] assms(3) by auto
  ultimately show ?thesis by (simp add: set_eq_iff_mset_eq_distinct)
qed

lemma leaderboard_mset:
  assumes "mset (all_updates ts since) = mset (all_updates us since)"
  shows "leaderboard ts since = leaderboard us since"
proof -
  let ?m = "run_updates (all_updates ts since) []" and ?n = "run_updates (all_updates us since) []"
  have ok: "hm_ok ?m" "hm_ok ?n" by (rule run_ok, simp)+
  have eq: "mset ?m = mset ?n" by (rule hm_same_mset [OF ok run_updates_mset [OF assms]])
  have inj: "inj_on lb_order (set (map snd ?n))"
  proof (rule inj_onI)
    fix r s assume r: "r \<in> set (map snd ?n)" "s \<in> set (map snd ?n)" "lb_order r = lb_order s"
    then obtain a b where "(a, r) \<in> set ?n" "(b, s) \<in> set ?n" by auto
    then have g: "hm_get ?n a = Some r" "hm_get ?n b = Some s" using hm_in_iff [OF ok(2)] by blast+
    have "a = b" using run_address [OF g(1)] run_address [OF g(2)] r(3) by (simp add: lb_order_def)
    then show "r = s" using g by simp
  qed
  have "sort_key lb_order (map snd ?n) = sort_key lb_order (map snd ?m)"
    by (rule sort_key_mset [OF _ inj]) (use eq in simp)
  then show ?thesis by (simp add: leaderboard_updates)
qed

section \<open>What is counted\<close>

text \<open>The finished games of the rooms that started in the period, with whether the room is a 1v1.\<close>

definition counted_games :: "rooms \<Rightarrow> int \<Rightarrow> (bool \<times> game) list" where
  "counted_games ts since =
     concat (map (\<lambda>kt. if counted since (snd kt)
                       then map (\<lambda>kg. (is_duel (snd kt), snd kg)) (filter (\<lambda>kg. is_over (snd kg)) (t_games (snd kt)))
                       else []) ts)"

definition game_updates_of :: "bool \<times> game \<Rightarrow> (bytes \<times> lb_update) list" where
  "game_updates_of dg = game_updates (fst dg) (snd dg)"

definition is_game_update :: "lb_update \<Rightarrow> bool" where
  "is_game_update u \<longleftrightarrow> (case u of Won d e \<Rightarrow> True | Lost d e \<Rightarrow> True | _ \<Rightarrow> False)"

lemma is_game_update_simps [simp]:
  "is_game_update (Won d e)" "is_game_update (Lost d e)" "\<not> is_game_update (Played s)" "\<not> is_game_update Champion"
  by (simp_all add: is_game_update_def)

lemma filter_game_updates: "filter (\<lambda>au. is_game_update (snd au)) (game_updates d g) = game_updates d g"
  by (simp add: game_updates_def split: option.split)

lemma not_over_updates: "\<not> is_over g \<Longrightarrow> game_updates d g = []"
  by (simp add: is_over_def game_updates_def)

lemma room_game_updates:
  "filter (\<lambda>au. is_game_update (snd au)) (room_updates since t) =
     (if counted since t
      then concat (map (\<lambda>kg. game_updates (is_duel t) (snd kg)) (filter (\<lambda>kg. is_over (snd kg)) (t_games t)))
      else [])"
proof -
  have "filter (\<lambda>au. is_game_update (snd au)) (concat (map (\<lambda>kg. game_updates d (snd kg)) gs)) =
    concat (map (\<lambda>kg. game_updates d (snd kg)) (filter (\<lambda>kg. is_over (snd kg)) gs))" for d and gs :: "(bytes \<times> game) list"
    by (induction gs) (auto simp: filter_game_updates not_over_updates)
  then show ?thesis by (simp add: room_updates_def filter_map o_def split: option.split)
qed

lemma all_game_updates:
  "filter (\<lambda>au. is_game_update (snd au)) (all_updates ts since) =
     concat (map game_updates_of (counted_games ts since))"
  by (induction ts)
    (simp_all add: all_updates_def counted_games_def room_game_updates game_updates_of_def o_def map_concat filter_concat)

text \<open>Counting the updates of one address through the game updates only.\<close>

lemma count_updates:
  assumes "\<And>u. p u \<Longrightarrow> is_game_update u"
  shows "length (filter p (updates_for a (all_updates ts since))) =
    sum_list (map (\<lambda>dg. length (filter p (updates_for a (game_updates_of dg)))) (counted_games ts since))"
proof -
  have f: "filter p (updates_for a us) = filter p (updates_for a (filter (\<lambda>au. is_game_update (snd au)) us))" for us
    using assms by (auto simp: updates_for_def filter_map o_def intro!: arg_cong [of _ _ "map snd"] filter_cong)
  show ?thesis
    unfolding f [of "all_updates ts since"] all_game_updates
    by (simp add: updates_for_concat filter_concat length_concat o_def)
qed

lemma sum_if_length: "sum_list (map (\<lambda>x. if q x then 1 else 0) xs) = length (filter q xs)"
  by (induction xs) simp_all

definition won_by :: "bytes \<Rightarrow> game \<Rightarrow> bool" where
  "won_by a g \<longleftrightarrow> g_winner g = Some a"

definition lost_by :: "bytes \<Rightarrow> game \<Rightarrow> bool" where
  "lost_by a g \<longleftrightarrow> (\<exists>w. g_winner g = Some w \<and> loser_of g w = a)"

lemma game_update_counts:
  "length (filter (\<lambda>u. \<exists>d e. u = Won d e) (updates_for a (game_updates_of dg))) = (if won_by a (snd dg) then 1 else 0)"
  "length (filter (\<lambda>u. \<exists>d e. u = Lost d e) (updates_for a (game_updates_of dg))) = (if lost_by a (snd dg) then 1 else 0)"
  "length (filter (\<lambda>u. \<exists>e. u = Won c e) (updates_for a (game_updates_of dg))) =
     (if fst dg = c \<and> won_by a (snd dg) then 1 else 0)"
  "length (filter (\<lambda>u. \<exists>e. u = Lost c e) (updates_for a (game_updates_of dg))) =
     (if fst dg = c \<and> lost_by a (snd dg) then 1 else 0)"
  by (cases dg; simp add: game_updates_of_def game_updates_def won_by_def lost_by_def split: option.split)+

lemma row_counts:
  assumes "r \<in> set (leaderboard ts since)"
  shows "lr_wins r = int (length (filter (\<lambda>dg. won_by (lr_address r) (snd dg)) (counted_games ts since)))"
    and "lr_losses r = int (length (filter (\<lambda>dg. lost_by (lr_address r) (snd dg)) (counted_games ts since)))"
    and "lr_duel_wins r = int (length (filter (\<lambda>dg. fst dg \<and> won_by (lr_address r) (snd dg)) (counted_games ts since)))"
    and "lr_duel_losses r = int (length (filter (\<lambda>dg. fst dg \<and> lost_by (lr_address r) (snd dg)) (counted_games ts since)))"
    and "lr_tournament_game_wins r =
      int (length (filter (\<lambda>dg. \<not> fst dg \<and> won_by (lr_address r) (snd dg)) (counted_games ts since)))"
    and "lr_tournament_game_losses r =
      int (length (filter (\<lambda>dg. \<not> fst dg \<and> lost_by (lr_address r) (snd dg)) (counted_games ts since)))"
    and "lr_tournaments_lost r = lr_tournament_game_losses r"
proof -
  note row = leaderboard_row(1) [OF assms]
  have g: "is_game_update u" if "(\<exists>d e. u = Won d e) \<or> (\<exists>d e. u = Lost d e) \<or> (\<exists>e. u = Won c e) \<or> (\<exists>e. u = Lost c e)" for u c
    using that by auto
  note c = count_updates [of _ "lr_address r" ts since]
  have zero: "lr_wins (new_row a) = 0" "lr_losses (new_row a) = 0" "lr_duel_wins (new_row a) = 0"
    "lr_duel_losses (new_row a) = 0" "lr_tournament_game_wins (new_row a) = 0"
    "lr_tournament_game_losses (new_row a) = 0" "lr_tournaments_lost (new_row a) = 0" for a
    by (simp_all add: new_row_def)
  show "lr_wins r = int (length (filter (\<lambda>dg. won_by (lr_address r) (snd dg)) (counted_games ts since)))"
    "lr_losses r = int (length (filter (\<lambda>dg. lost_by (lr_address r) (snd dg)) (counted_games ts since)))"
    "lr_duel_wins r = int (length (filter (\<lambda>dg. fst dg \<and> won_by (lr_address r) (snd dg)) (counted_games ts since)))"
    "lr_duel_losses r = int (length (filter (\<lambda>dg. fst dg \<and> lost_by (lr_address r) (snd dg)) (counted_games ts since)))"
    "lr_tournament_game_wins r =
      int (length (filter (\<lambda>dg. \<not> fst dg \<and> won_by (lr_address r) (snd dg)) (counted_games ts since)))"
    "lr_tournament_game_losses r =
      int (length (filter (\<lambda>dg. \<not> fst dg \<and> lost_by (lr_address r) (snd dg)) (counted_games ts since)))"
    by (subst row, subst fold_row_fields, subst c, (auto simp: zero game_update_counts sum_if_length)[2])+
  show "lr_tournaments_lost r = lr_tournament_game_losses r"
    by (subst (1 2) row) (simp add: fold_row_fields zero)
qed

section \<open>Totals\<close>

lemma sum_hm_insert:
  assumes "hm_ok m"
  shows "sum_list (map (\<lambda>kv. h (snd kv)) (hm_insert k v m)) =
    sum_list (map (\<lambda>kv. h (snd kv)) m) - (case hm_get m k of Some w \<Rightarrow> h w | None \<Rightarrow> 0) + (h v :: int)"
  using assms unfolding hm_ok_def hm_insert_def hm_get_def
  by (induction m) (auto simp: map_of_eq_None_iff split: option.splits)

lemma total_run:
  assumes "\<And>a. h (new_row a) = 0" and "\<And>u r. h (row_update u r) = h r + of_bool (p u)" and "hm_ok rows"
  shows "sum_list (map (\<lambda>kv. h (snd kv)) (run_updates us rows)) =
    sum_list (map (\<lambda>kv. h (snd kv)) rows) + (int (length (filter (\<lambda>au. p (snd au)) us)))"
  using assms(3)
proof (induction us arbitrary: rows)
  case (Cons bu us)
  obtain b u where "bu = (b, u)" by (cases bu)
  then show ?case using Cons.IH [of "on_row b (row_update u) rows"] Cons.prems assms(1,2)
    by (simp add: on_row_def sum_hm_insert split: option.split)
qed simp

lemma total_leaderboard:
  assumes "\<And>a. h (new_row a) = 0" and "\<And>u r. h (row_update u r) = h r + of_bool (p u)"
    and "\<And>u. p u \<Longrightarrow> is_game_update u"
  shows "sum_list (map h (leaderboard ts since)) =
    int (sum_list (map (\<lambda>dg. length (filter (\<lambda>au. p (snd au)) (game_updates_of dg))) (counted_games ts since)))"
proof -
  have perm: "sum_list (map h (sort_key f xs)) = sum_list (map h xs)" for f :: "leaderboard_row \<Rightarrow> int \<times> int \<times> int \<times> bytes" and xs
    by (metis mset_map mset_sort sum_mset_sum_list)
  have f: "filter (\<lambda>au. p (snd au)) us = filter (\<lambda>au. p (snd au)) (filter (\<lambda>au. is_game_update (snd au)) us)"
    for us :: "(bytes \<times> lb_update) list"
    using assms(3) by (auto intro!: filter_cong)
  have e: "filter (\<lambda>au. p (snd au)) (all_updates ts since) =
      concat (map (\<lambda>dg. filter (\<lambda>au. p (snd au)) (game_updates_of dg)) (counted_games ts since))"
    unfolding f [of "all_updates ts since"] all_game_updates by (simp add: filter_concat o_def)
  show ?thesis
    unfolding leaderboard_updates perm
    using total_run [OF assms(1,2), of "[]" "all_updates ts since"]
    by (simp add: o_def e length_concat)
qed

section \<open>Tournaments won, lost and played\<close>

definition cnt :: "(lb_update \<Rightarrow> bool) \<Rightarrow> bytes \<Rightarrow> (bytes \<times> lb_update) list \<Rightarrow> nat" where
  "cnt p a us = length (filter p (updates_for a us))"

lemma cnt_simps [simp]:
  "cnt p a [] = 0" "cnt p a (us @ vs) = cnt p a us + cnt p a vs"
  "cnt p a ((b, u) # us) = (if b = a \<and> p u then 1 else 0) + cnt p a us"
  by (simp_all add: cnt_def)

lemma cnt_concat: "cnt p a (concat uss) = sum_list (map (cnt p a) uss)"
  by (induction uss) simp_all

lemma loser_lost:
  "game_ok g \<Longrightarrow> lost_by a g \<Longrightarrow> lost a g"
  by (auto simp: game_ok_def lost_by_def lost_def loser_of_def is_over_def split: if_splits)

lemma length_filter_le_1:
  assumes "distinct (map fst gs)" and "\<And>k g l h. (k, g) \<in> set gs \<Longrightarrow> q g \<Longrightarrow> (l, h) \<in> set gs \<Longrightarrow> q h \<Longrightarrow> k = l"
  shows "length (filter (\<lambda>kg. q (snd kg)) gs) \<le> 1"
  using assms
proof (induction gs)
  case (Cons kg gs)
  have ih: "length (filter (\<lambda>kg. q (snd kg)) gs) \<le> 1"
    by (rule Cons.IH) (use Cons.prems in \<open>auto intro: Cons.prems(2)\<close>)
  show ?case
  proof (cases "q (snd kg)")
    case True
    have "\<not> q (snd lh)" if "lh \<in> set gs" for lh
    proof
      assume "q (snd lh)"
      then have "fst kg = fst lh" using Cons.prems(2) [of "fst kg" "snd kg" "fst lh" "snd lh"] True that by simp
      then show False using Cons.prems(1) that by (metis distinct.simps(2) image_eqI list.simps(9) set_map)
    qed
    then have "filter (\<lambda>kg. q (snd kg)) gs = []" by (simp add: filter_empty_conv)
    then show ?thesis by simp
  qed (use ih in simp)
qed simp

lemma room_lost_le:
  assumes ok: "room_ok t"
  shows "cnt (\<lambda>u. u = Champion) a (room_updates since t) + cnt (\<lambda>u. \<exists>e. u = Lost False e) a (room_updates since t)
    \<le> cnt (\<lambda>u. \<exists>s. u = Played s) a (room_updates since t)"
proof (cases "counted since t \<and> \<not> is_duel t")
  case False
  have "cnt (\<lambda>u. \<exists>e. u = Lost False e) a (game_updates True g) = 0"
    "cnt (\<lambda>u. u = Champion) a (game_updates d g) = 0" for g d
    by (simp_all add: game_updates_def split: option.split)
  then show ?thesis using False
    by (auto simp: room_updates_def cnt_concat o_def)
next
  case True
  have started: "t_started_at t \<noteq> None" using True by (auto simp: counted_def)
  have hok: "distinct (map fst (t_games t))" and dist: "distinct (t_players t)" and games: "games_ok t"
    using ok by (auto simp: room_ok_def seats_ok_def hm_ok_def)
  have get: "(k, g) \<in> set (t_games t) \<Longrightarrow> hm_get (t_games t) k = Some g" for k g
    using hok by (simp add: hm_in_iff hm_ok_def)
  define lost_games where "lost_games = filter (\<lambda>kg. lost_by a (snd kg)) (t_games t)"
  have lostD: "lost a g" if "(k, g) \<in> set (t_games t)" "lost_by a g" for k g
    using get [OF that(1)] games that(2) loser_lost unfolding games_ok_def by blast
  have at_most: "length lost_games \<le> 1"
    unfolding lost_games_def
    by (rule length_filter_le_1 [OF hok]) (use lost_once [OF ok] get lostD in blast)
  have seated: "a \<in> set (t_players t)" if "lost_games \<noteq> [] \<or> champion t = Some a"
  proof -
    have "\<exists>k g. hm_get (t_games t) k = Some g \<and> (a = g_white g \<or> a = g_black g)"
    proof (cases "lost_games = []")
      case False
      then obtain kg where "kg \<in> set lost_games" by (cases lost_games) auto
      then have "(fst kg, snd kg) \<in> set (t_games t)" "lost_by a (snd kg)" by (auto simp: lost_games_def)
      then have "hm_get (t_games t) (fst kg) = Some (snd kg)" "lost a (snd kg)" using get lostD by blast+
      then show ?thesis unfolding lost_def by blast
    next
      case True
      then have "champion t = Some a" using that by simp
      then obtain g where g: "hm_get (t_games t) (final_game_id t) = Some g" "g_winner g = Some a"
        by (auto simp: champion_def bind_eq_Some_conv)
      then have "a = g_white g \<or> a = g_black g" using games unfolding games_ok_def game_ok_def by blast
      then show ?thesis using g(1) by blast
    qed
    then obtain k g where g: "hm_get (t_games t) k = Some g" "a = g_white g \<or> a = g_black g" by blast
    note d = room_game_at [OF ok g(1)]
    have "in_subtree t (g_round g) (g_index g) a" using d(5) g(2) by (auto simp: pairing_ok_def)
    then show ?thesis by (rule subtree_seated [OF ok started])
  qed
  have not_both: "lost_games = []" if "champion t = Some a"
  proof (rule ccontr)
    assume "lost_games \<noteq> []"
    then obtain kg where "kg \<in> set lost_games" by (cases lost_games) auto
    then have "(fst kg, snd kg) \<in> set (t_games t)" "lost_by a (snd kg)" by (auto simp: lost_games_def)
    then have "hm_get (t_games t) (fst kg) = Some (snd kg)" "lost a (snd kg)" using get lostD by blast+
    then show False using champion_never_lost [OF ok that] by blast
  qed
  have played: "a \<in> set ps \<Longrightarrow> 1 \<le> cnt (\<lambda>u. \<exists>s. u = Played s) a (map (\<lambda>p. (p, Played s)) ps)" for s ps
    by (induction ps) auto
  have zero: "cnt (\<lambda>u. u = Champion) a (map (\<lambda>p. (p, Played s)) ps) = 0"
    "cnt (\<lambda>u. \<exists>e. u = Lost False e) a (map (\<lambda>p. (p, Played s)) ps) = 0"
    "cnt (\<lambda>u. u = Champion) a (game_updates d g) = 0" for s ps d g
    by (induction ps) (simp_all add: game_updates_def split: option.split)
  have lost_g: "cnt (\<lambda>u. \<exists>e. u = Lost False e) a (game_updates False g) = (if lost_by a g then 1 else 0)" for g
    by (auto simp: game_updates_def lost_by_def split: option.split)
  have "cnt (\<lambda>u. u = Champion) a (room_updates since t) = (if champion t = Some a then 1 else 0)"
    using True by (simp add: room_updates_def cnt_concat zero o_def split: option.split)
  moreover have "cnt (\<lambda>u. \<exists>e. u = Lost False e) a (room_updates since t) = length lost_games"
    using True by (simp add: room_updates_def cnt_concat zero lost_g o_def lost_games_def sum_if_length split: option.split)
  moreover have "1 \<le> cnt (\<lambda>u. \<exists>s. u = Played s) a (room_updates since t)" if "a \<in> set (t_players t)"
    using True played [OF that, of "the (t_started_at t)"] by (simp add: room_updates_def)
  ultimately show ?thesis
    using at_most seated not_both by (cases "lost_games = []"; cases "champion t = Some a"; fastforce)
qed

lemma row_tournaments:
  assumes "rooms_ok ts" and r: "r \<in> set (leaderboard ts since)"
  shows "lr_tournaments_won r + lr_tournaments_lost r \<le> lr_tournaments_played r"
proof -
  let ?a = "lr_address r"
  have ok: "room_ok (snd kt)" if "kt \<in> set ts" for kt
    using assms(1) that hm_in_iff [of ts "fst kt" "snd kt"] unfolding rooms_ok_def by auto
  have "cnt (\<lambda>u. u = Champion) ?a (concat (map (\<lambda>kt. room_updates since (snd kt)) us)) +
      cnt (\<lambda>u. \<exists>e. u = Lost False e) ?a (concat (map (\<lambda>kt. room_updates since (snd kt)) us))
    \<le> cnt (\<lambda>u. \<exists>s. u = Played s) ?a (concat (map (\<lambda>kt. room_updates since (snd kt)) us))"
    if "\<And>kt. kt \<in> set us \<Longrightarrow> room_ok (snd kt)" for us :: rooms
    using that
  proof (induction us)
    case (Cons kt us)
    then show ?case using room_lost_le [of "snd kt" ?a since] by fastforce
  qed simp
  from this [of ts, OF ok] show ?thesis
    by (subst (1 2 3) leaderboard_row(1) [OF r])
      (simp add: fold_row_fields cnt_def all_updates_def new_row_def flip: of_nat_add)
qed

end
