(* ===== verification/Chess_Samples.thy ===== *)
theory Chess_Samples
  imports Chess_Bots Chess_Leaderboard "HOL-Library.Code_Target_Numeral"
begin

text \<open>
  Concrete runs for the witnesses: the shortest mate, a 1v1 that ends by resignation, a bot game.
\<close>

section \<open>Fool's mate\<close>

text \<open>Checking one move without listing all of them.\<close>

definition legal_now :: "move \<Rightarrow> board \<Rightarrow> bool" where
  "legal_now m b \<longleftrightarrow>
     (case piece_at b (m_from m) of
        Some p \<Rightarrow> pcolor p = side_to_move b \<and> m \<in> set (pseudo_legal_moves p (m_from m) b) \<and>
                  \<not> is_king_in_check (side_to_move b) (apply_board m b) \<and> normalizing_promotion m b = m
      | None \<Rightarrow> False)"

lemma legal_nowI: "legal_now m b \<Longrightarrow> m \<in> set (legal_moves b)"
  unfolding legal_now_def legal_moves_def all_pseudo_legal_def
  by (auto simp: all_squares_valid simp del: pseudo_legal_moves.simps dest: piece_at_valid split: option.splits
      intro!: bexI [of _ "m_from m"])

lemma legal_now_normal: "legal_now m b \<Longrightarrow> normalizing_promotion m b = m"
  by (auto simp: legal_now_def split: option.splits)

lemma legal_now_is_legal: "legal_now m b \<Longrightarrow> is_legal m b"
  using legal_nowI legal_now_normal by (auto simp: is_legal_def list_ex_iff)

definition mate_1 :: move where "mate_1 = plain (Square 5 1) (Square 5 2)"
definition mate_2 :: move where "mate_2 = plain (Square 4 6) (Square 4 4)"
definition mate_3 :: move where "mate_3 = plain (Square 6 1) (Square 6 3)"
definition mate_4 :: move where "mate_4 = plain (Square 3 7) (Square 7 3)"

definition board_1 :: board where "board_1 = apply_board mate_1 initial_board"
definition board_2 :: board where "board_2 = apply_board mate_2 board_1"
definition board_3 :: board where "board_3 = apply_board mate_3 board_2"
definition board_4 :: board where "board_4 = apply_board mate_4 board_3"

lemma mate_legal:
  "legal_now mate_1 initial_board" "legal_now mate_2 board_1" "legal_now mate_3 board_2" "legal_now mate_4 board_3"
  by code_simp+

lemma mate_reachable: "reachable_board board_1" "reachable_board board_2" "reachable_board board_3" "reachable_board board_4"
proof -
  show "reachable_board board_1"
    unfolding board_1_def by (rule reachable_board.play [OF reachable_board.start legal_nowI [OF mate_legal(1)]])
  then show "reachable_board board_2"
    unfolding board_2_def by (rule reachable_board.play [OF _ legal_nowI [OF mate_legal(2)]])
  then show "reachable_board board_3"
    unfolding board_3_def by (rule reachable_board.play [OF _ legal_nowI [OF mate_legal(3)]])
  then show "reachable_board board_4"
    unfolding board_4_def by (rule reachable_board.play [OF _ legal_nowI [OF mate_legal(4)]])
qed

lemma mate_on_board: "is_checkmate board_4" "side_to_move board_4 = White"
  by code_simp+

section \<open>A line that castles\<close>

fun line_ok :: "move list \<Rightarrow> board \<Rightarrow> bool" where
  "line_ok [] b = True"
| "line_ok (m # ms) b = (legal_now m b \<and> line_ok ms (apply_board m b))"

lemma line_reachable: "reachable_board b \<Longrightarrow> line_ok ms b \<Longrightarrow> reachable_board (fold apply_board ms b)"
  by (induction ms arbitrary: b) (auto intro: reachable_board.play legal_nowI)

definition castle_line :: "move list" where
  "castle_line =
     [plain (Square 4 1) (Square 4 3), plain (Square 0 6) (Square 0 5), plain (Square 6 0) (Square 5 2),
      plain (Square 0 5) (Square 0 4), plain (Square 5 0) (Square 4 1), plain (Square 0 4) (Square 0 3)]"

definition castle_board :: board where
  "castle_board = fold apply_board castle_line initial_board"

definition castle_now :: move where "castle_now = plain (Square 4 0) (Square 6 0)"

lemma castle_line_ok: "line_ok castle_line initial_board" "legal_now castle_now castle_board"
  "has_piece castle_board (Square 4 0) King White"
  by code_simp+

lemma castle_reachable: "reachable_board castle_board"
  unfolding castle_board_def by (rule line_reachable [OF reachable_board.start castle_line_ok(1)])

section \<open>A bot game\<close>

definition mate_text :: bytes where "mate_text = ascii ''f2f3 e7e5 g2g4 d8h4''"

definition bot_row :: arena_row where
  "bot_row = \<lparr>ar_tx_id = ascii ''t1'', ar_sender = ascii ''alice'', ar_block_time = 1792647960000, ar_content = []\<rparr>"

definition bot_result :: bot_message where
  "bot_result =
     \<lparr>bm_type = ascii ''chess_bot'', bm_v = 2, bm_a = ascii ''result'', bm_g = ascii ''g1'', bm_bot = 3,
      bm_c = ascii ''b'', bm_r = ascii ''won'', bm_why = ascii ''checkmate'', bm_m = mate_text\<rparr>"

lemma mate_tokens: "split_whitespace mate_text = [ascii ''f2f3'', ascii ''e7e5'', ascii ''g2g4'', ascii ''d8h4'']"
  by code_simp

text \<open>A token read as a move from \<open>f\<close> to \<open>t\<close>.\<close>

definition reads_as :: "bytes \<Rightarrow> move \<Rightarrow> bool" where
  "reads_as token m \<longleftrightarrow>
     length token = 4 \<and> list_all (\<lambda>c. c < 128) token \<and> m_promotion m = None \<and>
     from_algebraic (take 2 token) = Some (m_from m) \<and> from_algebraic (drop 2 token) = Some (m_to m)"

lemma bot_token_reads:
  assumes "legal_now m b" and "reads_as token m"
  shows "bot_token_move token b = Some m"
proof -
  have "drop 4 token = []" "take 2 (drop 2 token) = drop 2 token" using assms(2) by (simp_all add: reads_as_def)
  moreover have e: "\<lparr>m_from = m_from m, m_to = m_to m, m_promotion = None\<rparr> = m" using assms(2) by (simp add: reads_as_def)
  ultimately show ?thesis
    using assms(2) legal_now_is_legal [OF assms(1)] legal_now_normal [OF assms(1)]
    by (simp add: bot_token_move_def Let_def reads_as_def e)
qed

lemma mate_reads:
  "reads_as (ascii ''f2f3'') mate_1" "reads_as (ascii ''e7e5'') mate_2" "reads_as (ascii ''g2g4'') mate_3" "reads_as (ascii ''d8h4'') mate_4"
  by code_simp+

lemma mate_moves:
  "bot_token_move (ascii ''f2f3'') initial_board = Some mate_1" "bot_token_move (ascii ''e7e5'') board_1 = Some mate_2" "bot_token_move (ascii ''g2g4'') board_2 = Some mate_3" "bot_token_move (ascii ''d8h4'') board_3 = Some mate_4"
  by (rule bot_token_reads [OF mate_legal(1) mate_reads(1)] bot_token_reads [OF mate_legal(2) mate_reads(2)]
      bot_token_reads [OF mate_legal(3) mate_reads(3)] bot_token_reads [OF mate_legal(4) mate_reads(4)])+

lemma mate_replay: "replay_bot_moves mate_text = Some (board_4, 4)"
  by (simp add: replay_bot_moves_def mate_tokens mate_moves flip: board_1_def board_2_def board_3_def board_4_def)

definition bot_win :: bot_game where
  "bot_win = \<lparr>bg_level = 3, bg_sender = ascii ''alice'', bg_tx_id = ascii ''t1'', bg_block_time = 1792647960000,
              bg_game_id = ascii ''g1'', bg_win_moves = Some 2\<rparr>"

lemma bot_result_game: "to_bot_game bot_row bot_result = Some bot_win"
  using mate_on_board
  by (simp add: to_bot_game_def bot_result_def bot_row_def bot_win_def bot_levels_def bot_end_reasons_def mate_replay Let_def)

section \<open>A 1v1 that ends by resignation\<close>

definition duel_room :: bytes where "duel_room = ascii ''duel-1''"
definition alice :: bytes where "alice = ascii ''alice''"
definition bob :: bytes where "bob = ascii ''bob''"

definition duel_message :: "bytes \<Rightarrow> tournament_message" where
  "duel_message action =
     \<lparr>msg_type = ascii ''chess_t'', msg_v = 1, msg_t = duel_room, msg_a = action, msg_name = None,
      msg_g = Some (game_id 1 0), msg_n = None, msg_from = None, msg_to = None, msg_promo = None, msg_text = None,
      msg_k = None, msg_p = None\<rparr>"

definition duel_event :: "bytes \<Rightarrow> bytes \<Rightarrow> int \<Rightarrow> arena_event" where
  "duel_event action sender time =
     \<lparr>ae_tx_id = [], ae_sender = sender, ae_block_time = time, ae_message = duel_message action\<rparr>"

definition joins :: "arena_event list" where
  "joins = [duel_event (ascii ''join'') bob 1792647961000, duel_event (ascii ''join'') alice 1792647960000]"

definition resigns :: "arena_event list" where
  "resigns = [duel_event (ascii ''resign'') alice 1792647962000]"

definition waiting_room :: tournament where
  "waiting_room = (new_room alice 1792647960000 2)
     \<lparr>t_players := [alice], t_joined_at := hm_insert alice 1792647960000 []\<rparr>"

definition live_room :: tournament where
  "live_room = start_room 1792647961000
     (waiting_room\<lparr>t_players := [alice, bob], t_joined_at := hm_insert bob 1792647961000 (t_joined_at waiting_room)\<rparr>)"

definition done_game :: game where
  "done_game = finish bob Resignation 1792647962000 (make_game 1 0 alice bob 1792647961000)"

definition done_room :: tournament where
  "done_room = live_room\<lparr>t_games := hm_insert (game_id 1 0) done_game (t_games live_room)\<rparr>"

lemma names_differ [simp]: "alice \<noteq> bob" "bob \<noteq> alice"
  by (simp_all add: alice_def bob_def)

lemma duel_numbers: "public_number duel_room = None" "duel_number duel_room = Some 1"
  by code_simp+

lemma event_fields [simp]:
  "msg_t (ae_message (duel_event a s t)) = duel_room" "msg_a (ae_message (duel_event a s t)) = a"
  "msg_g (ae_message (duel_event a s t)) = Some (game_id 1 0)" "ae_sender (duel_event a s t) = s"
  "ae_block_time (duel_event a s t) = t" "chain_order (duel_event a s t) = (t, [])"
  by (simp_all add: duel_event_def duel_message_def chain_order_def)

lemma first_join:
  "apply_event sha (duel_event (ascii ''join'') alice 1792647960000) [] = [(duel_room, waiting_room)]"
  by (simp add: apply_event_def apply_join_def open_room_def duel_numbers Let_def update_room_def seat_player_def
      is_open_def new_room_def expire_seats_def waiting_room_def hm_insert_def hm_get_def)

lemma second_join:
  "apply_event sha (duel_event (ascii ''join'') bob 1792647961000) [(duel_room, waiting_room)] = [(duel_room, live_room)]"
  by (simp add: apply_event_def apply_join_def open_room_def Let_def update_room_def seat_player_def
      is_open_def new_room_def expire_seats_def waiting_room_def live_room_def seat_ttl_ms_def hm_insert_def hm_get_def)

lemma live_games: "t_games live_room = [(game_id 1 0, make_game 1 0 alice bob 1792647961000)]"
  "t_started_at live_room = Some 1792647961000" "t_cancelled live_room = False" "t_capacity live_room = 2"
  "t_players live_room = [alice, bob]"
  by (simp_all add: live_room_def start_shape is_duel_def waiting_room_def new_room_def add_game_def hm_insert_def)

lemma live_is_live: "is_live live_room"
  by (simp add: is_live_def live_games is_finished_def final_game_id_def t_rounds_def is_duel_def hm_get_def)

lemma resign_step:
  "apply_event sha (duel_event (ascii ''resign'') alice 1792647962000) [(duel_room, live_room)] = [(duel_room, done_room)]"
proof -
  have color: "color_of (make_game 1 0 alice bob 1792647961000) alice = Some White"
    by (simp add: color_of_def)
  have g: "hm_get (t_games live_room) (game_id 1 0) = Some (make_game 1 0 alice bob 1792647961000)"
    by (simp add: live_games hm_get_def)
  have "advance_after (game_id 1 0) done_room = done_room"
    by (simp add: advance_after_def done_room_def done_game_def t_rounds_def is_duel_def live_games finish_def
        make_game_def)
  then have "on_game resign_game (duel_event (ascii ''resign'') alice 1792647962000) live_room = done_room"
    using live_is_live g
    by (simp add: on_game_def resign_game_def color address_of_def done_room_def done_game_def Let_def)
  then show ?thesis by (simp add: apply_event_def update_room_def hm_get_def hm_insert_def)
qed

lemma reduce_joins: "reduce sha joins = [(duel_room, live_room)]"
  by (simp add: reduce_def joins_def first_join second_join)

lemma reduce_duel: "reduce sha (joins @ resigns) = [(duel_room, done_room)]"
  by (simp add: reduce_def joins_def resigns_def first_join second_join resign_step)

lemma done_fields:
  "t_games done_room = [(game_id 1 0, done_game)]" "t_players done_room = [alice, bob]"
  "t_started_at done_room = Some 1792647961000" "is_duel done_room"
  "g_winner done_game = Some bob" "g_white done_game = alice" "g_black done_game = bob" "is_over done_game"
  "g_ended_at done_game = Some 1792647962000"
  by (simp_all add: done_room_def live_games hm_insert_def done_game_def is_duel_def)

end
