(* ===== verification/Calendar.thy ===== *)
theory Calendar
  imports Chess_Boards
begin

text \<open>
  The month arithmetic of \<open>utc_month_start_ms\<close> (\<open>chess.rs\<close>) against the Gregorian calendar: the
  source computes with years that begin in March and eras of 400 years; the reference counts leap
  years and month lengths.
\<close>

section \<open>The calendar\<close>










section \<open>Years of an era\<close>





section \<open>Months of a year\<close>




section \<open>The month of a day\<close>






end
