(* ===== verification/Chess_Properties.thy ===== *)
theory Chess_Properties
  imports Chess_Samples Calendar
begin

text \<open>
  The properties of the chess arena, each with a witness: the rules engine, the rooms and the
  bracket, the clocks, the leaderboards.
\<close>

section \<open>The rules\<close>



text \<open>C28: Attack detection agrees with move generation: an occupied square is attacked by the other side
  exactly when some piece of that side has a pseudo-legal move that captures on it.\<close>

theorem attacks_are_captures:
  assumes "piece_at b t = Some q" and "pcolor q \<noteq> c"
  shows "is_square_attacked t c b \<longleftrightarrow>
    (\<exists>s p m. piece_at b s = Some p \<and> pcolor p = c \<and> m \<in> set (pseudo_legal_moves p s b) \<and> m_to m = t)"
proof -
  have "is_valid t" using assms(1) by (rule piece_at_valid)
  note iff = attacked_iff [OF this, of c b]
  show ?thesis unfolding iff using capture_iff [OF _ assms(1)] assms(2) by blast
qed

theorem attacks_are_captures_witness:
  "\<exists>s p m. piece_at board_4 s = Some p \<and> pcolor p = Black \<and> m \<in> set (pseudo_legal_moves p s board_4) \<and>
     m_to m = Square 4 0"
proof -
  have "piece_at board_4 (Square 4 0) = Some \<lparr>ptype = King, pcolor = White\<rparr>"
    "is_square_attacked (Square 4 0) Black board_4" by code_simp+
  then show ?thesis using attacks_are_captures [of board_4 "Square 4 0" _ Black] by simp
qed

text \<open>A legal castling move in a position of legal play is castling as the rules have it: king and
  rook stand at home, the squares between them are empty, and the king starts from, passes over
  and lands on squares the enemy does not attack.\<close>

theorem castling_sound:
  assumes "reachable_board b" and "m \<in> set (legal_moves b)" and "has_piece b (m_from m) King c"
    and "\<bar>s_file (m_to m) - s_file (m_from m)\<bar> = 2"
  shows "(m_from m = Square 4 (home_rank c)) \<and>
    (c = side_to_move b) \<and>
    (\<exists>rook step. (rook, step) \<in> {(7, 1), (0, -1)} \<and> has_piece b (Square rook (home_rank c)) Rook c \<and>
      m_to m = Square (4 + 2 * step) (home_rank c) \<and>
      (\<forall>f. min 4 rook < f \<and> f < max 4 rook \<longrightarrow> piece_at b (Square f (home_rank c)) = None) \<and>
      (\<forall>k \<in> {0, 1}. \<not> is_square_attacked (Square (4 + k * step) (home_rank c)) (opposite c) b) \<and>
      \<not> is_king_in_check c (apply_board m b))"
proof -
  note inv = reachable_inv [OF assms(1)]
  from assms(2) obtain s p where p: "piece_at b s = Some p" "pcolor p = side_to_move b"
    and pm: "m \<in> set (pseudo_legal_moves p s b)"
    and safe: "\<not> is_king_in_check (side_to_move b) (apply_board m b)" by (rule legal_movesD)
  have fs: "m_from m = s" by (rule move_kinds(1) [OF inv p pm])
  have king: "ptype p = King" "pcolor p = c" using assms(3) p(1) fs by (auto simp: has_piece_iff)
  have "m \<notin> set (stepping_moves king_offsets c s b)"
  proof
    assume "m \<in> set (stepping_moves king_offsets c s b)"
    then obtain d where "d \<in> set king_offsets" "m = plain s (step_by s d)" by (auto simp: stepping_moves_iff)
    then show False using assms(4) offsets_nonzero(2) [of d s] by simp
  qed
  then have ks: "\<not> is_square_attacked s (opposite c) b" "castle_k_ok c b \<and> m = plain s (Square 6 (home_rank c)) \<or>
      castle_q_ok c b \<and> m = plain s (Square 2 (home_rank c))"
    using pm king by (auto simp: king_moves_def Let_def home_rank_def split: if_splits)
  have "castle_move b p m \<or> ordinary b p m \<or> en_passant_move b p m" using move_kinds(2) [OF inv p pm] by blast
  moreover have "\<not> ordinary b p m" "\<not> en_passant_move b p m"
    using assms(4) king by (auto simp: ordinary_def is_castle_def en_passant_move_def is_en_passant_capture_def)
  ultimately have cm: "castle_move b p m" by blast
  have from4: "m_from m = Square 4 (home_rank c)" using cm king by (simp add: castle_move_def)
  have f1: "c = side_to_move b" using p(2) king(2) by simp
  have rook: "can_castle_k c b \<Longrightarrow> has_piece b (Square 7 (home_rank c)) Rook c"
    "can_castle_q c b \<Longrightarrow> has_piece b (Square 0 (home_rank c)) Rook c"
    using inv by (simp_all add: chess_inv_def rights_ok_def)
  have start: "\<not> is_square_attacked (Square 4 (home_rank c)) (opposite c) b" using ks(1) from4 fs by simp
  have after: "\<not> is_king_in_check c (apply_board m b)" using safe p(2) king(2) by simp
  from ks(2) have f2: "\<exists>rook step. (rook, step) \<in> {(7, 1), (0, -1)} \<and> has_piece b (Square rook (home_rank c)) Rook c \<and>
      m_to m = Square (4 + 2 * step) (home_rank c) \<and>
      (\<forall>f. min 4 rook < f \<and> f < max 4 rook \<longrightarrow> piece_at b (Square f (home_rank c)) = None) \<and>
      (\<forall>k \<in> {0, 1}. \<not> is_square_attacked (Square (4 + k * step) (home_rank c)) (opposite c) b) \<and>
      \<not> is_king_in_check c (apply_board m b)"
  proof (elim disjE conjE)
    assume k: "castle_k_ok c b" and m: "m = plain s (Square 6 (home_rank c))"
    have "f = 5 \<or> f = 6" if "4 < f" "f < 7" for f :: int using that by auto
    then show ?thesis using k rook(1) start after unfolding m
      by (intro exI [of _ 7] exI [of _ 1]) (auto simp: castle_k_ok_def Let_def simp flip: home_rank_def)
  next
    assume k: "castle_q_ok c b" and m: "m = plain s (Square 2 (home_rank c))"
    have "f = 1 \<or> f = 2 \<or> f = 3" if "0 < f" "f < 4" for f :: int using that by auto
    then show ?thesis using k rook(2) start after unfolding m
      by (intro exI [of _ 0] exI [of _ "-1"]) (auto simp: castle_q_ok_def Let_def simp flip: home_rank_def)
  qed
  show ?thesis using from4 f1 f2 by blast
qed

theorem castling_sound_witness:
  "side_to_move castle_board = White \<and> \<not> is_king_in_check White (apply_board castle_now castle_board)"
proof -
  have m: "m_from castle_now = Square 4 0" "m_to castle_now = Square 6 0" by (simp_all add: castle_now_def)
  show ?thesis
    using castling_sound [OF castle_reachable legal_nowI [OF castle_line_ok(2)], of White] castle_line_ok(3)
    by (simp add: m)
qed

section \<open>Rooms, games and the bracket\<close>

text \<open>In every replay, every room is well formed: it seats 2 or 8 players, all different and never more
  than its capacity; it has games only once it has started, which happens exactly with the last
  seat taken; and a room that was cancelled never started.\<close>

theorem rooms_well_formed:
  assumes "hm_get (reduce sha events) k = Some t"
  shows "(t_capacity t \<in> {2, 8}) \<and>
    (distinct (t_players t)) \<and>
    (int (length (t_players t)) \<le> t_capacity t) \<and>
    (t_started_at t = None \<longleftrightarrow> int (length (t_players t)) < t_capacity t) \<and>
    (t_started_at t = None \<longrightarrow> t_games t = []) \<and>
    (t_cancelled t \<longrightarrow> t_started_at t = None)"
proof -
  have "seats_ok t" using reduce_ok [of sha events] assms unfolding rooms_ok_def room_ok_def by blast
  then have f1: "t_capacity t \<in> {2, 8}" "distinct (t_players t)" "int (length (t_players t)) \<le> t_capacity t"
    "t_started_at t = None \<longleftrightarrow> int (length (t_players t)) < t_capacity t"
    "t_started_at t = None \<Longrightarrow> t_games t = []" "t_cancelled t \<Longrightarrow> t_started_at t = None"
    by (auto simp: seats_ok_def split: if_splits)
  show ?thesis using f1 by blast
qed

theorem rooms_well_formed_witness: "distinct (t_players done_room) \<and> t_capacity done_room \<in> {2, 8}"
  using rooms_well_formed [of "\<lambda>x. x" "joins @ resigns" duel_room done_room] by (simp add: reduce_duel hm_get_def)

text \<open>C15: In every replay, every game is sound: its board is a position of legal play with the side to move
  given by the number of moves, no clock leaves the range from zero to five minutes, the winner is
  one of its two different players, and an unfinished game has time on both clocks, no mate,
  stalemate or dead position on the board, fewer than 100 quiet half-moves and no position
  three times.\<close>

theorem games_well_formed:
  assumes "hm_get (reduce sha events) k = Some t" and "hm_get (t_games t) gid = Some g"
  shows "(reachable_board (g_board g)) \<and>
    (g_side g = White \<longleftrightarrow> even (g_moves_count g)) \<and>
    (0 \<le> g_white_used g \<and> g_white_used g \<le> clock_ms) \<and>
    (0 \<le> g_black_used g \<and> g_black_used g \<le> clock_ms) \<and>
    (g_white g \<noteq> g_black g) \<and>
    (g_winner g \<in> {None, Some (g_white g), Some (g_black g)}) \<and>
    (g_winner g = None \<longrightarrow> g_white_used g < clock_ms \<and> g_black_used g < clock_ms \<and>
      g_halfmove_clock g < 100 \<and> (\<forall>n. hm_get (g_position_counts g) p = Some n \<longrightarrow> n < 3) \<and>
      \<not> is_checkmate (g_board g) \<and> \<not> is_stalemate (g_board g) \<and> \<not> is_insufficient_material (g_board g))"
proof -
  have "room_ok t" using reduce_ok [of sha events] assms(1) unfolding rooms_ok_def by blast
  then have "game_ok g" using assms(2) unfolding room_ok_def games_ok_def by blast
  then have f1: "reachable_board (g_board g)" "g_side g = White \<longleftrightarrow> even (g_moves_count g)"
    "0 \<le> g_white_used g \<and> g_white_used g \<le> clock_ms" "0 \<le> g_black_used g \<and> g_black_used g \<le> clock_ms"
    "g_white g \<noteq> g_black g" "g_winner g \<in> {None, Some (g_white g), Some (g_black g)}"
    "g_winner g = None \<Longrightarrow> g_white_used g < clock_ms \<and> g_black_used g < clock_ms \<and>
      g_halfmove_clock g < 100 \<and> (\<forall>n. hm_get (g_position_counts g) p = Some n \<longrightarrow> n < 3) \<and>
      \<not> is_checkmate (g_board g) \<and> \<not> is_stalemate (g_board g) \<and> \<not> is_insufficient_material (g_board g)"
    by (auto simp: game_ok_def still_open_def is_over_def)
  show ?thesis using f1 by blast
qed

theorem games_well_formed_witness:
  "reachable_board (g_board done_game) \<and> g_winner done_game \<in> {None, Some alice, Some bob}"
  using games_well_formed [of "\<lambda>x. x" "joins @ resigns" duel_room done_room "game_id 1 0" done_game]
  by (simp add: reduce_duel hm_get_def done_fields)

text \<open>C14: Results are final: rows that come later in chain order never change a finished game, the players
  of a started room, or which game is played between whom.\<close>

theorem results_are_final:
  assumes "hm_get (reduce sha events) k = Some t"
    and "\<And>a b. a \<in> set events \<Longrightarrow> b \<in> set later \<Longrightarrow> chain_order a \<le> chain_order b"
  shows "\<exists>t'. hm_get (reduce sha (events @ later)) k = Some t' \<and> t_capacity t' = t_capacity t \<and>
    (t_started_at t \<noteq> None \<longrightarrow> t_started_at t' = t_started_at t \<and> t_players t' = t_players t) \<and>
    (\<forall>gid g. hm_get (t_games t) gid = Some g \<longrightarrow>
       (\<exists>g'. hm_get (t_games t') gid = Some g' \<and> g_white g' = g_white g \<and> g_black g' = g_black g \<and>
          (is_over g \<longrightarrow> g' = g)))"
proof -
  have "reduce sha (events @ later) = fold (apply_event sha) (sort_key chain_order later) (reduce sha events)"
    by (rule rooms.later_rows [OF assms(2)])
  then have "rooms_extend (reduce sha events) (reduce sha (events @ later))"
    using fold_events_ok [OF reduce_ok] by metis
  then obtain t' where "hm_get (reduce sha (events @ later)) k = Some t'" "extends t t'"
    using assms(1) unfolding rooms_extend_def by blast
  then show ?thesis
    unfolding extends_def same_pairing_def by (intro exI [of _ t']) (fastforce)
qed

theorem results_are_final_witness:
  "\<exists>t'. hm_get (reduce (\<lambda>x. x) (joins @ resigns)) duel_room = Some t' \<and> t_players t' = t_players live_room"
proof -
  have "hm_get (reduce (\<lambda>x. x) joins) duel_room = Some live_room" by (simp add: reduce_joins hm_get_def)
  moreover have "a \<in> set joins \<Longrightarrow> b \<in> set resigns \<Longrightarrow> chain_order a \<le> chain_order b" for a b
    by (auto simp: joins_def resigns_def)
  ultimately show ?thesis using results_are_final [of "\<lambda>x. x" joins duel_room live_room resigns] live_games(2) by auto
qed

text \<open>C10: The bracket is single elimination: a player who has lost a game of a room appears in no other game
  of the same or a later round, so nobody loses twice in a room, and the champion has lost none.\<close>

theorem eliminated_once:
  assumes "hm_get (reduce sha events) k = Some t"
    and "hm_get (t_games t) gid = Some g" and "is_over g" and "x \<in> {g_white g, g_black g}" and "g_winner g \<noteq> Some x"
  shows "(champion t \<noteq> Some x) \<and>
    (\<forall>hid h. hm_get (t_games t) hid = Some h \<longrightarrow> x \<in> {g_white h, g_black h} \<longrightarrow>
      hid = gid \<or> g_round h < g_round g \<and> (is_over h \<longrightarrow> g_winner h = Some x))"
proof -
  have ok: "room_ok t" using reduce_ok [of sha events] assms(1) unfolding rooms_ok_def by blast
  have l: "lost x g" using assms(3-5) by (auto simp: lost_def)
  have f1: "champion t \<noteq> Some x" using champion_never_lost [OF ok _ assms(2)] l by blast
  have f2: "hid = gid \<or> g_round h < g_round g \<and> (is_over h \<longrightarrow> g_winner h = Some x)"
    if h: "hm_get (t_games t) hid = Some h" "x \<in> {g_white h, g_black h}" for hid h
  proof -
    have "gid = hid \<or> g_round h < g_round g" using loser_plays_no_more [OF ok assms(2) l h(1)] h(2) by auto
    moreover have "gid = hid" if "is_over h" "g_winner h \<noteq> Some x"
      by (rule lost_once [OF ok assms(2) l h(1)]) (use h(2) that in \<open>auto simp: lost_def\<close>)
    ultimately show ?thesis by blast
  qed
  show ?thesis using f1 f2 by blast
qed

theorem eliminated_once_witness: "champion done_room \<noteq> Some alice"
  using eliminated_once [of "\<lambda>x. x" "joins @ resigns" duel_room done_room "game_id 1 0" done_game alice]
  by (simp add: reduce_duel hm_get_def done_fields)

text \<open>C6: A live room never gets stuck: as long as its final is not decided, one of its games is unfinished,
  because every decided pair of games has been followed by its successor.\<close>

theorem bracket_progress:
  assumes "hm_get (reduce sha events) k = Some t" and "t_started_at t \<noteq> None" and "champion t = None"
  shows "\<exists>gid g. hm_get (t_games t) gid = Some g \<and> \<not> is_over g"
proof -
  have ok: "room_ok t" using reduce_ok [of sha events] assms(1) unfolding rooms_ok_def by blast
  then have "\<not> t_cancelled t" using assms(2) by (auto simp: room_ok_def seats_ok_def)
  moreover have "\<not> is_finished t"
    using assms(3) by (auto simp: is_finished_def champion_def is_over_def split: option.splits)
  ultimately show ?thesis using live_has_open_game [OF ok] assms(2) by (simp add: is_live_def)
qed

theorem bracket_progress_witness: "\<exists>gid g. hm_get (t_games live_room) gid = Some g \<and> \<not> is_over g"
  by (rule bracket_progress [of "\<lambda>x. x" joins duel_room])
    (simp_all add: reduce_joins hm_get_def live_games champion_def final_game_id_def t_rounds_def is_duel_def)

section \<open>Clocks and notation\<close>

lemma finish_draw_used [simp]:
  "g_white_used (finish_draw time g) = g_white_used g" "g_black_used (finish_draw time g) = g_black_used g"
  by (simp_all add: finish_draw_def Let_def)

lemma end_checks_used [simp]:
  "g_white_used (end_checks w time g) = g_white_used g" "g_black_used (end_checks w time g) = g_black_used g"
  by (simp_all add: end_checks_def Let_def)



text \<open>The texts on the wire read back: the algebraic name of every square of the board is read as that
  square, and the identifier printed for room number n is read as public (or 1v1) room n and as no
  room of the other kind.\<close>

theorem wire_texts_roundtrip:
  shows "(is_valid s \<longrightarrow> from_algebraic (algebraic s) = Some s) \<and>
    (1 \<le> n \<longrightarrow> n < 2 ^ 63 \<longrightarrow> public_number (public_id n) = Some n \<and> duel_number (public_id n) = None) \<and>
    (1 \<le> n \<longrightarrow> n < 2 ^ 63 \<longrightarrow> duel_number (duel_id n) = Some n \<and> public_number (duel_id n) = None)"
proof -
  have "list_all (\<lambda>s. from_algebraic (algebraic s) = Some s) all_squares" by code_simp
  then have f1: "is_valid s \<Longrightarrow> from_algebraic (algebraic s) = Some s" by (simp add: list_all_iff all_squares_valid)
  have num: "number_of (p @ show_int n) p = Some n" if "1 \<le> n" "n < 2 ^ 63" for p and n :: int
    using parse_show_i64 [of n] that by (auto simp: number_of_def)
  have "strip_prefix duel_id_prefix (public_id n) = None" "strip_prefix public_id_prefix (duel_id n) = None" for n
    by (simp_all add: strip_prefix_def duel_id_prefix_def public_id_prefix_def public_id_def duel_id_def ascii_def)
  then have other: "number_of (public_id n) duel_id_prefix = None" "number_of (duel_id n) public_id_prefix = None" for n
    by (simp_all add: number_of_def)
  have f2: "1 \<le> n \<Longrightarrow> n < 2 ^ 63 \<Longrightarrow> public_number (public_id n) = Some n \<and> duel_number (public_id n) = None"
    "1 \<le> n \<Longrightarrow> n < 2 ^ 63 \<Longrightarrow> duel_number (duel_id n) = Some n \<and> public_number (duel_id n) = None"
    using num other by (simp_all add: public_number_def duel_number_def) (simp_all add: public_id_def duel_id_def)
  show ?thesis using f1 f2 by blast
qed

theorem wire_texts_roundtrip_witness:
  "from_algebraic (algebraic (Square 4 3)) = Some (Square 4 3) \<and> public_number (public_id 12) = Some 12 \<and>
   duel_number (duel_id 7) = Some 7"
  using wire_texts_roundtrip [of "Square 4 3" 12] wire_texts_roundtrip [of "Square 4 3" 7]
  by (simp add: is_valid_def)

lemma square_letter_inj: "square_letter p = square_letter q \<Longrightarrow> p = q"
proof -
  have all: "p \<in> insert None (Some ` ((\<lambda>(t, c). \<lparr>ptype = t, pcolor = c\<rparr>) `
      ({Pawn, Knight, Bishop, Rook, Queen, King} \<times> {White, Black})))" for p :: "piece option"
  proof (cases p)
    case (Some a)
    then show ?thesis by (cases a; cases "ptype a"; cases "pcolor a") (auto simp: image_iff)
  qed simp
  have up: "map ascii_upper [112, 110, 98, 114, 113, 107] = [80, 78, 66, 82, 81, 75]" by code_simp
  assume "square_letter p = square_letter q"
  then show "p = q" using all [of p] all [of q] up
    by (auto simp: square_letter_def piece_letter_def)
qed

lemma ep_text_inj:
  assumes "\<And>s. x = Some s \<Longrightarrow> is_valid s" and "\<And>s. y = Some s \<Longrightarrow> is_valid s"
    and "(case x of Some s \<Rightarrow> algebraic s | None \<Rightarrow> ascii ''-'') = (case y of Some s \<Rightarrow> algebraic s | None \<Rightarrow> ascii ''-'')"
  shows "x = y"
proof -
  have len: "show_int n \<noteq> []" for n by (simp add: show_int_def)
  have "length (algebraic s) \<noteq> length (ascii ''-'')" for s using len by (simp add: algebraic_def)
  then have "algebraic s \<noteq> ascii ''-''" for s by metis
  moreover have "list_all (\<lambda>s. from_algebraic (algebraic s) = Some s) all_squares" by code_simp
  then have "is_valid s \<Longrightarrow> from_algebraic (algebraic s) = Some s" for s by (simp add: list_all_iff all_squares_valid)
  ultimately show ?thesis using assms by (cases x; cases y) (auto, metis option.inject)
qed

text \<open>Threefold repetition is counted on the whole position: two positions of legal play with the same key
  are the same position, in placement, side to move, castling rights and en passant square.\<close>

theorem position_key_injective:
  assumes "reachable_board b" and "reachable_board b'" and "position_key b = position_key b'"
  shows "b = b'"
proof -
  have inv: "chess_inv b" "chess_inv b'" using assms(1,2) reachable_inv by blast+
  have len: "length (concat (squares b)) = 64" if "chess_inv b" for b
  proof -
    have "length (squares b) = 8" "\<forall>row \<in> set (squares b). length row = 8"
      using that by (simp_all add: chess_inv_def board_ok_def)
    moreover have "\<forall>row \<in> set xs. length row = 8 \<Longrightarrow> length (concat xs) = 8 * length xs" for xs :: "piece option list list"
      by (induction xs) simp_all
    ultimately show ?thesis by simp
  qed
  have ep: "is_valid s" if "chess_inv b" "en_passant b = Some s" for b s
  proof -
    have "has_piece b (Square (s_file s) (s_rank s - pawn_dir (side_to_move b))) Pawn (opposite (side_to_move b))"
      "s_rank s = (if side_to_move b = White then 5 else 2)"
      using that by (auto simp: chess_inv_def ep_ok_def)
    then show ?thesis using has_piece_valid by (fastforce simp: is_valid_def)
  qed
  note key = assms(3) [unfolded position_key_def]
  have "map square_letter (concat (squares b)) = map square_letter (concat (squares b'))"
    using key len [OF inv(1)] len [OF inv(2)] by (simp add: append_eq_append_conv)
  then have "concat (squares b) = concat (squares b')"
    by (rule map_injective) (auto intro: injI square_letter_inj)
  then have sq: "squares b = squares b'"
    by (rule concat_injective) (use inv in \<open>auto simp: chess_inv_def board_ok_def set_zip\<close>)
  have "(if side_to_move b = White then 119 else 98 :: u8) = (if side_to_move b' = White then 119 else 98)"
    "(if white_castle_k b then 75 else 45 :: u8) = (if white_castle_k b' then 75 else 45)"
    "(if white_castle_q b then 81 else 45 :: u8) = (if white_castle_q b' then 81 else 45)"
    "(if black_castle_k b then 107 else 45 :: u8) = (if black_castle_k b' then 107 else 45)"
    "(if black_castle_q b then 113 else 45 :: u8) = (if black_castle_q b' then 113 else 45)"
    "(case en_passant b of Some s \<Rightarrow> algebraic s | None \<Rightarrow> ascii ''-'') =
     (case en_passant b' of Some s \<Rightarrow> algebraic s | None \<Rightarrow> ascii ''-'')"
    using key by (simp_all only: sq append_Cons append_Nil list.inject same_append_eq)
  note parts = this
  have pick: "x \<noteq> y \<Longrightarrow> (if A then x else y) = (if B then x else y) \<Longrightarrow> A = B" for A B and x y :: u8
    by (auto split: if_splits)
  have "(side_to_move b = White) = (side_to_move b' = White)" by (rule pick [OF _ parts(1)]) simp
  then have "side_to_move b = side_to_move b'" by (cases "side_to_move b"; cases "side_to_move b'") simp_all
  moreover have "white_castle_k b = white_castle_k b'" by (rule pick [OF _ parts(2)]) simp
  moreover have "white_castle_q b = white_castle_q b'" by (rule pick [OF _ parts(3)]) simp
  moreover have "black_castle_k b = black_castle_k b'" by (rule pick [OF _ parts(4)]) simp
  moreover have "black_castle_q b = black_castle_q b'" by (rule pick [OF _ parts(5)]) simp
  moreover have "en_passant b = en_passant b'"
    by (rule ep_text_inj [OF _ _ parts(6)]) (use ep inv in blast)+
  ultimately show ?thesis using sq by simp
qed

theorem position_key_injective_witness: "position_key board_1 \<noteq> position_key board_2"
proof
  assume "position_key board_1 = position_key board_2"
  then have "board_1 = board_2" by (rule position_key_injective [OF mate_reachable(1,2)])
  moreover have "side_to_move board_2 = opposite (side_to_move board_1)"
    unfolding board_2_def
    by (rule legal_move_preserves(2) [OF reachable_inv [OF mate_reachable(1)] legal_nowI [OF mate_legal(2)]])
  ultimately show False by simp
qed

section \<open>The answers\<close>





text \<open>A leaderboard row counts exactly what it says: its wins and losses are the finished games of the
  rooms started in the period that its address won and lost, split into 1v1 games and games of
  eight-player tournaments.\<close>

theorem leaderboard_counts:
  assumes "r \<in> set (leaderboard ts since)"
  shows "(lr_wins r = int (length (filter (\<lambda>dg. won_by (lr_address r) (snd dg)) (counted_games ts since)))) \<and>
    (lr_losses r = int (length (filter (\<lambda>dg. lost_by (lr_address r) (snd dg)) (counted_games ts since)))) \<and>
    (lr_duel_wins r = int (length (filter (\<lambda>dg. fst dg \<and> won_by (lr_address r) (snd dg)) (counted_games ts since)))) \<and>
    (lr_duel_losses r = int (length (filter (\<lambda>dg. fst dg \<and> lost_by (lr_address r) (snd dg)) (counted_games ts since)))) \<and>
    (lr_tournament_game_wins r =
      int (length (filter (\<lambda>dg. \<not> fst dg \<and> won_by (lr_address r) (snd dg)) (counted_games ts since)))) \<and>
    (lr_tournament_game_losses r =
      int (length (filter (\<lambda>dg. \<not> fst dg \<and> lost_by (lr_address r) (snd dg)) (counted_games ts since))))"
  by (intro conjI row_counts [OF assms])

definition bob_row :: leaderboard_row where
  "bob_row = won_row True 1792647962000 (new_row bob)"

definition alice_row :: leaderboard_row where
  "alice_row = lost_row True 1792647962000 (new_row alice)"

lemma duel_leaderboard: "leaderboard [(duel_room, done_room)] 0 = [bob_row, alice_row]"
  by (simp add: leaderboard_def count_room_def done_fields count_game_def on_row_def loser_of_def Let_def
      hm_insert_def hm_get_def lb_order_def bob_row_def alice_row_def won_row_def lost_row_def new_row_def)

theorem leaderboard_counts_witness:
  "lr_wins bob_row = int (length (filter (\<lambda>dg. won_by bob (snd dg)) (counted_games [(duel_room, done_room)] 0))) \<and>
   lr_wins bob_row = 1"
  using leaderboard_counts [of bob_row "[(duel_room, done_room)]" 0]
  by (simp add: duel_leaderboard) (simp add: bob_row_def won_row_def new_row_def)

text \<open>C19: No result is lost or counted twice: over a whole leaderboard, the wins and the losses each add up to
  the number of finished games of the rooms started in the period.\<close>

theorem leaderboard_conserves:
  "sum_list (map lr_wins (leaderboard ts since)) = int (length (counted_games ts since)) \<and>
   sum_list (map lr_losses (leaderboard ts since)) = int (length (counted_games ts since))"
proof -
  have over: "is_over (snd dg)" if "dg \<in> set (counted_games ts since)" for dg
    using that by (auto simp: counted_games_def split: if_splits)
  have one: "length (filter (\<lambda>au. \<exists>d e. snd au = Won d e) (game_updates_of dg)) = 1"
    "length (filter (\<lambda>au. \<exists>d e. snd au = Lost d e) (game_updates_of dg)) = 1"
    if "is_over (snd dg)" for dg
    using that by (auto simp: game_updates_of_def game_updates_def is_over_def)
  have count: "sum_list (map f xs) = length xs" if "\<And>x. x \<in> set xs \<Longrightarrow> f x = 1"
    for f :: "bool \<times> game \<Rightarrow> nat" and xs using that by (induction xs) auto
  have "sum_list (map lr_wins (leaderboard ts since)) = int (sum_list (map (\<lambda>dg. length
      (filter (\<lambda>au. \<exists>d e. snd au = Won d e) (game_updates_of dg))) (counted_games ts since)))"
    by (rule total_leaderboard [where p = "\<lambda>u. \<exists>d e. u = Won d e"]) (auto simp: new_row_def row_update_fields)
  moreover have "sum_list (map lr_losses (leaderboard ts since)) = int (sum_list (map (\<lambda>dg. length
      (filter (\<lambda>au. \<exists>d e. snd au = Lost d e) (game_updates_of dg))) (counted_games ts since)))"
    by (rule total_leaderboard [where p = "\<lambda>u. \<exists>d e. u = Lost d e"]) (auto simp: new_row_def row_update_fields)
  ultimately show ?thesis using count [OF one(1) [OF over]] count [OF one(2) [OF over]] by simp
qed

text \<open>The leaderboard does not depend on how the hash maps happen to iterate: listing the rooms in
  another order, and the games of each room in another order, gives the same rows in the same order.\<close>

theorem leaderboard_iteration_order:
  assumes "mset ts = mset us" and "list_all2 (\<lambda>(k, t) (k', t'). k = k' \<and> hm_ok (t_games t) \<and>
      (\<exists>gs. mset gs = mset (t_games t) \<and> t' = t\<lparr>t_games := gs\<rparr>)) us vs"
  shows "leaderboard ts since = leaderboard vs since"
proof -
  have same: "mset (room_updates since t) = mset (room_updates since (t\<lparr>t_games := gs\<rparr>))"
    if "mset gs = mset (t_games t)" "hm_ok (t_games t)" for t gs
  proof -
    have "distinct (map fst gs)" using that by (metis hm_ok_def mset_eq_imp_distinct_iff mset_map)
    moreover have "set gs = set (t_games t)" using that(1) by (metis set_mset_mset)
    ultimately have "hm_get gs = hm_get (t_games t)"
      using that(2) by (simp add: hm_get_def [abs_def] hm_ok_def map_of_inject_set)
    then have champ: "champion (t\<lparr>t_games := gs\<rparr>) = champion t" "is_duel (t\<lparr>t_games := gs\<rparr>) = is_duel t"
      by (simp_all add: champion_def final_game_id_def t_rounds_def is_duel_def)
    have "mset (concat (map (\<lambda>kg. game_updates d (snd kg)) gs)) =
        mset (concat (map (\<lambda>kg. game_updates d (snd kg)) (t_games t)))" for d
      by (metis (no_types, lifting) that(1) mset_concat mset_map map_map sum_mset_sum_list)
    moreover have "counted since (t\<lparr>t_games := gs\<rparr>) = counted since t" by (simp add: counted_def)
    ultimately show ?thesis by (simp add: room_updates_def champ del: mset_concat)
  qed
  have "mset (all_updates us since) = mset (all_updates vs since)" using assms(2)
  proof (induction rule: list_all2_induct)
    case (Cons kt us kt' vs)
    have "mset (room_updates since (snd kt)) = mset (room_updates since (snd kt'))"
    proof -
      obtain k t k' t' where kt: "kt = (k, t)" "kt' = (k', t')" by (cases kt; cases kt') blast
      from Cons.hyps(1) obtain gs where "hm_ok (t_games t)" "mset gs = mset (t_games t)" "t' = t\<lparr>t_games := gs\<rparr>"
        unfolding kt by blast
      then show ?thesis using same unfolding kt snd_conv by blast
    qed
    then show ?case using Cons.IH by (simp add: all_updates_def)
  qed (simp add: all_updates_def)
  moreover have "mset (all_updates ts since) = mset (all_updates us since)"
    unfolding all_updates_def by (metis (no_types, lifting) assms(1) mset_concat mset_map map_map sum_mset_sum_list)
  ultimately show ?thesis by (intro leaderboard_mset) simp
qed

theorem leaderboard_iteration_order_witness:
  "leaderboard [(duel_room, done_room), ([], waiting_room)] 0 = leaderboard [([], waiting_room), (duel_room, done_room)] 0"
  by (rule leaderboard_iteration_order [where us = "[([], waiting_room), (duel_room, done_room)]"])
    (auto simp: done_fields hm_ok_def waiting_room_def new_room_def)

text \<open>C31: On the tournament board of a replay, a player's tournaments won and tournaments lost never add up to
  more than the tournaments played: a tournament counts at most one loss, and none for its champion.\<close>

theorem tournament_board_bounded:
  assumes "r \<in> set (leaderboard (reduce sha events) since)"
  shows "lr_tournaments_won r + lr_tournaments_lost r \<le> lr_tournaments_played r"
  by (rule row_tournaments [OF reduce_ok assms])

theorem tournament_board_bounded_witness:
  "lr_tournaments_won alice_row + lr_tournaments_lost alice_row \<le> lr_tournaments_played alice_row"
  using tournament_board_bounded [of alice_row "\<lambda>x. x" "joins @ resigns" 0] by (simp add: reduce_duel duel_leaderboard)

section \<open>The bot boards\<close>

text \<open>A win on a bot board is a real one: its moves are a legal game from the initial position that ends in
  checkmate of the bot, and the number shown is the number of the player's own moves.\<close>

theorem bot_win_is_mate:
  assumes "to_bot_game row m = Some g" and "bg_win_moves g = Some n"
  shows "\<exists>b plies. replay_bot_moves (bm_m m) = Some (b, plies) \<and> reachable_board b \<and> is_checkmate b \<and>
    plies = length (split_whitespace (bm_m m)) \<and>
    (bm_c m = ascii ''w'' \<and> side_to_move b = Black \<and> plies = 2 * n - 1 \<and> 1 \<le> n \<or>
     bm_c m = ascii ''b'' \<and> side_to_move b = White \<and> plies = 2 * n)"
proof -
  from assms obtain b plies where r: "replay_bot_moves (bm_m m) = Some (b, plies)" "is_checkmate b"
    "bm_c m = ascii ''w'' \<and> side_to_move b = Black \<and> n = (plies + 1) div 2 \<or>
     bm_c m = ascii ''b'' \<and> side_to_move b = White \<and> n = plies div 2"
    by (auto simp: to_bot_game_def Let_def split: option.splits if_splits prod.splits)
  note f = replay_bot_reachable [OF r(1)]
  have "side_to_move b = Black \<Longrightarrow> odd plies" "side_to_move b = White \<Longrightarrow> even plies" using f(3) by auto
  then show ?thesis using r f(1,2) by (auto elim!: oddE evenE)
qed

theorem bot_win_is_mate_witness: "\<exists>b. replay_bot_moves mate_text = Some (b, 4) \<and> is_checkmate b \<and> side_to_move b = White"
proof -
  have c: "bm_m bot_result = mate_text" "bm_c bot_result = ascii ''b''" "bg_win_moves bot_win = Some 2"
    by (simp_all add: bot_result_def bot_win_def)
  show ?thesis using bot_win_is_mate [OF bot_result_game c(3)] by (auto simp: c(1,2))
qed

text \<open>C40: A bot board lists each player who beat the bot in the period once, with the smallest number of moves
  of his wins, and counts every game; the rows are ordered by moves, time and transaction.\<close>

theorem bot_board_shows_best:
  assumes "level_board games since level = Some bb"
    and "played = filter (\<lambda>g. bg_level g = level \<and> since \<le> bg_block_time g) games"
  shows "(bb_games bb = length played) \<and>
    (distinct (map br_address (bb_players bb))) \<and>
    (sorted (map bot_row_order (bb_players bb))) \<and>
    (a \<in> br_address ` set (bb_players bb) \<longleftrightarrow> (\<exists>g \<in> set played. bg_sender g = a \<and> bg_win_moves g \<noteq> None)) \<and>
    (r \<in> set (bb_players bb) \<longrightarrow>
      br_moves r = Min {n. \<exists>g \<in> set played. bg_sender g = br_address r \<and> bg_win_moves g = Some n})"
proof -
  note rows = level_board_rows [OF assms]
  let ?m = "fold best_win played []"
  have b: "best_so_far played ?m" by (rule best_wins)
  have ok: "hm_ok ?m" using b by (simp add: best_so_far_def)
  have f1: "bb_games bb = length played" "distinct (map br_address (bb_players bb))"
    "sorted (map bot_row_order (bb_players bb))" by (rule rows)+
  have row: "hm_get ?m (br_address r) = Some r" if "r \<in> set (bb_players bb)" for r
  proof -
    have "r \<in> snd ` set ?m" using that rows(4) by simp
    then obtain a where "(a, r) \<in> set ?m" by (metis imageE prod.collapse)
    then have "hm_get ?m a = Some r" using hm_in_iff [OF ok] by blast
    moreover from this have "br_address r = a" using b unfolding best_so_far_def by blast
    ultimately show ?thesis by simp
  qed
  have ex: "r \<in> set (bb_players bb)" if "hm_get ?m a = Some r" for a r
    using hm_get_SomeD [OF that] rows(4) by force
  have f2: "a \<in> br_address ` set (bb_players bb) \<longleftrightarrow> (\<exists>g \<in> set played. bg_sender g = a \<and> bg_win_moves g \<noteq> None)"
  proof
    assume "a \<in> br_address ` set (bb_players bb)"
    then obtain r where "hm_get ?m a = Some r" using row by blast
    then show "\<exists>g \<in> set played. bg_sender g = a \<and> bg_win_moves g \<noteq> None"
      using b unfolding best_so_far_def by blast
  next
    assume "\<exists>g \<in> set played. bg_sender g = a \<and> bg_win_moves g \<noteq> None"
    then obtain r where r: "hm_get ?m a = Some r" using b unfolding best_so_far_def by (metis not_None_eq)
    then have "br_address r = a" using b unfolding best_so_far_def by blast
    then show "a \<in> br_address ` set (bb_players bb)" using ex [OF r] by blast
  qed
  let ?S = "{n. \<exists>g \<in> set played. bg_sender g = br_address r \<and> bg_win_moves g = Some n}"
  have "?S \<subseteq> (\<lambda>g. the (bg_win_moves g)) ` set played" by force
  then have "finite ?S" by (rule finite_subset) simp
  moreover have "br_moves r \<in> ?S" "\<And>n. n \<in> ?S \<Longrightarrow> br_moves r \<le> n" if "r \<in> set (bb_players bb)"
    using row [OF that] b unfolding best_so_far_def by blast+
  ultimately have "br_moves r = Min ?S" if "r \<in> set (bb_players bb)" using that by (intro Min_eqI [symmetric])
  then show ?thesis using f1 f2 by blast
qed

theorem bot_board_shows_best_witness:
  "\<exists>bb. level_board [bot_win, bot_win\<lparr>bg_win_moves := Some 9\<rparr>] 0 3 = Some bb \<and> bb_games bb = 2 \<and>
     ascii ''alice'' \<in> br_address ` set (bb_players bb)"
proof -
  obtain bb where bb: "level_board [bot_win, bot_win\<lparr>bg_win_moves := Some 9\<rparr>] 0 3 = Some bb"
    by (simp add: level_board_def bot_win_def)
  note best = bot_board_shows_best [OF bb refl]
  show ?thesis
    using bb best [of "ascii ''alice''"] by (simp add: bot_win_def)
qed

text \<open>A bot game counts once: however often a player publishes the same game id, the counted games have
  different (sender, game id) pairs.\<close>

theorem bot_game_counts_once: "distinct (map (\<lambda>g. (bg_sender g, bg_game_id g)) (bot_games from_json rows))"
  using bot_replay_inv [of from_json rows] by (simp add: bot_inv_def bot_games_def bot_key_def [abs_def])

end
