(* ===== verification/Kv.thy ===== *)
theory Kv
  imports Store "HOL-Library.List_Lexorder"
begin

text \<open>
  The storage engine under the chat indexer (the \<open>fjall\<close> crate), as the parameter it is: a record
  of the operations \<open>kasia-indexer/indexer-db\<close> calls on a partition, and the laws it relies on.
  A partition maps byte strings to byte strings and iterates in the order of its keys. A write
  transaction is the state it works on; a commit that meets a conflict leaves no trace and the
  source runs the body again.
\<close>

section \<open>Byte strings in key order\<close>

text \<open>\<open>to_be_bytes\<close>: the most significant byte first.\<close>

definition to_be :: "nat \<Rightarrow> nat \<Rightarrow> bytes" where
  "to_be n x = rev (to_le n x)"

definition from_be :: "bytes \<Rightarrow> nat" where
  "from_be bs = from_le (rev bs)"

definition be64 :: "u64 \<Rightarrow> bytes" where
  "be64 t = to_be 8 (unat t)"

lemma length_to_be [simp, byte_simps]: "length (to_be n x) = n" "length (be64 t) = 8"
  by (simp_all add: to_be_def be64_def)

lemma from_be_to_be: "from_be (to_be n x) = x mod 256 ^ n"
  by (simp add: from_be_def to_be_def from_le_to_le)

lemma from_be_be64 [simp]: "word_of_nat (from_be (be64 t)) = t"
proof -
  have "unat t < 256 ^ 8" using unsigned_less [of t, where ?'a = nat] by simp
  then show ?thesis by (simp add: be64_def from_be_to_be del: to_le.simps)
qed

lemma be64_inj [simp]: "be64 s = be64 t \<longleftrightarrow> s = t"
  by (metis from_be_be64)

lemma lex_append_same [simp]:
  "(p @ x :: u8 list) < p @ y \<longleftrightarrow> x < y" "(p @ x :: u8 list) \<le> p @ y \<longleftrightarrow> x \<le> y"
  by (induction p) auto

lemma lex_append_less:
  "length a = length b \<Longrightarrow> (a @ x :: u8 list) < b @ y \<longleftrightarrow> a < b \<or> a = b \<and> x < y"
  by (induction a b rule: list_induct2) auto

lemma lex_append_le:
  "length a = length b \<Longrightarrow> (a @ x :: u8 list) \<le> b @ y \<longleftrightarrow> a < b \<or> a = b \<and> x \<le> y"
  by (induction a b rule: list_induct2) auto

text \<open>Big-endian bytes compare like the numbers they stand for.\<close>

lemma to_be_Suc: "to_be (Suc n) x = word_of_nat (x div 256 ^ n) # to_be n x"
  by (simp add: to_be_def to_le_snoc del: to_le.simps)

lemma mixed_less:
  assumes "r < (m :: nat)" and "r' < m"
  shows "q * m + r < q' * m + r' \<longleftrightarrow> q < q' \<or> q = q' \<and> r < r'"
proof -
  have less: "a * m + x < b * m + y" if "a < b" "x < m" for a b x y :: nat
  proof -
    have "(a + 1) * m \<le> b * m" using that(1) by (intro mult_le_mono1) simp
    then have "a * m + m \<le> b * m" by (simp add: add.commute)
    with that(2) show ?thesis by linarith
  qed
  show ?thesis
  proof (cases q q' rule: linorder_cases)
    case less
    then show ?thesis using \<open>\<And>a b x y. a < b \<Longrightarrow> x < m \<Longrightarrow> a * m + x < b * m + y\<close> assms by simp
  next
    case greater
    then show ?thesis using less [of q' q r' r] assms by simp
  qed simp
qed

lemma to_be_less: "to_be n x < to_be n y \<longleftrightarrow> x mod 256 ^ n < y mod 256 ^ n"
proof (induction n)
  case 0
  then show ?case by (simp add: to_be_def)
next
  case (Suc n)
  let ?q = "\<lambda>x :: nat. x div 256 ^ n mod 256" and ?r = "\<lambda>x :: nat. x mod 256 ^ n"
  have split: "x mod 256 ^ Suc n = ?q x * 256 ^ n + ?r x" for x :: nat
    by (simp add: mod_mult2_eq mult.commute [of 256])
  have q: "(word_of_nat a :: u8) < word_of_nat b \<longleftrightarrow> a mod 256 < b mod 256"
    "(word_of_nat a :: u8) = word_of_nat b \<longleftrightarrow> a mod 256 = b mod 256" for a b
    by (simp_all add: word_less_nat_alt word_unat_eq_iff unat_u8_of_nat)
  show ?case unfolding split to_be_Suc Cons_less_Cons q Suc.IH by (subst mixed_less) simp_all
qed

lemma be64_less [simp]: "be64 s < be64 t \<longleftrightarrow> s < t"
proof -
  have "unat x < 256 ^ 8" for x :: u64 using unsigned_less [of x, where ?'a = nat] by simp
  then show ?thesis by (simp add: be64_def to_be_less word_less_nat_alt del: to_le.simps)
qed

section \<open>The engine\<close>

record 's kv =
  kv_get :: "'s \<Rightarrow> bytes \<Rightarrow> bytes option"
  kv_insert :: "bytes \<Rightarrow> bytes \<Rightarrow> 's \<Rightarrow> 's"
  kv_remove :: "bytes \<Rightarrow> 's \<Rightarrow> 's"
  kv_fetch_update :: "bytes \<Rightarrow> (bytes option \<Rightarrow> bytes option) \<Rightarrow> 's \<Rightarrow> bytes option \<times> 's"
  kv_update_fetch :: "bytes \<Rightarrow> (bytes option \<Rightarrow> bytes option) \<Rightarrow> 's \<Rightarrow> bytes option \<times> 's"
  kv_iter :: "'s \<Rightarrow> (bytes \<times> bytes) list"
  kv_prefix :: "bytes \<Rightarrow> 's \<Rightarrow> (bytes \<times> bytes) list"
  kv_range :: "bytes \<Rightarrow> bytes \<Rightarrow> 's \<Rightarrow> (bytes \<times> bytes) list" \<comment> \<open>\<open>from..=to\<close>\<close>
  kv_below :: "bytes \<Rightarrow> 's \<Rightarrow> (bytes \<times> bytes) list" \<comment> \<open>\<open>..to\<close>\<close>

text \<open>
  The documented behaviour: \<open>fetch_update\<close> replaces a value by a function of it and returns the
  previous value, \<open>update_fetch\<close> the new one; iteration is in key order; a prefix or a range is the
  part of the iteration whose keys lie in it.
\<close>

definition kv_laws :: "'s kv \<Rightarrow> bool" where
  "kv_laws kv \<longleftrightarrow>
     (\<forall>s k v. kv_get kv (kv_insert kv k v s) = (kv_get kv s)(k \<mapsto> v)) \<and>
     (\<forall>s k. kv_get kv (kv_remove kv k s) = (kv_get kv s)(k := None)) \<and>
     (\<forall>s k f. fst (kv_fetch_update kv k f s) = kv_get kv s k \<and>
        kv_get kv (snd (kv_fetch_update kv k f s)) = (kv_get kv s)(k := f (kv_get kv s k))) \<and>
     (\<forall>s k f. fst (kv_update_fetch kv k f s) = f (kv_get kv s k) \<and>
        kv_get kv (snd (kv_update_fetch kv k f s)) = (kv_get kv s)(k := f (kv_get kv s k))) \<and>
     (\<forall>s. sorted_wrt (\<lambda>a b. fst a < fst b) (kv_iter kv s) \<and> map_of (kv_iter kv s) = kv_get kv s) \<and>
     (\<forall>s p. kv_prefix kv p s = filter (\<lambda>e. starts_with p (fst e)) (kv_iter kv s)) \<and>
     (\<forall>s lo hi. kv_range kv lo hi s = filter (\<lambda>e. lo \<le> fst e \<and> fst e \<le> hi) (kv_iter kv s)) \<and>
     (\<forall>s hi. kv_below kv hi s = filter (\<lambda>e. fst e < hi) (kv_iter kv s))"

locale engine =
  fixes kv :: "'s kv"
  assumes laws: "kv_laws kv"
begin

lemma get_insert [simp]: "kv_get kv (kv_insert kv k v s) = (kv_get kv s)(k \<mapsto> v)"
  and get_remove [simp]: "kv_get kv (kv_remove kv k s) = (kv_get kv s)(k := None)"
  and fetch_update [simp]: "fst (kv_fetch_update kv k f s) = kv_get kv s k"
    "kv_get kv (snd (kv_fetch_update kv k f s)) = (kv_get kv s)(k := f (kv_get kv s k))"
  and update_fetch [simp]: "fst (kv_update_fetch kv k f s) = f (kv_get kv s k)"
    "kv_get kv (snd (kv_update_fetch kv k f s)) = (kv_get kv s)(k := f (kv_get kv s k))"
  and iter_sorted: "sorted_wrt (\<lambda>a b. fst a < fst b) (kv_iter kv s)"
  and iter_get: "map_of (kv_iter kv s) = kv_get kv s"
  and prefix_iter: "kv_prefix kv p s = filter (\<lambda>e. starts_with p (fst e)) (kv_iter kv s)"
  and range_iter: "kv_range kv lo hi s = filter (\<lambda>e. lo \<le> fst e \<and> fst e \<le> hi) (kv_iter kv s)"
  and below_iter: "kv_below kv hi s = filter (\<lambda>e. fst e < hi) (kv_iter kv s)"
  using laws unfolding kv_laws_def by blast+

lemma iter_distinct: "distinct (map fst (kv_iter kv s))"
proof -
  have "sorted_wrt (\<lambda>a b. fst a < fst b) xs \<Longrightarrow> distinct (map fst xs)" for xs :: "(bytes \<times> bytes) list"
    by (induction xs) auto
  then show ?thesis using iter_sorted by blast
qed

lemma in_iter: "(k, v) \<in> set (kv_iter kv s) \<longleftrightarrow> kv_get kv s k = Some v"
  using iter_distinct [of s] by (simp flip: iter_get)

lemma in_prefix: "(k, v) \<in> set (kv_prefix kv p s) \<longleftrightarrow> starts_with p k \<and> kv_get kv s k = Some v"
  by (auto simp: prefix_iter in_iter)

lemma in_range: "(k, v) \<in> set (kv_range kv lo hi s) \<longleftrightarrow> lo \<le> k \<and> k \<le> hi \<and> kv_get kv s k = Some v"
  by (auto simp: range_iter in_iter)

lemma in_below: "(k, v) \<in> set (kv_below kv hi s) \<longleftrightarrow> k < hi \<and> kv_get kv s k = Some v"
  by (auto simp: below_iter in_iter)

lemma range_sorted: "sorted_wrt (\<lambda>a b. fst a < fst b) (kv_range kv lo hi s)"
  unfolding range_iter by (rule sorted_wrt_filter [OF iter_sorted])

text \<open>A prefix scan that meets one key, and one that meets two.\<close>

lemma prefix_distinct: "distinct (map fst (kv_prefix kv p s))"
  unfolding prefix_iter using iter_distinct by (simp add: distinct_map_filter)

lemma prefix_Nil: "kv_prefix kv p s = [] \<longleftrightarrow> (\<forall>k. starts_with p k \<longrightarrow> kv_get kv s k = None)"
  by (metis in_prefix list.set_intros(1) not_Some_eq list.exhaust surj_pair emptyE set_empty)

lemma prefix_single:
  assumes "\<And>k' . starts_with p k' \<Longrightarrow> kv_get kv s k' \<noteq> None \<longleftrightarrow> k' = k" and "starts_with p k"
  shows "\<exists>v. kv_get kv s k = Some v \<and> kv_prefix kv p s = [(k, v)]"
proof -
  obtain v where v: "kv_get kv s k = Some v" using assms by blast
  then have "set (kv_prefix kv p s) = {(k, v)}" using assms by (auto simp: in_prefix) (fastforce)+
  moreover have "distinct (kv_prefix kv p s)" using prefix_distinct distinct_map by blast
  moreover have "set xs = {a} \<Longrightarrow> distinct xs \<Longrightarrow> xs = [a]" for xs and a :: "bytes \<times> bytes"
    by (cases xs; cases "tl xs") auto
  ultimately have "kv_prefix kv p s = [(k, v)]" by blast
  with v show ?thesis by blast
qed

end

section \<open>An engine in memory\<close>

text \<open>The contents of a partition as an association list, sorted when it is iterated.\<close>

definition mem_iter :: "(bytes, bytes) hash_map \<Rightarrow> (bytes \<times> bytes) list" where
  "mem_iter s = sort_key fst (AList.clearjunk s)"

definition mem_kv :: "(bytes, bytes) hash_map kv" where
  "mem_kv = \<lparr>kv_get = hm_get, kv_insert = hm_insert, kv_remove = hm_remove,
     kv_fetch_update = (\<lambda>k f s. (hm_get s k,
       case f (hm_get s k) of Some v \<Rightarrow> hm_insert k v s | None \<Rightarrow> hm_remove k s)),
     kv_update_fetch = (\<lambda>k f s. (f (hm_get s k),
       case f (hm_get s k) of Some v \<Rightarrow> hm_insert k v s | None \<Rightarrow> hm_remove k s)),
     kv_iter = mem_iter,
     kv_prefix = (\<lambda>p s. filter (\<lambda>e. starts_with p (fst e)) (mem_iter s)),
     kv_range = (\<lambda>lo hi s. filter (\<lambda>e. lo \<le> fst e \<and> fst e \<le> hi) (mem_iter s)),
     kv_below = (\<lambda>hi s. filter (\<lambda>e. fst e < hi) (mem_iter s))\<rparr>"

lemma mem_kv_simps [simp]:
  "kv_get mem_kv = hm_get" "kv_insert mem_kv = hm_insert" "kv_remove mem_kv = hm_remove"
  "kv_iter mem_kv = mem_iter"
  by (simp_all add: mem_kv_def)

lemma mem_kv_laws: "kv_laws mem_kv"
proof -
  have get: "hm_get (hm_insert k v s) = (hm_get s)(k \<mapsto> v)" "hm_get (hm_remove k s) = (hm_get s)(k := None)"
    for k v and s :: "(bytes, bytes) hash_map" by (simp_all add: fun_eq_iff)
  have d: "distinct (map fst (AList.clearjunk s))" for s :: "(bytes, bytes) hash_map"
    by (rule distinct_clearjunk)
  have "sorted (map fst (mem_iter s))" "distinct (map fst (mem_iter s))" for s
    using d by (auto simp: mem_iter_def distinct_map)
  then have "sorted_wrt (<) (map fst (mem_iter s))" for s by (simp add: strict_sorted_iff)
  then have "sorted_wrt (\<lambda>a b. fst a < fst b) (mem_iter s)" for s by (simp add: sorted_wrt_map)
  moreover have "map_of (mem_iter s) = hm_get s" for s
  proof -
    have "map_of (mem_iter s) = map_of (AList.clearjunk s)"
      using d by (intro map_of_inject_set [THEN iffD2]) (auto simp: mem_iter_def distinct_map)
    then show ?thesis by (simp add: hm_get_def fun_eq_iff map_of_clearjunk)
  qed
  ultimately show ?thesis
    unfolding kv_laws_def mem_kv_def by (auto simp: get split: option.splits)
qed

interpretation mem: engine mem_kv
  by unfold_locales (rule mem_kv_laws)

end
