(* ===== verification/Rust_Result.thy ===== *)
theory Rust_Result
  imports Main
begin

text \<open>
  How a Rust function ends: with a value, with an error that \<open>?\<close> passes on to the caller, or with a
  panic (a failed \<open>assert!\<close>, an \<open>unwrap\<close> of nothing, a slice out of range, an \<open>unreachable!\<close>).
\<close>

datatype 'a res = Ok (ok_value: 'a) | Err | Panic

primrec rbind :: "'a res \<Rightarrow> ('a \<Rightarrow> 'b res) \<Rightarrow> 'b res" where
  "rbind (Ok x) f = f x"
| "rbind Err f = Err"
| "rbind Panic f = Panic"

text \<open>\<open>opt.ok_or(..)?\<close> and \<open>opt.unwrap()\<close>.\<close>

definition or_err :: "'a option \<Rightarrow> 'a res" where
  "or_err x = (case x of Some a \<Rightarrow> Ok a | None \<Rightarrow> Err)"

definition unwrap :: "'a option \<Rightarrow> 'a res" where
  "unwrap x = (case x of Some a \<Rightarrow> Ok a | None \<Rightarrow> Panic)"

text \<open>\<open>res.ok()\<close>, for a result that is no panic.\<close>

definition ok :: "'a res \<Rightarrow> 'a option" where
  "ok r = (case r of Ok a \<Rightarrow> Some a | _ \<Rightarrow> None)"

text \<open>\<open>for x in xs { .. ? }\<close> over a state.\<close>

primrec rfold :: "('a \<Rightarrow> 's \<Rightarrow> 's res) \<Rightarrow> 'a list \<Rightarrow> 's \<Rightarrow> 's res" where
  "rfold f [] s = Ok s"
| "rfold f (x # xs) s = rbind (f x s) (rfold f xs)"

lemma res_simps [simp]:
  "or_err (Some a) = Ok a" "or_err None = Err" "unwrap (Some a) = Ok a" "unwrap None = Panic"
  "ok (Ok a) = Some a" "ok Err = None" "ok Panic = None"
  by (simp_all add: or_err_def unwrap_def ok_def)

lemma unwrap_eq [simp]: "unwrap x = Ok a \<longleftrightarrow> x = Some a" "or_err x = Ok a \<longleftrightarrow> x = Some a"
  by (cases x; simp)+

lemma rbind_eq_Ok: "rbind r f = Ok y \<longleftrightarrow> (\<exists>x. r = Ok x \<and> f x = Ok y)"
  by (cases r) auto

lemma rbind_assoc: "rbind (rbind r f) g = rbind r (\<lambda>x. rbind (f x) g)"
  by (cases r) auto

lemma rfold_append: "rfold f (xs @ ys) s = rbind (rfold f xs s) (rfold f ys)"
proof (induction xs arbitrary: s)
  case (Cons x xs)
  then show ?case by (cases "f x s") simp_all
qed simp

lemma rfold_invariant:
  assumes "rfold f xs s = Ok t" and "P s" and "\<And>x s t. x \<in> set xs \<Longrightarrow> P s \<Longrightarrow> f x s = Ok t \<Longrightarrow> P t"
  shows "P t"
  using assms by (induction xs arbitrary: s) (auto simp: rbind_eq_Ok)

end
