(* ===== verification/Index_Keys.thy ===== *)
theory Index_Keys
  imports Kv Rust_Result
begin

text \<open>
  \<open>kasia-indexer/indexer-db\<close>: addresses as the indexer stores them, the keys of its partitions and
  the time-ordered scans over them. A \<open>#[repr(C)]\<close> structure of unaligned fields is stored as its
  fields one after the other (\<open>as_bytes\<close>) and read back only from a slice of exactly its size.
  What \<open>kaspa_txscript\<close> and \<open>kaspa_addresses\<close> decide is a parameter.
\<close>

section \<open>Addresses\<close>

record address_payload =
  ap_inverse_version :: u8
  ap_payload :: bytes

definition empty_version :: u8 where "empty_version = 0"

definition no_address :: address_payload where
  "no_address = \<lparr>ap_inverse_version = empty_version, ap_payload = replicate 33 0\<rparr>"

record script_public_key =
  spk_version :: u16
  spk_script :: bytes

datatype script_class = NonStandard | PubKey | PubKeyECDSA | ScriptHash

record 'a kaspa =
  kp_pubkey :: u8 \<comment> \<open>\<open>Version::PubKey as u8\<close> and its siblings\<close>
  kp_ecdsa :: u8
  kp_script_hash :: u8
  kp_class :: "script_public_key \<Rightarrow> script_class"
  kp_class_version :: "script_class \<Rightarrow> u16"
  kp_pay_to :: "'a \<Rightarrow> script_public_key"

definition from_xonly_pubkey :: "'a kaspa \<Rightarrow> bytes \<Rightarrow> address_payload" where
  "from_xonly_pubkey kp pubkey =
     \<lparr>ap_inverse_version = 255 - kp_pubkey kp, ap_payload = pubkey @ [0]\<rparr>"

definition matches_xonly_pubkey :: "'a kaspa \<Rightarrow> address_payload \<Rightarrow> bytes \<Rightarrow> bool" where
  "matches_xonly_pubkey kp a pubkey \<longleftrightarrow>
     ap_inverse_version a = 255 - kp_pubkey kp \<and> take 32 (ap_payload a) = pubkey"

text \<open>\<open>AddressPayload::try_from(&ScriptPublicKey)\<close>.\<close>

definition address_of_script :: "'a kaspa \<Rightarrow> script_public_key \<Rightarrow> address_payload res" where
  "address_of_script kp spk =
     (let class = kp_class kp spk; script = spk_script spk
      in if spk_version spk > kp_class_version kp class then Err
         else case class of
           NonStandard \<Rightarrow> Err
         | PubKey \<Rightarrow>
             if length script < 33 then Panic
             else Ok \<lparr>ap_inverse_version = 255 - kp_pubkey kp, ap_payload = take 32 (drop 1 script) @ [0]\<rparr>
         | PubKeyECDSA \<Rightarrow>
             if length script < 34 then Panic
             else Ok \<lparr>ap_inverse_version = 255 - kp_ecdsa kp, ap_payload = take 33 (drop 1 script)\<rparr>
         | ScriptHash \<Rightarrow>
             if length script < 34 then Panic
             else Ok \<lparr>ap_inverse_version = 255 - kp_script_hash kp, ap_payload = take 32 (drop 2 script) @ [0]\<rparr>)"

definition payload_of :: "'a kaspa \<Rightarrow> 'a \<Rightarrow> address_payload res" where
  "payload_of kp a = address_of_script kp (kp_pay_to kp a)"

text \<open>
  What the indexer relies on: a script of a standard class has the length its opcodes prescribe,
  and no address version is 255, the version that would read as \<open>empty_version\<close>.
\<close>

definition kaspa_laws :: "'a kaspa \<Rightarrow> bool" where
  "kaspa_laws kp \<longleftrightarrow>
     (\<forall>spk. kp_class kp spk = PubKey \<longrightarrow> length (spk_script spk) = 34) \<and>
     (\<forall>spk. kp_class kp spk = PubKeyECDSA \<longrightarrow> length (spk_script spk) = 35) \<and>
     (\<forall>spk. kp_class kp spk = ScriptHash \<longrightarrow> length (spk_script spk) = 35) \<and>
     kp_pubkey kp \<noteq> 255 \<and> kp_ecdsa kp \<noteq> 255 \<and> kp_script_hash kp \<noteq> 255"

definition address_bytes :: "address_payload \<Rightarrow> bytes" where
  "address_bytes a = ap_inverse_version a # ap_payload a"

text \<open>\<open>AddressPayload::read_from_bytes\<close>.\<close>

definition read_address :: "bytes \<Rightarrow> address_payload option" where
  "read_address b =
     (if length b = 34 then Some \<lparr>ap_inverse_version = hd b, ap_payload = tl b\<rparr> else None)"

definition address_ok :: "address_payload \<Rightarrow> bool" where
  "address_ok a \<longleftrightarrow> length (ap_payload a) = 33"

lemma no_address_ok [simp]: "address_ok no_address"
  by (simp add: address_ok_def no_address_def)

lemma length_address_bytes [simp]: "address_ok a \<Longrightarrow> length (address_bytes a) = 34"
  by (simp add: address_ok_def address_bytes_def)

lemma read_address_bytes [simp]: "address_ok a \<Longrightarrow> read_address (address_bytes a) = Some a"
  by (simp add: read_address_def) (simp add: address_bytes_def)

lemma read_address_hd_tl [simp]:
  "\<lparr>ap_inverse_version = hd (address_bytes a), ap_payload = tl (address_bytes a)\<rparr> = a"
  by (simp add: address_bytes_def)

lemma address_bytes_inj [simp]: "address_bytes a = address_bytes b \<longleftrightarrow> a = b"
  by (cases a; cases b) (auto simp: address_bytes_def)

lemma read_address_ok: "read_address b = Some a \<Longrightarrow> address_ok a \<and> b = address_bytes a"
  by (cases b) (auto simp: read_address_def address_ok_def address_bytes_def split: if_splits)

lemma address_of_script_ok:
  assumes "kaspa_laws kp"
  shows "address_of_script kp spk \<noteq> Panic"
    and "address_of_script kp spk = Ok a \<Longrightarrow> address_ok a \<and> a \<noteq> no_address"
proof -
  have "(255 :: u8) - v \<noteq> 0" if "v \<noteq> 255" for v using that by simp
  then show "address_of_script kp spk \<noteq> Panic"
    "address_of_script kp spk = Ok a \<Longrightarrow> address_ok a \<and> a \<noteq> no_address"
    using assms by (auto simp: kaspa_laws_def address_of_script_def Let_def address_ok_def no_address_def
        empty_version_def split: script_class.splits if_splits)
qed

section \<open>Structures of fields\<close>

primrec cut :: "nat list \<Rightarrow> 'b list \<Rightarrow> 'b list list" where
  "cut [] b = []"
| "cut (n # ns) b = take n b # cut ns (drop n b)"

text \<open>\<open>try_read_from_bytes\<close>: the fields of a structure with the given sizes.\<close>

definition read_fields :: "nat list \<Rightarrow> bytes \<Rightarrow> bytes list option" where
  "read_fields ns b = (if length b = sum_list ns then Some (cut ns b) else None)"

lemma cut_concat: "map length fs = ns \<Longrightarrow> cut ns (concat fs) = fs"
  by (induction fs arbitrary: ns) auto

lemma read_fields_concat: "map length fs = ns \<Longrightarrow> read_fields ns (concat fs) = Some fs"
  by (auto simp: read_fields_def cut_concat length_concat)

lemma concat_fields_inj: "map length fs = map length gs \<Longrightarrow> concat fs = concat gs \<Longrightarrow> fs = gs"
  by (metis cut_concat)

definition read_u64 :: "bytes \<Rightarrow> u64" where
  "read_u64 b = word_of_nat (from_be b)"

definition address_field :: "bytes \<Rightarrow> address_payload" where
  "address_field b = \<lparr>ap_inverse_version = hd b, ap_payload = tl b\<rparr>"

lemma field_simps [simp]: "read_u64 (be64 t) = t" "address_field (address_bytes a) = a"
  by (simp_all add: read_u64_def address_field_def)


section \<open>The keys\<close>

text \<open>\<open>HandshakeKeyBySender\<close>; \<open>PaymentKeyBySender\<close> has the same fields in the same order.\<close>

record handshake_key_by_sender =
  sk_sender :: address_payload
  sk_block_time :: u64
  sk_block_hash :: bytes
  sk_receiver :: address_payload
  sk_version :: u8
  sk_tx_id :: bytes

type_synonym payment_key_by_sender = handshake_key_by_sender

definition sk_bytes :: "handshake_key_by_sender \<Rightarrow> bytes" where
  "sk_bytes k = concat [address_bytes (sk_sender k), be64 (sk_block_time k), sk_block_hash k,
     address_bytes (sk_receiver k), [sk_version k], sk_tx_id k]"

definition sk_read :: "bytes \<Rightarrow> handshake_key_by_sender option" where
  "sk_read b = (case read_fields [34, 8, 32, 34, 1, 32] b of
     Some [s, t, h, r, v, x] \<Rightarrow>
       Some \<lparr>sk_sender = address_field s, sk_block_time = read_u64 t, sk_block_hash = h,
         sk_receiver = address_field r, sk_version = hd v, sk_tx_id = x\<rparr>
   | _ \<Rightarrow> None)"

text \<open>
  \<open>HandshakeKeyByReceiver\<close>; \<open>PaymentKeyByReceiver\<close> and \<open>GroupControlKeyByRecipient\<close> have the same
  fields in the same order.
\<close>

record handshake_key_by_receiver =
  rk_receiver :: address_payload
  rk_block_time :: u64
  rk_block_hash :: bytes
  rk_version :: u8
  rk_tx_id :: bytes

type_synonym payment_key_by_receiver = handshake_key_by_receiver
type_synonym group_control_key_by_recipient = handshake_key_by_receiver

definition rk_bytes :: "handshake_key_by_receiver \<Rightarrow> bytes" where
  "rk_bytes k = concat [address_bytes (rk_receiver k), be64 (rk_block_time k), rk_block_hash k,
     [rk_version k], rk_tx_id k]"

definition rk_read :: "bytes \<Rightarrow> handshake_key_by_receiver option" where
  "rk_read b = (case read_fields [34, 8, 32, 1, 32] b of
     Some [r, t, h, v, x] \<Rightarrow>
       Some \<lparr>rk_receiver = address_field r, rk_block_time = read_u64 t, rk_block_hash = h,
         rk_version = hd v, rk_tx_id = x\<rparr>
   | _ \<Rightarrow> None)"

record contextual_key_by_sender =
  ck_sender :: address_payload
  ck_alias :: bytes
  ck_block_time :: u64
  ck_block_hash :: bytes
  ck_receiver :: address_payload
  ck_version :: u8
  ck_tx_id :: bytes

definition ck_bytes :: "contextual_key_by_sender \<Rightarrow> bytes" where
  "ck_bytes k = concat [address_bytes (ck_sender k), ck_alias k, be64 (ck_block_time k), ck_block_hash k,
     address_bytes (ck_receiver k), [ck_version k], ck_tx_id k]"

definition ck_read :: "bytes \<Rightarrow> contextual_key_by_sender option" where
  "ck_read b = (case read_fields [34, 16, 8, 32, 34, 1, 32] b of
     Some [s, a, t, h, r, v, x] \<Rightarrow>
       Some \<lparr>ck_sender = address_field s, ck_alias = a, ck_block_time = read_u64 t, ck_block_hash = h,
         ck_receiver = address_field r, ck_version = hd v, ck_tx_id = x\<rparr>
   | _ \<Rightarrow> None)"

definition inbox_tag_len :: nat where "inbox_tag_len = 16"

record inbox_key =
  ik_tag :: bytes
  ik_block_time :: u64
  ik_tx_id :: bytes

definition ik_bytes :: "inbox_key \<Rightarrow> bytes" where
  "ik_bytes k = concat [ik_tag k, be64 (ik_block_time k), ik_tx_id k]"

definition ik_read :: "bytes \<Rightarrow> inbox_key option" where
  "ik_read b = (case read_fields [16, 8, 32] b of
     Some [g, t, x] \<Rightarrow> Some \<lparr>ik_tag = g, ik_block_time = read_u64 t, ik_tx_id = x\<rparr>
   | _ \<Rightarrow> None)"

text \<open>\<open>SelfStashScope::from\<close>: the first 255 bytes, padded with zeros.\<close>

definition scope_len :: nat where "scope_len = 255"

definition scope_from :: "bytes \<Rightarrow> bytes" where
  "scope_from s = (let n = min scope_len (length s) in take n s @ replicate (scope_len - n) 0)"

record self_stash_key =
  ok_owner :: address_payload
  ok_scope :: bytes
  ok_block_time :: u64
  ok_block_hash :: bytes
  ok_version :: u8
  ok_tx_id :: bytes

definition ok_bytes :: "self_stash_key \<Rightarrow> bytes" where
  "ok_bytes k = concat [address_bytes (ok_owner k), ok_scope k, be64 (ok_block_time k), ok_block_hash k,
     [ok_version k], ok_tx_id k]"

definition ok_read :: "bytes \<Rightarrow> self_stash_key option" where
  "ok_read b = (case read_fields [34, 255, 8, 32, 1, 32] b of
     Some [a, s, t, h, v, x] \<Rightarrow>
       Some \<lparr>ok_owner = address_field a, ok_scope = s, ok_block_time = read_u64 t, ok_block_hash = h,
         ok_version = hd v, ok_tx_id = x\<rparr>
   | _ \<Rightarrow> None)"

definition blinded_group_id_len :: nat where "blinded_group_id_len = 32"

record group_message_key =
  gk_group_id :: bytes
  gk_block_time :: u64
  gk_block_hash :: bytes
  gk_version :: u8
  gk_tx_id :: bytes

definition gk_bytes :: "group_message_key \<Rightarrow> bytes" where
  "gk_bytes k = concat [gk_group_id k, be64 (gk_block_time k), gk_block_hash k, [gk_version k], gk_tx_id k]"

definition gk_read :: "bytes \<Rightarrow> group_message_key option" where
  "gk_read b = (case read_fields [32, 8, 32, 1, 32] b of
     Some [g, t, h, v, x] \<Rightarrow>
       Some \<lparr>gk_group_id = g, gk_block_time = read_u64 t, gk_block_hash = h, gk_version = hd v, gk_tx_id = x\<rparr>
   | _ \<Rightarrow> None)"

record group_control_key_by_sender =
  lk_sender :: address_payload
  lk_block_time :: u64
  lk_block_hash :: bytes
  lk_version :: u8
  lk_tx_id :: bytes
  lk_recipient :: address_payload

definition lk_bytes :: "group_control_key_by_sender \<Rightarrow> bytes" where
  "lk_bytes k = concat [address_bytes (lk_sender k), be64 (lk_block_time k), lk_block_hash k,
     [lk_version k], lk_tx_id k, address_bytes (lk_recipient k)]"

definition lk_read :: "bytes \<Rightarrow> group_control_key_by_sender option" where
  "lk_read b = (case read_fields [34, 8, 32, 1, 32, 34] b of
     Some [s, t, h, v, x, r] \<Rightarrow>
       Some \<lparr>lk_sender = address_field s, lk_block_time = read_u64 t, lk_block_hash = h,
         lk_version = hd v, lk_tx_id = x, lk_recipient = address_field r\<rparr>
   | _ \<Rightarrow> None)"

text \<open>Keys whose arrays have the lengths of their types.\<close>

definition sk_ok :: "handshake_key_by_sender \<Rightarrow> bool" where
  "sk_ok k \<longleftrightarrow> address_ok (sk_sender k) \<and> length (sk_block_hash k) = 32 \<and> address_ok (sk_receiver k) \<and>
     length (sk_tx_id k) = 32"

definition rk_ok :: "handshake_key_by_receiver \<Rightarrow> bool" where
  "rk_ok k \<longleftrightarrow> address_ok (rk_receiver k) \<and> length (rk_block_hash k) = 32 \<and> length (rk_tx_id k) = 32"

definition ck_ok :: "contextual_key_by_sender \<Rightarrow> bool" where
  "ck_ok k \<longleftrightarrow> address_ok (ck_sender k) \<and> length (ck_alias k) = 16 \<and> length (ck_block_hash k) = 32 \<and>
     address_ok (ck_receiver k) \<and> length (ck_tx_id k) = 32"

definition ik_ok :: "inbox_key \<Rightarrow> bool" where
  "ik_ok k \<longleftrightarrow> length (ik_tag k) = 16 \<and> length (ik_tx_id k) = 32"

definition ok_ok :: "self_stash_key \<Rightarrow> bool" where
  "ok_ok k \<longleftrightarrow> address_ok (ok_owner k) \<and> length (ok_scope k) = 255 \<and> length (ok_block_hash k) = 32 \<and>
     length (ok_tx_id k) = 32"

definition gk_ok :: "group_message_key \<Rightarrow> bool" where
  "gk_ok k \<longleftrightarrow> length (gk_group_id k) = 32 \<and> length (gk_block_hash k) = 32 \<and> length (gk_tx_id k) = 32"

definition lk_ok :: "group_control_key_by_sender \<Rightarrow> bool" where
  "lk_ok k \<longleftrightarrow> address_ok (lk_sender k) \<and> length (lk_block_hash k) = 32 \<and> length (lk_tx_id k) = 32 \<and>
     address_ok (lk_recipient k)"

lemmas key_ok_defs = sk_ok_def rk_ok_def ck_ok_def ik_ok_def ok_ok_def gk_ok_def lk_ok_def
lemmas key_bytes_defs =
  sk_bytes_def rk_bytes_def ck_bytes_def ik_bytes_def ok_bytes_def gk_bytes_def lk_bytes_def
lemmas key_read_defs =
  sk_read_def rk_read_def ck_read_def ik_read_def ok_read_def gk_read_def lk_read_def

lemma length_scope_from [simp]: "length (scope_from s) = 255"
  by (simp add: scope_from_def scope_len_def Let_def)

lemma keys_roundtrip [simp]:
  "sk_ok sk \<Longrightarrow> sk_read (sk_bytes sk) = Some sk" "rk_ok rk \<Longrightarrow> rk_read (rk_bytes rk) = Some rk"
  "ck_ok ck \<Longrightarrow> ck_read (ck_bytes ck) = Some ck" "ik_ok ik \<Longrightarrow> ik_read (ik_bytes ik) = Some ik"
  "ok_ok ow \<Longrightarrow> ok_read (ok_bytes ow) = Some ow" "gk_ok gk \<Longrightarrow> gk_read (gk_bytes gk) = Some gk"
  "lk_ok lk \<Longrightarrow> lk_read (lk_bytes lk) = Some lk"
  by (simp_all add: key_read_defs key_bytes_defs key_ok_defs read_fields_concat del: concat.simps)

lemma key_lengths [simp]:
  "sk_ok sk \<Longrightarrow> length (sk_bytes sk) = 141" "rk_ok rk \<Longrightarrow> length (rk_bytes rk) = 107"
  "ck_ok ck \<Longrightarrow> length (ck_bytes ck) = 157" "ik_ok ik \<Longrightarrow> length (ik_bytes ik) = 56"
  "ok_ok ow \<Longrightarrow> length (ok_bytes ow) = 362" "gk_ok gk \<Longrightarrow> length (gk_bytes gk) = 105"
  "lk_ok lk \<Longrightarrow> length (lk_bytes lk) = 141"
  by (simp_all add: key_bytes_defs key_ok_defs)

section \<open>Time-ordered scans\<close>

text \<open>
  What every query of the message partitions scans: the keys that start with \<open>pre\<close>, from a block
  time on. The bounds are \<open>pre\<close> with the time and \<open>pre\<close> with eight bytes 0xFF, both inclusive.
\<close>

definition time_scan :: "'s kv \<Rightarrow> bytes \<Rightarrow> u64 \<Rightarrow> 's \<Rightarrow> (bytes \<times> bytes) list" where
  "time_scan kv pre from s = kv_range kv (pre @ be64 from) (pre @ replicate 8 255) s"

definition handshakes_by_sender :: "'s kv \<Rightarrow> 's \<Rightarrow> address_payload \<Rightarrow> u64 \<Rightarrow> bytes list" where
  "handshakes_by_sender kv s sender block_time = map fst (time_scan kv (address_bytes sender) block_time s)"

definition handshakes_by_receiver :: "'s kv \<Rightarrow> 's \<Rightarrow> address_payload \<Rightarrow> u64 \<Rightarrow> (bytes \<times> bytes) list" where
  "handshakes_by_receiver kv s receiver block_time = time_scan kv (address_bytes receiver) block_time s"

definition payments_by_sender :: "'s kv \<Rightarrow> 's \<Rightarrow> address_payload \<Rightarrow> u64 \<Rightarrow> bytes list" where
  "payments_by_sender kv s sender from_block_time = map fst (time_scan kv (address_bytes sender) from_block_time s)"

definition payments_by_receiver :: "'s kv \<Rightarrow> 's \<Rightarrow> address_payload \<Rightarrow> u64 \<Rightarrow> (bytes \<times> bytes) list" where
  "payments_by_receiver kv s receiver from_block_time = time_scan kv (address_bytes receiver) from_block_time s"

definition contextual_by_sender_alias :: "'s kv \<Rightarrow> 's \<Rightarrow> address_payload \<Rightarrow> bytes \<Rightarrow> u64 \<Rightarrow> bytes list" where
  "contextual_by_sender_alias kv s sender alias from_block_time =
     map fst (time_scan kv (address_bytes sender @ alias) from_block_time s)"

definition contextual_by_tag :: "'s kv \<Rightarrow> 's \<Rightarrow> bytes \<Rightarrow> u64 \<Rightarrow> (bytes \<times> bytes) list" where
  "contextual_by_tag kv s inbox_tag from_block_time = time_scan kv inbox_tag from_block_time s"

definition self_stash_by_owner_and_scope ::
    "'s kv \<Rightarrow> 's \<Rightarrow> bytes \<Rightarrow> address_payload \<Rightarrow> u64 \<Rightarrow> bytes list" where
  "self_stash_by_owner_and_scope kv s scope owner block_time =
     map fst (time_scan kv (address_bytes owner @ scope_from scope) block_time s)"

definition group_messages_by_id :: "'s kv \<Rightarrow> 's \<Rightarrow> bytes \<Rightarrow> u64 \<Rightarrow> (bytes \<times> bytes) list" where
  "group_messages_by_id kv s blinded_group_id block_time = time_scan kv blinded_group_id block_time s"

definition group_control_by_recipient :: "'s kv \<Rightarrow> 's \<Rightarrow> address_payload \<Rightarrow> u64 \<Rightarrow> (bytes \<times> bytes) list" where
  "group_control_by_recipient kv s recipient from_block_time =
     time_scan kv (address_bytes recipient) from_block_time s"

definition group_control_by_sender :: "'s kv \<Rightarrow> 's \<Rightarrow> address_payload \<Rightarrow> u64 \<Rightarrow> bytes list" where
  "group_control_by_sender kv s sender from_block_time =
     map fst (time_scan kv (address_bytes sender) from_block_time s)"

text \<open>\<open>DaaIndexPartition::iter_lt\<close> and \<open>WatchedOutpointSpendPartition::spent_before\<close>: the keys below a number.\<close>

definition below_scan :: "'s kv \<Rightarrow> u64 \<Rightarrow> 's \<Rightarrow> (bytes \<times> bytes) list" where
  "below_scan kv limit s = kv_below kv (be64 limit) s"

lemma be64_read_u64: "length b = 8 \<Longrightarrow> be64 (read_u64 b) = b"
proof -
  assume len: "length b = 8"
  then have "from_be b < 256 ^ 8" using from_le_bound [of "rev b"] by (simp add: from_be_def)
  then have "unat (read_u64 b) = from_be b" by (simp add: read_u64_def unat_of_nat)
  then show ?thesis using to_le_from_le [of "rev b"] len
    by (simp add: be64_def to_be_def from_be_def del: to_le.simps)
qed

lemma be64_max: "be64 (- 1) = replicate 8 255"
proof -
  have "unat (- 1 :: u64) = 18446744073709551615"
    by (simp add: unsigned_minus_1_eq_mask mask_eq_exp_minus_1)
  moreover have "(8 :: nat) = Suc (Suc (Suc (Suc (Suc (Suc (Suc (Suc 0)))))))" by simp
  ultimately show ?thesis by (simp only: be64_def to_be_def to_le.simps replicate.simps) simp
qed

lemma time_bounds:
  assumes "length pre + 8 \<le> length k"
  shows "pre @ be64 from \<le> k \<and> k \<le> pre @ replicate 8 255 \<longleftrightarrow>
    (\<exists>t rest. k = pre @ be64 t @ rest \<and> from \<le> t \<and> (t = - 1 \<longrightarrow> rest = []))"
proof
  define a b rest where "a = take (length pre) k" and "b = take 8 (drop (length pre) k)"
    and "rest = drop 8 (drop (length pre) k)"
  have k: "k = a @ b @ rest" unfolding a_def b_def rest_def by (simp only: append_take_drop_id)
  have len: "length a = length pre" "length b = 8" using assms by (simp_all add: a_def b_def)
  assume "pre @ be64 from \<le> k \<and> k \<le> pre @ replicate 8 255"
  then have "a = pre" and lo: "be64 from \<le> b @ rest" and hi: "b @ rest \<le> replicate 8 255"
    unfolding k using len by (auto simp: lex_append_le)
  have "b = be64 (read_u64 b)" using be64_read_u64 [OF len(2)] by simp
  moreover have "from \<le> read_u64 b"
    using lo lex_append_le [of "be64 from" b "[]" rest] len(2) be64_less [of "from" "read_u64 b"] calculation
    by (metis append_Nil2 be64_inj length_to_be(2) order.strict_iff_order order_refl)
  moreover have "read_u64 b = - 1 \<Longrightarrow> rest = []"
    using hi calculation(1) lex_append_le [of b "replicate 8 255" rest "[]"] len(2) be64_max by auto
  ultimately show "\<exists>t rest. k = pre @ be64 t @ rest \<and> from \<le> t \<and> (t = - 1 \<longrightarrow> rest = [])"
    using k \<open>a = pre\<close> by metis
next
  assume "\<exists>t rest. k = pre @ be64 t @ rest \<and> from \<le> t \<and> (t = - 1 \<longrightarrow> rest = [])"
  then obtain t rest where k: "k = pre @ be64 t @ rest" "from \<le> t" "t = - 1 \<longrightarrow> rest = []" by blast
  have "be64 from \<le> be64 t @ rest"
    using k(2) lex_append_le [of "be64 from" "be64 t" "[]" rest] Nil_le_Cons
    by (cases rest) (auto simp: order.order_iff_strict)
  moreover have "t < - 1 \<or> t = - 1" using word_order.not_eq_extremum by blast
  then have "be64 t @ rest \<le> be64 (- 1)"
    using k(3) lex_append_le [of "be64 t" "be64 (- 1)" rest "[]"] by auto
  ultimately show "pre @ be64 from \<le> k \<and> k \<le> pre @ replicate 8 255"
    unfolding k be64_max by simp
qed

context engine begin

lemma in_time_scan:
  assumes "\<And>k v. kv_get kv s k = Some v \<Longrightarrow> length pre + 8 \<le> length k"
  shows "(k, v) \<in> set (time_scan kv pre from s) \<longleftrightarrow> kv_get kv s k = Some v \<and>
    (\<exists>t rest. k = pre @ be64 t @ rest \<and> from \<le> t \<and> (t = - 1 \<longrightarrow> rest = []))"
  using assms time_bounds [of pre k "from"] by (auto simp: time_scan_def in_range)

lemma time_scan_sorted: "sorted_wrt (\<lambda>a b. fst a < fst b) (time_scan kv pre from s)"
  by (simp add: time_scan_def range_sorted)

end

end
