(* ===== verification/Acceptance.thy ===== *)
theory Acceptance
  imports Index_Keys
begin

text \<open>
  \<open>indexer-db/src/processing/tx_id_to_acceptance.rs\<close>: the record kept for every transaction with a
  sealed operation. Its key is the transaction id and the receiver; its value is the accepting
  block and DAA score, followed by the writes to be made once the sender is known.
\<close>

section \<open>Partition ids and actions\<close>

datatype partition_id =
    Metadata | BlockCompactHeaders | BlockDaaIndex | BlockGaps | HandshakeByReceiver
  | HandshakeBySender | TxIdToHandshake | ContextualMessageBySender | PaymentByReceiver
  | PaymentBySender | TxIdToPayment | AcceptingBlockToTxIds | TxIdToAcceptance | PendingSenders
  | SelfStashByOwner | TxIDToSelfStash | GroupMessageByBlindedGroupId | TxIdToGroupMessage
  | GroupInviteByTag | TxIdToGroupInvite | GroupControlBySender | TxIdToGroupControl
  | GroupControlByRecipient | ContextualMessageByInbox

fun partition_code :: "partition_id \<Rightarrow> u8" where
  "partition_code Metadata = 1"
| "partition_code BlockCompactHeaders = 2"
| "partition_code BlockDaaIndex = 3"
| "partition_code BlockGaps = 4"
| "partition_code HandshakeByReceiver = 5"
| "partition_code HandshakeBySender = 6"
| "partition_code TxIdToHandshake = 7"
| "partition_code ContextualMessageBySender = 8"
| "partition_code PaymentByReceiver = 9"
| "partition_code PaymentBySender = 10"
| "partition_code TxIdToPayment = 11"
| "partition_code AcceptingBlockToTxIds = 12"
| "partition_code TxIdToAcceptance = 13"
| "partition_code PendingSenders = 14"
| "partition_code SelfStashByOwner = 15"
| "partition_code TxIDToSelfStash = 16"
| "partition_code GroupMessageByBlindedGroupId = 17"
| "partition_code TxIdToGroupMessage = 18"
| "partition_code GroupInviteByTag = 19"
| "partition_code TxIdToGroupInvite = 20"
| "partition_code GroupControlBySender = 21"
| "partition_code TxIdToGroupControl = 22"
| "partition_code GroupControlByRecipient = 23"
| "partition_code ContextualMessageByInbox = 24"

definition all_partitions :: "partition_id list" where
  "all_partitions =
     [Metadata, BlockCompactHeaders, BlockDaaIndex, BlockGaps, HandshakeByReceiver, HandshakeBySender,
      TxIdToHandshake, ContextualMessageBySender, PaymentByReceiver, PaymentBySender, TxIdToPayment,
      AcceptingBlockToTxIds, TxIdToAcceptance, PendingSenders, SelfStashByOwner, TxIDToSelfStash,
      GroupMessageByBlindedGroupId, TxIdToGroupMessage, GroupInviteByTag, TxIdToGroupInvite,
      GroupControlBySender, TxIdToGroupControl, GroupControlByRecipient, ContextualMessageByInbox]"

text \<open>\<open>PartitionId::try_read_from_bytes\<close> of one byte.\<close>

definition read_partition :: "u8 \<Rightarrow> partition_id option" where
  "read_partition b = find (\<lambda>p. partition_code p = b) all_partitions"

datatype action = UpdateValueSender | InsertByKeySender

fun action_code :: "action \<Rightarrow> u8" where
  "action_code UpdateValueSender = 0"
| "action_code InsertByKeySender = 1"

definition read_action :: "u8 \<Rightarrow> action option" where
  "read_action b = (if b = 0 then Some UpdateValueSender else if b = 1 then Some InsertByKeySender else None)"

lemma read_codes [simp]: "read_partition (partition_code p) = Some p" "read_action (action_code a) = Some a"
  by (cases p; simp add: read_partition_def all_partitions_def) (cases a; simp add: read_action_def)

section \<open>The record\<close>

record acceptance_key =
  ak_tx_id :: bytes
  ak_receiver :: address_payload

definition ak_bytes :: "acceptance_key \<Rightarrow> bytes" where
  "ak_bytes k = concat [ak_tx_id k, address_bytes (ak_receiver k)]"

definition ak_read :: "bytes \<Rightarrow> acceptance_key option" where
  "ak_read b = (case read_fields [32, 34] b of
     Some [x, r] \<Rightarrow> Some \<lparr>ak_tx_id = x, ak_receiver = address_field r\<rparr> | _ \<Rightarrow> None)"

definition ak_ok :: "acceptance_key \<Rightarrow> bool" where
  "ak_ok k \<longleftrightarrow> length (ak_tx_id k) = 32 \<and> address_ok (ak_receiver k)"

lemma ak_roundtrip [simp]: "ak_ok k \<Longrightarrow> ak_read (ak_bytes k) = Some k"
  by (simp add: ak_read_def ak_bytes_def ak_ok_def read_fields_concat del: concat.simps)

lemma ak_prefix [simp]: "ak_ok k \<Longrightarrow> length t = 32 \<Longrightarrow> starts_with t (ak_bytes k) \<longleftrightarrow> ak_tx_id k = t"
  by (auto simp: starts_with_def ak_bytes_def ak_ok_def)

lemma ak_bytes_inj: "ak_ok k \<Longrightarrow> ak_ok l \<Longrightarrow> ak_bytes k = ak_bytes l \<Longrightarrow> k = l"
  by (metis ak_roundtrip option.inject)

definition header_len :: nat where "header_len = 40"

definition zero_header :: bytes where "zero_header = replicate 40 0"

definition le64 :: "u64 \<Rightarrow> bytes" where "le64 t = to_le 8 (unat t)"

definition header_bytes :: "bytes \<Rightarrow> u64 \<Rightarrow> bytes" where
  "header_bytes accepting_block_hash accepting_daa = accepting_block_hash @ le64 accepting_daa"

record insertion_entry =
  ie_partition :: partition_id
  ie_action :: action
  ie_key :: bytes

definition entry_bytes :: "insertion_entry \<Rightarrow> bytes" where
  "entry_bytes e = partition_code (ie_partition e) # action_code (ie_action e) # ie_key e"

definition insert_acceptance :: "'s kv \<Rightarrow> acceptance_key \<Rightarrow> insertion_entry list \<Rightarrow> 's \<Rightarrow> 's" where
  "insert_acceptance kv k entries s =
     snd (kv_fetch_update kv (ak_bytes k)
       (\<lambda>old_value. case old_value of
          None \<Rightarrow> Some (zero_header @ concat (map entry_bytes entries))
        | Some old \<Rightarrow> Some (old @ concat (map entry_bytes entries))) s)"

text \<open>\<open>key_by_tx_id\<close>: the \<open>assert!\<close> fails when two keys start with the transaction id.\<close>

definition key_by_tx_id :: "'s kv \<Rightarrow> 's \<Rightarrow> bytes \<Rightarrow> acceptance_key option res" where
  "key_by_tx_id kv s tx_id =
     (case kv_prefix kv tx_id s of
        [] \<Rightarrow> Ok None
      | [(k, _)] \<Rightarrow> rbind (unwrap (ak_read k)) (\<lambda>key. Ok (Some key))
      | _ \<Rightarrow> Panic)"

datatype lookup_output = KeyDoesNotExist | KeyExistsNoEntries | KeysExistsWithEntries

definition update_acceptance ::
    "'s kv \<Rightarrow> acceptance_key \<Rightarrow> bytes \<Rightarrow> u64 \<Rightarrow> 's \<Rightarrow> (lookup_output \<times> 's) res" where
  "update_acceptance kv k accepting_block_hash acceptance_daa s =
     (let (old_value, s') = kv_fetch_update kv (ak_bytes k)
            (map_option (\<lambda>old. header_bytes accepting_block_hash acceptance_daa @ drop header_len old)) s
      in case old_value of
           None \<Rightarrow> Ok (KeyDoesNotExist, s')
         | Some value \<Rightarrow>
             if length value < header_len then Panic
             else if length value > header_len then Ok (KeysExistsWithEntries, s')
             else Ok (KeyExistsNoEntries, s'))"

text \<open>
  The loop of \<open>resolve_entries_wtx\<close>: partition id, action and a key whose length the partition
  decides. It ends because every round takes at least the partition id.
\<close>

function resolve_loop ::
    "(partition_id \<Rightarrow> nat res) \<Rightarrow> (partition_id \<Rightarrow> action \<Rightarrow> bytes \<Rightarrow> 'w \<Rightarrow> 'w res) \<Rightarrow> bytes \<Rightarrow> 'w \<Rightarrow> 'w res" where
  "resolve_loop key_len_fn entry_cb_fn [] w = Ok w"
| "resolve_loop key_len_fn entry_cb_fn (b # r) w =
     rbind (or_err (read_partition b)) (\<lambda>partition.
     rbind (key_len_fn partition) (\<lambda>key_len.
     if r = [] then Panic
     else rbind (or_err (read_action (hd r))) (\<lambda>act.
       if length (tl r) < key_len then Panic
       else rbind (entry_cb_fn partition act (take key_len (tl r)) w) (\<lambda>w.
         resolve_loop key_len_fn entry_cb_fn (drop key_len (tl r)) w))))"
  by pat_completeness auto
termination
  by (relation "measure (\<lambda>(_, _, b, _). length b)") (auto simp: less_Suc_eq_le intro: le_trans diff_le_self)

text \<open>What the API shows of a transaction: nothing until a block has accepted it.\<close>

definition acceptance_by_tx_id :: "'s kv \<Rightarrow> 's \<Rightarrow> bytes \<Rightarrow> bytes option res" where
  "acceptance_by_tx_id kv s tx_id =
     (case kv_prefix kv tx_id s of
        [] \<Rightarrow> Ok None
      | [(_, v)] \<Rightarrow>
          if length v < header_len then Panic
          else if take header_len v = zero_header then Ok None else Ok (Some v)
      | _ \<Rightarrow> Panic)"

section \<open>Facts\<close>

lemma length_headers [simp]:
  "length zero_header = header_len" "length h = 32 \<Longrightarrow> length (header_bytes h daa) = header_len"
  by (simp_all add: zero_header_def header_len_def header_bytes_def le64_def)

text \<open>The entries written are the entries read back.\<close>

lemma resolve_entries_roundtrip:
  assumes "\<And>e. e \<in> set es \<Longrightarrow> key_len (ie_partition e) = Ok (length (ie_key e))"
  shows "resolve_loop key_len cb (concat (map entry_bytes es)) w =
    rfold (\<lambda>e. cb (ie_partition e) (ie_action e) (ie_key e)) es w"
  using assms
proof (induction es arbitrary: w)
  case (Cons e es)
  then have ih: "resolve_loop key_len cb (concat (map entry_bytes es)) =
      rfold (\<lambda>e. cb (ie_partition e) (ie_action e) (ie_key e)) es" by (intro ext) simp
  have "concat (map entry_bytes (e # es)) =
      partition_code (ie_partition e) # action_code (ie_action e) # ie_key e @ concat (map entry_bytes es)"
    by (simp add: entry_bytes_def)
  then show ?case using Cons.prems by (simp add: ih)
qed simp

context engine begin

lemma get_insert_acceptance:
  "kv_get kv (insert_acceptance kv k es s) =
     (kv_get kv s)(ak_bytes k \<mapsto> (case kv_get kv s (ak_bytes k) of None \<Rightarrow> zero_header | Some old \<Rightarrow> old) @
        concat (map entry_bytes es))"
  by (auto simp: insert_acceptance_def fun_eq_iff split: option.splits)

lemma update_acceptance_Ok:
  assumes "update_acceptance kv k h daa s = Ok (out, s')"
  shows "kv_get kv s' = (kv_get kv s)(ak_bytes k :=
      map_option (\<lambda>old. header_bytes h daa @ drop header_len old) (kv_get kv s (ak_bytes k)))"
    and "out = KeysExistsWithEntries \<longleftrightarrow> (\<exists>old. kv_get kv s (ak_bytes k) = Some old \<and> header_len < length old)"
    and "out = KeyDoesNotExist \<longleftrightarrow> kv_get kv s (ak_bytes k) = None"
proof -
  obtain old s1 where f: "kv_fetch_update kv (ak_bytes k)
      (map_option (\<lambda>old. header_bytes h daa @ drop header_len old)) s = (old, s1)" by (metis surj_pair)
  note r = fetch_update [of "ak_bytes k" "map_option (\<lambda>old. header_bytes h daa @ drop header_len old)" s, unfolded f]
  have "s' = s1" using assms by (auto simp: update_acceptance_def f split: option.splits if_splits)
  then show "kv_get kv s' = (kv_get kv s)(ak_bytes k :=
      map_option (\<lambda>old. header_bytes h daa @ drop header_len old) (kv_get kv s (ak_bytes k)))"
    using r(2) by simp
  show "out = KeysExistsWithEntries \<longleftrightarrow> (\<exists>old. kv_get kv s (ak_bytes k) = Some old \<and> header_len < length old)"
    "out = KeyDoesNotExist \<longleftrightarrow> kv_get kv s (ak_bytes k) = None"
    using assms r(1) by (auto simp: update_acceptance_def f split: option.splits if_splits)
qed

text \<open>One record per transaction id: the key is found. Two: the assertion fails.\<close>

lemma key_by_tx_id_found:
  assumes "ak_ok k" and "length t = 32" and "kv_get kv s (ak_bytes k) \<noteq> None" and "ak_tx_id k = t"
    and "\<And>b. starts_with t b \<Longrightarrow> kv_get kv s b \<noteq> None \<Longrightarrow> b = ak_bytes k"
  shows "key_by_tx_id kv s t = Ok (Some k)"
proof -
  obtain v where "kv_prefix kv t s = [(ak_bytes k, v)]"
    using prefix_single [of t s "ak_bytes k"] assms by (metis ak_prefix)
  then show ?thesis using assms(1) by (simp add: key_by_tx_id_def)
qed

lemma key_by_tx_id_None:
  "(\<And>b. starts_with t b \<Longrightarrow> kv_get kv s b = None) \<Longrightarrow> key_by_tx_id kv s t = Ok None"
  by (simp add: key_by_tx_id_def prefix_Nil [THEN iffD2])

lemma key_by_tx_id_two:
  assumes "starts_with t a" "starts_with t b" "a \<noteq> b" "kv_get kv s a \<noteq> None" "kv_get kv s b \<noteq> None"
  shows "key_by_tx_id kv s t = Panic" "acceptance_by_tx_id kv s t = Panic"
proof -
  obtain v w where "(a, v) \<in> set (kv_prefix kv t s)" "(b, w) \<in> set (kv_prefix kv t s)"
    using assms by (auto simp: in_prefix)
  then obtain x y zs where "kv_prefix kv t s = x # y # zs"
    using assms(3) by (cases "kv_prefix kv t s"; cases "tl (kv_prefix kv t s)") auto
  then show "key_by_tx_id kv s t = Panic" "acceptance_by_tx_id kv s t = Panic"
    by (simp_all add: key_by_tx_id_def acceptance_by_tx_id_def)
qed

end

end
