(* ===== verification/Index_Db.thy ===== *)
theory Index_Db
  imports Acceptance
begin

text \<open>
  \<open>kasia-indexer/indexer-db\<close>: the keyspace, one store per partition, and what each partition's
  methods do to it. A method named \<open>.._wtx\<close> in the source works on the state of the open write
  transaction; the others read the committed state. The definitions take whichever state is meant.
\<close>

section \<open>The keyspace\<close>

datatype partition =
    Block_Compact_Header | Daa_Index_Compact_Header | Block_Gaps | Metadata_Store
  | Handshake_By_Sender | Handshake_By_Receiver | Tx_Id_To_Handshake
  | Contextual_Message_By_Sender | Contextual_Message_By_Inbox | Tx_Id_To_Contextual_Message
  | Self_Stash_By_Owner | Tx_Id_To_Self_Stash
  | Payment_By_Sender | Payment_By_Receiver | Tx_Id_To_Payment
  | Group_Message_By_Blinded_Group_Id | Tx_Id_To_Group_Message | Group_Sender_Binding
  | Group_Control_By_Sender | Group_Control_By_Recipient | Tx_Id_To_Group_Control
  | Tx_Id_To_Acceptance | Tx_Output0_Owner | Watched_Outpoints | Watched_Outpoint_Spends
  | Accepting_Block_To_Tx_Id | Pending_Sender_Resolution

type_synonym 's keyspace = "partition \<Rightarrow> 's"

text \<open>What a reader sees.\<close>

definition obs :: "'s kv \<Rightarrow> 's keyspace \<Rightarrow> partition \<Rightarrow> bytes \<Rightarrow> bytes option" where
  "obs kv d p = kv_get kv (d p)"

definition put :: "'s kv \<Rightarrow> partition \<Rightarrow> bytes \<Rightarrow> bytes \<Rightarrow> 's keyspace \<Rightarrow> 's keyspace" where
  "put kv p k v d = d(p := kv_insert kv k v (d p))"

definition del :: "'s kv \<Rightarrow> partition \<Rightarrow> bytes \<Rightarrow> 's keyspace \<Rightarrow> 's keyspace" where
  "del kv p k d = d(p := kv_remove kv k (d p))"

text \<open>
  The insert of an index whose value is the sender: an unknown sender is stored as \<open>no_address\<close> and
  filled in later; a sender once stored stays.
\<close>

definition fill_sender :: "address_payload \<Rightarrow> bytes option \<Rightarrow> bytes option" where
  "fill_sender sender old =
     (case old of
        None \<Rightarrow> Some (address_bytes sender)
      | Some old \<Rightarrow>
          (if read_address old \<noteq> Some no_address then Some old else Some (address_bytes sender)))"

definition with_sender ::
    "'s kv \<Rightarrow> partition \<Rightarrow> bytes \<Rightarrow> address_payload option \<Rightarrow> 's keyspace \<Rightarrow> 's keyspace" where
  "with_sender kv p key sender d =
     d(p := snd (kv_update_fetch kv key (fill_sender (case sender of Some s \<Rightarrow> s | None \<Rightarrow> no_address)) (d p)))"

definition insert_with_sender ::
    "'s kv \<Rightarrow> partition \<Rightarrow> bytes \<Rightarrow> address_payload option \<Rightarrow> 's keyspace \<Rightarrow> 's keyspace res" where
  "insert_with_sender kv p key sender d =
     (if (case kv_get kv (d p) key of Some old \<Rightarrow> read_address old = None | None \<Rightarrow> False) then Panic
      else Ok (with_sender kv p key sender d))"

section \<open>Message partitions\<close>

definition handshake_by_receiver_insert ::
    "'s kv \<Rightarrow> handshake_key_by_receiver \<Rightarrow> address_payload option \<Rightarrow> 's keyspace \<Rightarrow> 's keyspace res" where
  "handshake_by_receiver_insert kv key sender = insert_with_sender kv Handshake_By_Receiver (rk_bytes key) sender"

definition handshake_by_sender_insert :: "'s kv \<Rightarrow> handshake_key_by_sender \<Rightarrow> 's keyspace \<Rightarrow> 's keyspace" where
  "handshake_by_sender_insert kv key = put kv Handshake_By_Sender (sk_bytes key) []"

definition tx_handshake_insert :: "'s kv \<Rightarrow> bytes \<Rightarrow> bytes \<Rightarrow> 's keyspace \<Rightarrow> 's keyspace" where
  "tx_handshake_insert kv tx_id sealed_hex = put kv Tx_Id_To_Handshake tx_id sealed_hex"

definition contextual_by_sender_insert :: "'s kv \<Rightarrow> contextual_key_by_sender \<Rightarrow> 's keyspace \<Rightarrow> 's keyspace" where
  "contextual_by_sender_insert kv key = put kv Contextual_Message_By_Sender (ck_bytes key) []"

definition contextual_by_inbox_insert ::
    "'s kv \<Rightarrow> inbox_key \<Rightarrow> address_payload option \<Rightarrow> 's keyspace \<Rightarrow> 's keyspace res" where
  "contextual_by_inbox_insert kv key sender = insert_with_sender kv Contextual_Message_By_Inbox (ik_bytes key) sender"

definition tx_contextual_insert :: "'s kv \<Rightarrow> bytes \<Rightarrow> bytes \<Rightarrow> 's keyspace \<Rightarrow> 's keyspace" where
  "tx_contextual_insert kv tx_id sealed_hex = put kv Tx_Id_To_Contextual_Message tx_id sealed_hex"

definition self_stash_insert :: "'s kv \<Rightarrow> self_stash_key \<Rightarrow> 's keyspace \<Rightarrow> 's keyspace" where
  "self_stash_insert kv key = put kv Self_Stash_By_Owner (ok_bytes key) []"

definition tx_self_stash_insert :: "'s kv \<Rightarrow> bytes \<Rightarrow> bytes \<Rightarrow> 's keyspace \<Rightarrow> 's keyspace" where
  "tx_self_stash_insert kv tx_id sealed_hex = put kv Tx_Id_To_Self_Stash tx_id sealed_hex"

definition payment_by_receiver_insert ::
    "'s kv \<Rightarrow> payment_key_by_receiver \<Rightarrow> address_payload option \<Rightarrow> 's keyspace \<Rightarrow> 's keyspace res" where
  "payment_by_receiver_insert kv key sender = insert_with_sender kv Payment_By_Receiver (rk_bytes key) sender"

definition payment_by_sender_insert :: "'s kv \<Rightarrow> payment_key_by_sender \<Rightarrow> 's keyspace \<Rightarrow> 's keyspace" where
  "payment_by_sender_insert kv key = put kv Payment_By_Sender (sk_bytes key) []"

definition tx_payment_insert :: "'s kv \<Rightarrow> bytes \<Rightarrow> u64 \<Rightarrow> bytes \<Rightarrow> 's keyspace \<Rightarrow> 's keyspace" where
  "tx_payment_insert kv tx_id amount sealed_hex = put kv Tx_Id_To_Payment tx_id (le64 amount @ sealed_hex)"

text \<open>\<open>SharedImmutable<PaymentData>\<close>: \<open>amount()\<close> and \<open>sealed_hex()\<close> split the value after eight bytes.\<close>

definition payment_amount :: "bytes \<Rightarrow> u64 res" where
  "payment_amount v = (if length v < 8 then Panic else Ok (word_of_nat (from_le (take 8 v))))"

definition payment_sealed_hex :: "bytes \<Rightarrow> bytes res" where
  "payment_sealed_hex v = (if length v < 8 then Panic else Ok (drop 8 v))"

definition group_message_insert ::
    "'s kv \<Rightarrow> group_message_key \<Rightarrow> address_payload option \<Rightarrow> 's keyspace \<Rightarrow> 's keyspace res" where
  "group_message_insert kv key sender =
     insert_with_sender kv Group_Message_By_Blinded_Group_Id (gk_bytes key) sender"

definition group_message_remove :: "'s kv \<Rightarrow> group_message_key \<Rightarrow> 's keyspace \<Rightarrow> 's keyspace" where
  "group_message_remove kv key = del kv Group_Message_By_Blinded_Group_Id (gk_bytes key)"

definition tx_group_message_insert :: "'s kv \<Rightarrow> bytes \<Rightarrow> bytes \<Rightarrow> 's keyspace \<Rightarrow> 's keyspace" where
  "tx_group_message_insert kv tx_id sealed_hex = put kv Tx_Id_To_Group_Message tx_id sealed_hex"

definition tx_group_message_remove :: "'s kv \<Rightarrow> bytes \<Rightarrow> 's keyspace \<Rightarrow> 's keyspace" where
  "tx_group_message_remove kv tx_id = del kv Tx_Id_To_Group_Message tx_id"

text \<open>\<open>check_or_bind_wtx\<close>: the first public key that uses a blinded group id keeps it.\<close>

definition check_or_bind :: "'s kv \<Rightarrow> bytes \<Rightarrow> bytes \<Rightarrow> 's keyspace \<Rightarrow> bool \<times> 's keyspace" where
  "check_or_bind kv blinded_group_id sender_pubkey d =
     (let (previous, s) = kv_fetch_update kv blinded_group_id
            (\<lambda>old. Some (case old of Some value \<Rightarrow> value | None \<Rightarrow> sender_pubkey)) (d Group_Sender_Binding)
      in (case previous of Some value \<Rightarrow> value = sender_pubkey | None \<Rightarrow> True, d(Group_Sender_Binding := s)))"

definition group_control_by_recipient_insert ::
    "'s kv \<Rightarrow> group_control_key_by_recipient \<Rightarrow> address_payload option \<Rightarrow> 's keyspace \<Rightarrow> 's keyspace res" where
  "group_control_by_recipient_insert kv key sender =
     insert_with_sender kv Group_Control_By_Recipient (rk_bytes key) sender"

definition group_control_by_sender_insert ::
    "'s kv \<Rightarrow> group_control_key_by_sender \<Rightarrow> 's keyspace \<Rightarrow> 's keyspace" where
  "group_control_by_sender_insert kv key = put kv Group_Control_By_Sender (lk_bytes key) []"

definition tx_group_control_insert :: "'s kv \<Rightarrow> bytes \<Rightarrow> bytes \<Rightarrow> 's keyspace \<Rightarrow> 's keyspace" where
  "tx_group_control_insert kv tx_id sealed_hex = put kv Tx_Id_To_Group_Control tx_id sealed_hex"

section \<open>Processing partitions\<close>

definition acceptance_insert :: "'s kv \<Rightarrow> acceptance_key \<Rightarrow> insertion_entry list \<Rightarrow> 's keyspace \<Rightarrow> 's keyspace" where
  "acceptance_insert kv k entries d =
     d(Tx_Id_To_Acceptance := insert_acceptance kv k entries (d Tx_Id_To_Acceptance))"

definition acceptance_key_of :: "'s kv \<Rightarrow> 's keyspace \<Rightarrow> bytes \<Rightarrow> acceptance_key option res" where
  "acceptance_key_of kv d tx_id = key_by_tx_id kv (d Tx_Id_To_Acceptance) tx_id"

definition acceptance_update ::
    "'s kv \<Rightarrow> acceptance_key \<Rightarrow> bytes \<Rightarrow> u64 \<Rightarrow> 's keyspace \<Rightarrow> (lookup_output \<times> 's keyspace) res" where
  "acceptance_update kv k accepting_block_hash acceptance_daa d =
     rbind (update_acceptance kv k accepting_block_hash acceptance_daa (d Tx_Id_To_Acceptance))
       (\<lambda>(out, s). Ok (out, d(Tx_Id_To_Acceptance := s)))"

text \<open>\<open>resolve_entries_wtx\<close>: the record keeps its header, and every entry goes to the callback.\<close>

definition resolve_entries ::
    "'s kv \<Rightarrow> acceptance_key \<Rightarrow> (partition_id \<Rightarrow> nat res) \<Rightarrow>
     (partition_id \<Rightarrow> action \<Rightarrow> bytes \<Rightarrow> ('s keyspace \<times> 'p) \<Rightarrow> ('s keyspace \<times> 'p) res) \<Rightarrow>
     's keyspace \<times> 'p \<Rightarrow> (bool \<times> 's keyspace \<times> 'p) res" where
  "resolve_entries kv k key_len_fn entry_cb_fn w =
     (let (old_value, s) = kv_fetch_update kv (ak_bytes k) (map_option (take header_len))
            (fst w Tx_Id_To_Acceptance)
      in case old_value of
           None \<Rightarrow> Ok (False, (fst w)(Tx_Id_To_Acceptance := s), snd w)
         | Some old \<Rightarrow>
             if length old < header_len then Panic
             else rbind (resolve_loop key_len_fn entry_cb_fn (drop header_len old)
                           ((fst w)(Tx_Id_To_Acceptance := s), snd w))
                    (\<lambda>w. Ok (True, w)))"

definition output0_insert :: "'s kv \<Rightarrow> bytes \<Rightarrow> address_payload \<Rightarrow> 's keyspace \<Rightarrow> 's keyspace" where
  "output0_insert kv tx_id owner = put kv Tx_Output0_Owner tx_id (address_bytes owner)"

definition output0_get :: "'s kv \<Rightarrow> bytes \<Rightarrow> 's keyspace \<Rightarrow> address_payload option res" where
  "output0_get kv tx_id d =
     (case kv_get kv (d Tx_Output0_Owner) tx_id of
        None \<Rightarrow> Ok None
      | Some b \<Rightarrow> rbind (or_err (read_address b)) (\<lambda>a. Ok (Some a)))"

text \<open>\<open>&[[u8; 32]]\<close> of the stored transaction ids.\<close>

definition tx_ids_of :: "bytes \<Rightarrow> bytes list" where
  "tx_ids_of b = cut (replicate (length b div 32) 32) b"

definition accepting_insert :: "'s kv \<Rightarrow> bytes \<Rightarrow> bytes list \<Rightarrow> 's keyspace \<Rightarrow> 's keyspace" where
  "accepting_insert kv accepted_by_block_hash tx_ids =
     put kv Accepting_Block_To_Tx_Id accepted_by_block_hash (concat tx_ids)"

definition accepting_remove :: "'s kv \<Rightarrow> bytes \<Rightarrow> 's keyspace \<Rightarrow> bytes list option \<times> 's keyspace" where
  "accepting_remove kv accepted_by_block_hash d =
     (let (old, s) = kv_fetch_update kv accepted_by_block_hash (\<lambda>_. None) (d Accepting_Block_To_Tx_Id)
      in (map_option tx_ids_of old, d(Accepting_Block_To_Tx_Id := s)))"

record pending_key =
  pk_daa :: u64
  pk_tx_id :: bytes

definition pk_bytes :: "pending_key \<Rightarrow> bytes" where
  "pk_bytes k = concat [be64 (pk_daa k), pk_tx_id k]"

definition pk_read :: "bytes \<Rightarrow> pending_key option" where
  "pk_read b = (case read_fields [8, 32] b of
     Some [t, x] \<Rightarrow> Some \<lparr>pk_daa = read_u64 t, pk_tx_id = x\<rparr> | _ \<Rightarrow> None)"

definition pending_insert :: "'s kv \<Rightarrow> pending_key \<Rightarrow> 's keyspace \<Rightarrow> 's keyspace" where
  "pending_insert kv key = put kv Pending_Sender_Resolution (pk_bytes key) []"

definition pending_remove :: "'s kv \<Rightarrow> pending_key \<Rightarrow> 's keyspace \<Rightarrow> 's keyspace" where
  "pending_remove kv key = del kv Pending_Sender_Resolution (pk_bytes key)"

definition get_all_pending :: "'s kv \<Rightarrow> 's keyspace \<Rightarrow> pending_key list res" where
  "get_all_pending kv d =
     rfold (\<lambda>(k, _) ks. rbind (unwrap (pk_read k)) (\<lambda>key. Ok (ks @ [key])))
       (kv_iter kv (d Pending_Sender_Resolution)) []"

definition be32 :: "u32 \<Rightarrow> bytes" where "be32 i = to_be 4 (unat i)"

record outpoint_key =
  wk_tx_id :: bytes
  wk_index :: u32

definition wk_bytes :: "outpoint_key \<Rightarrow> bytes" where
  "wk_bytes k = concat [wk_tx_id k, be32 (wk_index k)]"

record spend_key =
  zk_spent_at_ms :: u64
  zk_outpoint :: outpoint_key

definition zk_bytes :: "spend_key \<Rightarrow> bytes" where
  "zk_bytes k = concat [be64 (zk_spent_at_ms k), wk_tx_id (zk_outpoint k), be32 (wk_index (zk_outpoint k))]"

definition zk_read :: "bytes \<Rightarrow> spend_key option" where
  "zk_read b = (case read_fields [8, 32, 4] b of
     Some [t, x, i] \<Rightarrow>
       Some \<lparr>zk_spent_at_ms = read_u64 t, zk_outpoint = \<lparr>wk_tx_id = x, wk_index = word_of_nat (from_be i)\<rparr>\<rparr>
   | _ \<Rightarrow> None)"

definition watched_insert :: "'s kv \<Rightarrow> outpoint_key \<Rightarrow> address_payload \<Rightarrow> 's keyspace \<Rightarrow> 's keyspace" where
  "watched_insert kv key addr = put kv Watched_Outpoints (wk_bytes key) (address_bytes addr)"

definition watched_get :: "'s kv \<Rightarrow> outpoint_key \<Rightarrow> 's keyspace \<Rightarrow> address_payload option res" where
  "watched_get kv key d =
     (case kv_get kv (d Watched_Outpoints) (wk_bytes key) of
        None \<Rightarrow> Ok None
      | Some b \<Rightarrow> rbind (or_err (read_address b)) (\<lambda>a. Ok (Some a)))"

definition watched_remove :: "'s kv \<Rightarrow> outpoint_key \<Rightarrow> 's keyspace \<Rightarrow> 's keyspace" where
  "watched_remove kv key = del kv Watched_Outpoints (wk_bytes key)"

definition spend_insert :: "'s kv \<Rightarrow> spend_key \<Rightarrow> 's keyspace \<Rightarrow> 's keyspace" where
  "spend_insert kv key = put kv Watched_Outpoint_Spends (zk_bytes key) []"

definition spend_remove :: "'s kv \<Rightarrow> spend_key \<Rightarrow> 's keyspace \<Rightarrow> 's keyspace" where
  "spend_remove kv key = del kv Watched_Outpoint_Spends (zk_bytes key)"

definition spent_before :: "'s kv \<Rightarrow> 's keyspace \<Rightarrow> u64 \<Rightarrow> nat \<Rightarrow> spend_key list res" where
  "spent_before kv d cutoff_ms limit =
     rfold (\<lambda>(k, _) ks. rbind (or_err (zk_read k)) (\<lambda>key. Ok (ks @ [key])))
       (take limit (below_scan kv cutoff_ms (d Watched_Outpoint_Spends))) []"

section \<open>Headers and metadata\<close>

type_synonym blue_work = "192 word"

definition work_be :: "blue_work \<Rightarrow> bytes" where "work_be w = to_be 24 (unat w)"
definition work_le :: "blue_work \<Rightarrow> bytes" where "work_le w = to_le 24 (unat w)"

definition compact_header_bytes :: "bytes \<Rightarrow> u64 \<Rightarrow> bytes" where
  "compact_header_bytes blue_work daa_score = concat [blue_work, le64 daa_score]"

definition insert_compact_header ::
    "'s kv \<Rightarrow> bytes \<Rightarrow> bytes \<Rightarrow> u64 \<Rightarrow> 's keyspace \<Rightarrow> bool \<times> 's keyspace" where
  "insert_compact_header kv block_hash blue_work daa_score d =
     (let (old, s) = kv_fetch_update kv block_hash (\<lambda>_. Some (compact_header_bytes blue_work daa_score))
            (d Block_Compact_Header)
      in (old \<noteq> None, d(Block_Compact_Header := s)))"

definition daa_key_bytes :: "u64 \<Rightarrow> bytes \<Rightarrow> bytes \<Rightarrow> bytes" where
  "daa_key_bytes daa_score block_hash blue_work_be = concat [be64 daa_score, blue_work_be, block_hash]"

definition daa_index_insert :: "'s kv \<Rightarrow> u64 \<Rightarrow> bytes \<Rightarrow> bytes \<Rightarrow> 's keyspace \<Rightarrow> 's keyspace" where
  "daa_index_insert kv daa_score block_hash blue_work_be =
     put kv Daa_Index_Compact_Header (daa_key_bytes daa_score block_hash blue_work_be) []"

definition daa_index_delete :: "'s kv \<Rightarrow> u64 \<Rightarrow> bytes \<Rightarrow> bytes \<Rightarrow> 's keyspace \<Rightarrow> 's keyspace" where
  "daa_index_delete kv daa_score block_hash blue_work_be =
     del kv Daa_Index_Compact_Header (daa_key_bytes daa_score block_hash blue_work_be)"

text \<open>\<open>iter_lt\<close>: the blocks (DAA score, blue work, hash) with a smaller DAA score, in key order.\<close>

definition daa_index_iter_lt :: "'s kv \<Rightarrow> 's keyspace \<Rightarrow> u64 \<Rightarrow> (u64 \<times> bytes \<times> bytes) list res" where
  "daa_index_iter_lt kv d max_daa =
     rfold (\<lambda>(k, v) ks.
         if v \<noteq> [] then Err
         else case read_fields [8, 24, 32] k of
                Some [t, w, h] \<Rightarrow> Ok (ks @ [(read_u64 t, w, h)]) | _ \<Rightarrow> Err)
       (below_scan kv max_daa (d Daa_Index_Compact_Header)) []"

record block_gap =
  bg_from :: bytes
  bg_to :: bytes

definition add_gap :: "'s kv \<Rightarrow> block_gap \<Rightarrow> 's keyspace \<Rightarrow> 's keyspace" where
  "add_gap kv gap = put kv Block_Gaps (bg_to gap) (bg_from gap)"

definition remove_gap :: "'s kv \<Rightarrow> bytes \<Rightarrow> 's keyspace \<Rightarrow> 's keyspace" where
  "remove_gap kv to = del kv Block_Gaps to"

definition get_all_gaps :: "'s kv \<Rightarrow> 's keyspace \<Rightarrow> block_gap list res" where
  "get_all_gaps kv d =
     rfold (\<lambda>(k, v) gs.
         if length k = 32 \<and> length v = 32 then Ok (gs @ [\<lparr>bg_from = v, bg_to = k\<rparr>]) else Err)
       (kv_iter kv (d Block_Gaps)) []"

definition latest_block_key :: bytes where "latest_block_key = [0]"
definition latest_accepting_key :: bytes where "latest_accepting_key = [1]"

record db_cursor =
  dc_blue_work :: bytes
  dc_block_hash :: bytes
  dc_daa :: u64

definition dc_bytes :: "db_cursor \<Rightarrow> bytes" where
  "dc_bytes c = concat [dc_blue_work c, dc_block_hash c, le64 (dc_daa c)]"

definition dc_read :: "bytes \<Rightarrow> db_cursor option" where
  "dc_read b = (case read_fields [24, 32, 8] b of
     Some [w, h, t] \<Rightarrow> Some \<lparr>dc_blue_work = w, dc_block_hash = h, dc_daa = word_of_nat (from_le t)\<rparr>
   | _ \<Rightarrow> None)"

definition set_latest_block_cursor :: "'s kv \<Rightarrow> bytes \<Rightarrow> 's keyspace \<Rightarrow> 's keyspace" where
  "set_latest_block_cursor kv hash = put kv Metadata_Store latest_block_key hash"

definition get_latest_block_cursor :: "'s kv \<Rightarrow> 's keyspace \<Rightarrow> bytes option res" where
  "get_latest_block_cursor kv d =
     (case kv_get kv (d Metadata_Store) latest_block_key of
        None \<Rightarrow> Ok None | Some b \<Rightarrow> if length b = 32 then Ok (Some b) else Err)"

text \<open>The accepting cursor only moves to more blue work.\<close>

definition set_latest_accepting_cursor :: "'s kv \<Rightarrow> db_cursor \<Rightarrow> 's keyspace \<Rightarrow> 's keyspace res" where
  "set_latest_accepting_cursor kv cursor d =
     (let (old, s) = kv_fetch_update kv latest_accepting_key
            (\<lambda>old_value. case old_value of
               None \<Rightarrow> Some (dc_bytes cursor)
             | Some old \<Rightarrow>
                 (case dc_read old of
                    Some c \<Rightarrow> if dc_blue_work cursor > dc_blue_work c then Some (dc_bytes cursor) else Some old
                  | None \<Rightarrow> Some old)) (d Metadata_Store)
      in if old \<noteq> None \<and> Option.bind old dc_read = None then Panic
         else Ok (d(Metadata_Store := s)))"

definition get_latest_accepting_cursor :: "'s kv \<Rightarrow> 's keyspace \<Rightarrow> db_cursor option res" where
  "get_latest_accepting_cursor kv d =
     (case kv_get kv (d Metadata_Store) latest_accepting_key of
        None \<Rightarrow> Ok None | Some b \<Rightarrow> rbind (or_err (dc_read b)) (\<lambda>c. Ok (Some c)))"

definition remove_latest_accepting_cursor :: "'s kv \<Rightarrow> 's keyspace \<Rightarrow> 's keyspace" where
  "remove_latest_accepting_cursor kv = del kv Metadata_Store latest_accepting_key"

section \<open>What readers see\<close>

named_theorems index_defs \<open>the partition methods\<close>

declare handshake_by_receiver_insert_def [index_defs] handshake_by_sender_insert_def [index_defs]
  tx_handshake_insert_def [index_defs] contextual_by_sender_insert_def [index_defs]
  contextual_by_inbox_insert_def [index_defs] tx_contextual_insert_def [index_defs]
  self_stash_insert_def [index_defs] tx_self_stash_insert_def [index_defs]
  payment_by_receiver_insert_def [index_defs] payment_by_sender_insert_def [index_defs]
  tx_payment_insert_def [index_defs] group_message_insert_def [index_defs]
  group_message_remove_def [index_defs] tx_group_message_insert_def [index_defs]
  tx_group_message_remove_def [index_defs] group_control_by_recipient_insert_def [index_defs]
  group_control_by_sender_insert_def [index_defs] tx_group_control_insert_def [index_defs]
  output0_insert_def [index_defs] pending_insert_def [index_defs] pending_remove_def [index_defs]
  accepting_insert_def [index_defs] watched_insert_def [index_defs] watched_remove_def [index_defs]
  spend_insert_def [index_defs] spend_remove_def [index_defs] daa_index_insert_def [index_defs]
  daa_index_delete_def [index_defs] add_gap_def [index_defs] remove_gap_def [index_defs]
  set_latest_block_cursor_def [index_defs]

lemma tx_ids_of_concat: "\<forall>x \<in> set xs. length x = 32 \<Longrightarrow> tx_ids_of (concat xs) = xs"
proof -
  assume a: "\<forall>x \<in> set xs. length x = 32"
  then have "length (concat xs) = 32 * length xs" "map length xs = replicate (length xs) 32"
    by (induction xs) auto
  then show ?thesis by (simp add: tx_ids_of_def cut_concat)
qed

text \<open>An index entry whose value is missing or a well-formed address.\<close>

definition sender_value_ok :: "bytes option \<Rightarrow> bool" where
  "sender_value_ok v \<longleftrightarrow> (\<forall>b. v = Some b \<longrightarrow> read_address b \<noteq> None)"

lemma sender_value_fill [simp]: "sender_value_ok old \<Longrightarrow> address_ok s \<Longrightarrow> sender_value_ok (fill_sender s old)"
  by (auto simp: sender_value_ok_def fill_sender_def split: option.splits)

lemma sender_value_None [simp]: "sender_value_ok None"
  by (simp add: sender_value_ok_def)

text \<open>Filling in a sender later is filling it in at once.\<close>

lemma fill_later: "fill_sender s (fill_sender no_address old) = fill_sender s old"
  by (auto simp: fill_sender_def split: option.splits)

lemma fill_known: "old = Some b \<Longrightarrow> read_address b = Some a \<Longrightarrow> a \<noteq> no_address \<Longrightarrow> fill_sender s old = old"
  by (simp add: fill_sender_def)

context engine begin

lemma obs_put [simp]: "obs kv (put kv p k v d) = (obs kv d)(p := (obs kv d p)(k \<mapsto> v))"
  by (auto simp: obs_def put_def fun_eq_iff)

lemma obs_del [simp]: "obs kv (del kv p k d) = (obs kv d)(p := (obs kv d p)(k := None))"
  by (auto simp: obs_def del_def fun_eq_iff)

lemma obs_acceptance_insert [simp]:
  "obs kv (acceptance_insert kv k es d) = (obs kv d)(Tx_Id_To_Acceptance := (obs kv d Tx_Id_To_Acceptance)
     (ak_bytes k \<mapsto> (case obs kv d Tx_Id_To_Acceptance (ak_bytes k) of None \<Rightarrow> zero_header | Some old \<Rightarrow> old) @
       concat (map entry_bytes es)))"
  by (auto simp: obs_def acceptance_insert_def get_insert_acceptance fun_eq_iff)

lemma obs_with_sender [simp]:
  "obs kv (with_sender kv p key sender d) = (obs kv d)(p := (obs kv d p)
     (key := fill_sender (case sender of Some s \<Rightarrow> s | None \<Rightarrow> no_address) (obs kv d p key)))"
  by (intro ext) (simp add: obs_def with_sender_def)

lemma insert_with_sender_Ok:
  "sender_value_ok (obs kv d p key) \<Longrightarrow> insert_with_sender kv p key sender d = Ok (with_sender kv p key sender d)"
  by (auto simp: insert_with_sender_def sender_value_ok_def obs_def split: option.splits)

lemma insert_with_sender_obs:
  assumes "insert_with_sender kv p key sender d = Ok d'"
  shows "obs kv d' = (obs kv d)(p := (obs kv d p)
       (key := fill_sender (case sender of Some s \<Rightarrow> s | None \<Rightarrow> no_address) (obs kv d p key)))"
proof -
  have "d' = with_sender kv p key sender d" using assms by (auto simp: insert_with_sender_def split: if_splits)
  then show ?thesis by simp
qed

lemma check_or_bind_obs:
  "fst (check_or_bind kv g k d) = (case obs kv d Group_Sender_Binding g of Some v \<Rightarrow> v = k | None \<Rightarrow> True)"
  "obs kv (snd (check_or_bind kv g k d)) = (obs kv d)(Group_Sender_Binding := (obs kv d Group_Sender_Binding)
     (g \<mapsto> (case obs kv d Group_Sender_Binding g of Some v \<Rightarrow> v | None \<Rightarrow> k)))"
  by (auto simp: check_or_bind_def obs_def fun_eq_iff case_prod_unfold)

lemma acceptance_update_obs:
  assumes "acceptance_update kv k h daa d = Ok (out, d')"
  shows "obs kv d' = (obs kv d)(Tx_Id_To_Acceptance := (obs kv d Tx_Id_To_Acceptance)(ak_bytes k :=
      map_option (\<lambda>old. header_bytes h daa @ drop header_len old) (obs kv d Tx_Id_To_Acceptance (ak_bytes k))))"
    and "out = KeysExistsWithEntries \<longleftrightarrow>
      (\<exists>old. obs kv d Tx_Id_To_Acceptance (ak_bytes k) = Some old \<and> header_len < length old)"
    and "out = KeyDoesNotExist \<longleftrightarrow> obs kv d Tx_Id_To_Acceptance (ak_bytes k) = None"
proof -
  obtain s where s: "update_acceptance kv k h daa (d Tx_Id_To_Acceptance) = Ok (out, s)"
    "d' = d(Tx_Id_To_Acceptance := s)" using assms by (auto simp: acceptance_update_def rbind_eq_Ok)
  note u = update_acceptance_Ok [OF s(1)]
  show "obs kv d' = (obs kv d)(Tx_Id_To_Acceptance := (obs kv d Tx_Id_To_Acceptance)(ak_bytes k :=
      map_option (\<lambda>old. header_bytes h daa @ drop header_len old) (obs kv d Tx_Id_To_Acceptance (ak_bytes k))))"
    by (rule ext) (simp add: obs_def s(2) u(1))
  show "out = KeysExistsWithEntries \<longleftrightarrow>
      (\<exists>old. obs kv d Tx_Id_To_Acceptance (ak_bytes k) = Some old \<and> header_len < length old)"
    "out = KeyDoesNotExist \<longleftrightarrow> obs kv d Tx_Id_To_Acceptance (ak_bytes k) = None"
    using u(2,3) by (simp_all add: obs_def)
qed

lemma accepting_remove_obs:
  "fst (accepting_remove kv b d) = map_option tx_ids_of (obs kv d Accepting_Block_To_Tx_Id b)"
  "obs kv (snd (accepting_remove kv b d)) =
     (obs kv d)(Accepting_Block_To_Tx_Id := (obs kv d Accepting_Block_To_Tx_Id)(b := None))"
  by (auto simp: accepting_remove_def obs_def fun_eq_iff case_prod_unfold)

lemma compact_header_obs:
  "fst (insert_compact_header kv h w daa d) \<longleftrightarrow> obs kv d Block_Compact_Header h \<noteq> None"
  "obs kv (snd (insert_compact_header kv h w daa d)) = (obs kv d)(Block_Compact_Header :=
     (obs kv d Block_Compact_Header)(h \<mapsto> compact_header_bytes w daa))"
  by (auto simp: insert_compact_header_def obs_def fun_eq_iff case_prod_unfold)

end

end
