(* ===== verification/Block_Processor.thy ===== *)
theory Block_Processor
  imports Index_Db Protocol Rust_Strings
begin

text \<open>
  \<open>kasia-indexer/indexer-actors/src/block_processor.rs\<close> (with the personal allowlists of \<open>lib.rs\<close>
  and the push events of \<open>push.rs\<close>): what one block does to the indexes. A sealed operation is
  stored under its receiver at once; what depends on the sender is stored at once when the sender
  is known and otherwise left as entries in the acceptance record. Push events go into a bounded
  queue that drops them when it is full: the model lists the events offered.
\<close>

section \<open>Blocks, transactions, push events\<close>

record rpc_header =
  bh_hash :: bytes
  bh_timestamp :: u64
  bh_daa_score :: u64
  bh_blue_work :: blue_work

record rpc_tx =
  rt_inputs :: "(bytes \<times> u32) list" \<comment> \<open>the previous outpoints\<close>
  rt_outputs :: "(u64 \<times> script_public_key) list"
  rt_payload :: bytes
  rt_verbose_id :: "bytes option"

record rpc_block =
  rb_header :: rpc_header
  rb_transactions :: "rpc_tx list"

datatype push_kind =
    PushContextual | PushPayment | PushHandshake | PushSelfStash | PushGroupMessage | PushGroupControl

record push_event =
  pv_kind :: push_kind
  pv_watched_address :: address_payload
  pv_sender :: address_payload
  pv_receiver :: address_payload
  pv_alias :: "bytes option"
  pv_tx_id :: bytes
  pv_amount :: "u64 option"
  pv_payload :: "bytes option"
  pv_timestamp :: u64
  pv_daa_score :: u64
  pv_blinded_group_id :: "bytes option"
  pv_group_control_recipient :: "address_payload option"
  pv_inbox_tag :: "bytes option"

record funds_event =
  fv_credited :: "(address_payload \<times> u64) list"
  fv_senders :: "address_payload list"
  fv_tx_id :: bytes
  fv_timestamp :: u64
  fv_daa_score :: u64

definition parse_self_stash_alias :: "bytes \<Rightarrow> bytes option" where
  "parse_self_stash_alias raw =
     (let end_pos = (case position (\<lambda>b. b = 0) raw of Some i \<Rightarrow> i | None \<Rightarrow> length raw)
      in if end_pos = 0 then None
         else case from_utf8 (take end_pos raw) of
                None \<Rightarrow> None
              | Some s \<Rightarrow> let alias = str_trim s in if alias = [] then None else Some alias)"

section \<open>Personal indexing mode\<close>

text \<open>The allowlists of \<open>lib.rs\<close>; no lock is ever poisoned, so a read always succeeds.\<close>

record personal =
  pe_addresses :: "address_payload list"
  pe_inbox_tags :: "bytes list"
  pe_group_ids :: "bytes list"
  pe_watch_only :: "address_payload list"

definition watch_only_is_empty :: "personal \<Rightarrow> bool" where
  "watch_only_is_empty pe \<longleftrightarrow> pe_watch_only pe = []"

definition watch_only_contains :: "personal \<Rightarrow> address_payload \<Rightarrow> bool" where
  "watch_only_contains pe addr \<longleftrightarrow> addr \<in> set (pe_watch_only pe)"

definition is_personal_inbox_tag :: "personal \<Rightarrow> bytes \<Rightarrow> bool" where
  "is_personal_inbox_tag pe tag \<longleftrightarrow> tag \<in> set (pe_inbox_tags pe)"

definition personal_allows :: "personal \<Rightarrow> address_payload option \<Rightarrow> address_payload \<Rightarrow> bool" where
  "personal_allows pe sender receiver \<longleftrightarrow>
     (if pe_addresses pe = [] then True
      else if receiver \<in> set (pe_addresses pe) then True
      else case sender of Some s \<Rightarrow> s \<in> set (pe_addresses pe) | None \<Rightarrow> False)"

definition personal_filtering_active :: "personal \<Rightarrow> bool" where
  "personal_filtering_active pe \<longleftrightarrow> length (pe_addresses pe) > 0 \<or> length (pe_group_ids pe) > 0"

definition is_personal_address :: "personal \<Rightarrow> address_payload \<Rightarrow> bool" where
  "is_personal_address pe addr \<longleftrightarrow> addr \<in> set (pe_addresses pe)"

definition is_personal_group :: "personal \<Rightarrow> bytes \<Rightarrow> bool" where
  "is_personal_group pe blinded_group_id \<longleftrightarrow> blinded_group_id \<in> set (pe_group_ids pe)"

definition personal_group_message_allows :: "personal \<Rightarrow> address_payload option \<Rightarrow> bytes \<Rightarrow> bool" where
  "personal_group_message_allows pe sender blinded_group_id \<longleftrightarrow>
     (if \<not> personal_filtering_active pe then True
      else is_personal_group pe blinded_group_id \<or>
        (case sender of Some s \<Rightarrow> is_personal_address pe s | None \<Rightarrow> False))"

section \<open>The processor's surroundings and state\<close>

text \<open>
  The crates the processor calls, and its settings: the storage engine, the address functions,
  \<open>faster_hex::hex_decode\<close>, the id of a transaction without verbose data, whether push channels
  are configured, and the two clocks.
\<close>

record ('s, 'a) env =
  en_kv :: "'s kv"
  en_kp :: "'a kaspa"
  en_hex_decode :: "bytes \<Rightarrow> bytes option"
  en_tx_id :: "rpc_tx \<Rightarrow> bytes option"
  en_push :: bool
  en_push_funds :: bool
  en_personal :: personal
  en_now :: u64 \<comment> \<open>\<open>Instant::now()\<close> in milliseconds\<close>
  en_unix_ms :: u64

record 's bp =
  bp_db :: "'s keyspace"
  bp_pushes :: "push_event list"
  bp_funds :: "funds_event list"
  bp_last_watched_prune :: "u64 option"

text \<open>A transaction's handlers also collect the entries of its acceptance record.\<close>

type_synonym 's txs = "insertion_entry list \<times> 's bp"

definition on_db :: "('s keyspace \<Rightarrow> 's keyspace) \<Rightarrow> 's txs \<Rightarrow> 's txs" where
  "on_db f st = (fst st, (snd st)\<lparr>bp_db := f (bp_db (snd st))\<rparr>)"

definition on_db_res :: "('s keyspace \<Rightarrow> 's keyspace res) \<Rightarrow> 's txs \<Rightarrow> 's txs res" where
  "on_db_res f st = rbind (f (bp_db (snd st))) (\<lambda>d. Ok (fst st, (snd st)\<lparr>bp_db := d\<rparr>))"

definition push_entry :: "partition_id \<Rightarrow> action \<Rightarrow> bytes \<Rightarrow> 's txs \<Rightarrow> 's txs" where
  "push_entry p a key st = (fst st @ [\<lparr>ie_partition = p, ie_action = a, ie_key = key\<rparr>], snd st)"

definition emit_push :: "('s, 'a) env \<Rightarrow> push_event \<Rightarrow> 's txs \<Rightarrow> 's txs" where
  "emit_push en event st =
     (if en_push en then (fst st, (snd st)\<lparr>bp_pushes := bp_pushes (snd st) @ [event]\<rparr>) else st)"

abbreviation or_default :: "address_payload option \<Rightarrow> address_payload" where
  "or_default a \<equiv> (case a of Some s \<Rightarrow> s | None \<Rightarrow> no_address)"

definition decode_fixed_hex :: "('s, 'a) env \<Rightarrow> nat \<Rightarrow> bytes \<Rightarrow> bytes option" where
  "decode_fixed_hex en n hex_bytes =
     (if length hex_bytes \<noteq> n * 2 then None else en_hex_decode en hex_bytes)"

text \<open>What is documented of \<open>hex_decode\<close>: it decodes any even number of hexadecimal digits, two to a byte.\<close>

definition hex_laws :: "(bytes \<Rightarrow> bytes option) \<Rightarrow> bool" where
  "hex_laws f \<longleftrightarrow> (\<forall>b n. length b = 2 * n \<and> list_all is_ascii_hexdigit b \<longrightarrow> (\<exists>d. f b = Some d \<and> length d = n)) \<and>
     (\<forall>b d. f b = Some d \<longrightarrow> length b = 2 * length d)"

section \<open>The handlers\<close>

text \<open>\<open>handle_handshake\<close> is version 0, \<open>handle_handshake_v2\<close> version 2; they push their entries in opposite orders.\<close>

definition handshake_event ::
    "rpc_header \<Rightarrow> bytes \<Rightarrow> bytes \<Rightarrow> address_payload \<Rightarrow> address_payload \<Rightarrow> push_event" where
  "handshake_event block tx_id sealed_hex receiver sender =
     \<lparr>pv_kind = PushHandshake, pv_watched_address = receiver, pv_sender = sender, pv_receiver = receiver,
      pv_alias = None, pv_tx_id = tx_id, pv_amount = None, pv_payload = Some (utf8_lossy sealed_hex),
      pv_timestamp = bh_timestamp block, pv_daa_score = bh_daa_score block, pv_blinded_group_id = None,
      pv_group_control_recipient = None, pv_inbox_tag = None\<rparr>"

definition hs_receiver_key :: "rpc_header \<Rightarrow> bytes \<Rightarrow> address_payload \<Rightarrow> u8 \<Rightarrow> handshake_key_by_receiver" where
  "hs_receiver_key block tx_id receiver version =
     \<lparr>rk_receiver = receiver, rk_block_time = bh_timestamp block, rk_block_hash = bh_hash block,
      rk_version = version, rk_tx_id = tx_id\<rparr>"

definition hs_sender_key :: "handshake_key_by_receiver \<Rightarrow> address_payload \<Rightarrow> handshake_key_by_sender" where
  "hs_sender_key k sender =
     \<lparr>sk_sender = sender, sk_block_time = rk_block_time k, sk_block_hash = rk_block_hash k,
      sk_receiver = rk_receiver k, sk_version = rk_version k, sk_tx_id = rk_tx_id k\<rparr>"

definition handle_handshake ::
    "('s, 'a) env \<Rightarrow> rpc_header \<Rightarrow> bytes \<Rightarrow> bytes \<Rightarrow> address_payload \<Rightarrow> address_payload option \<Rightarrow> 's txs \<Rightarrow> 's txs res" where
  "handle_handshake en block tx_id sealed_hex receiver sender st =
     (let kv = en_kv en; hs_key = hs_receiver_key block tx_id receiver 0;
          by_sender_key = hs_sender_key hs_key (or_default sender);
          st = on_db (tx_handshake_insert kv tx_id sealed_hex) st
      in rbind (on_db_res (handshake_by_receiver_insert kv hs_key sender) st) (\<lambda>st.
         case sender of
           Some s \<Rightarrow> Ok (emit_push en (handshake_event block tx_id sealed_hex receiver s)
                          (on_db (handshake_by_sender_insert kv by_sender_key) st))
         | None \<Rightarrow> Ok (push_entry HandshakeBySender InsertByKeySender (sk_bytes by_sender_key)
                         (push_entry HandshakeByReceiver UpdateValueSender (rk_bytes hs_key) st))))"

definition handle_handshake_v2 ::
    "('s, 'a) env \<Rightarrow> rpc_header \<Rightarrow> bytes \<Rightarrow> bytes \<Rightarrow> address_payload \<Rightarrow> address_payload option \<Rightarrow> 's txs \<Rightarrow> 's txs res" where
  "handle_handshake_v2 en block tx_id sealed_hex receiver sender st =
     (let kv = en_kv en; hs_key = hs_receiver_key block tx_id receiver 2;
          by_sender_key = hs_sender_key hs_key (or_default sender);
          st = on_db (tx_handshake_insert kv tx_id sealed_hex) st
      in rbind (on_db_res (handshake_by_receiver_insert kv hs_key sender) st) (\<lambda>st.
         case sender of
           Some s \<Rightarrow> Ok (emit_push en (handshake_event block tx_id sealed_hex receiver s)
                          (on_db (handshake_by_sender_insert kv by_sender_key) st))
         | None \<Rightarrow> Ok (push_entry HandshakeByReceiver UpdateValueSender (rk_bytes hs_key)
                         (push_entry HandshakeBySender InsertByKeySender (sk_bytes by_sender_key) st))))"

definition contextual_key :: "rpc_header \<Rightarrow> bytes \<Rightarrow> contextual_message \<Rightarrow> address_payload \<Rightarrow> address_payload \<Rightarrow> contextual_key_by_sender" where
  "contextual_key header tx_id cm receiver sender =
     \<lparr>ck_sender = sender, ck_alias = take 16 (cm_alias cm) @ replicate (16 - length (cm_alias cm)) 0,
      ck_block_time = bh_timestamp header, ck_block_hash = bh_hash header, ck_receiver = receiver,
      ck_version = 1, ck_tx_id = tx_id\<rparr>"

definition contextual_event ::
    "rpc_header \<Rightarrow> bytes \<Rightarrow> contextual_message \<Rightarrow> address_payload \<Rightarrow> address_payload \<Rightarrow> push_event" where
  "contextual_event header tx_id cm receiver sender =
     \<lparr>pv_kind = PushContextual, pv_watched_address = sender, pv_sender = sender, pv_receiver = receiver,
      pv_alias = Some (utf8_lossy (cm_alias cm)), pv_tx_id = tx_id, pv_amount = None,
      pv_payload = Some (utf8_lossy (cm_sealed cm)), pv_timestamp = bh_timestamp header,
      pv_daa_score = bh_daa_score header, pv_blinded_group_id = None,
      pv_group_control_recipient = None, pv_inbox_tag = None\<rparr>"

text \<open>The discovery part of a \<open>dm\<close>: an inbox tag that fails to decode, or an index write that fails, is only logged.\<close>

definition handle_inbox_tag ::
    "('s, 'a) env \<Rightarrow> rpc_header \<Rightarrow> bytes \<Rightarrow> contextual_message \<Rightarrow> address_payload \<Rightarrow> address_payload option \<Rightarrow> 's txs \<Rightarrow> 's txs res" where
  "handle_inbox_tag en header tx_id cm receiver sender st =
     (case Option.bind (cm_inbox_tag cm) (decode_fixed_hex en inbox_tag_len) of
        None \<Rightarrow> Ok st
      | Some inbox_tag \<Rightarrow>
          (let ik = \<lparr>ik_tag = inbox_tag, ik_block_time = bh_timestamp header, ik_tx_id = tx_id\<rparr>;
               after = (\<lambda>st. case sender of
                 Some s \<Rightarrow> Ok (emit_push en
                   ((contextual_event header tx_id cm receiver s)\<lparr>pv_watched_address := receiver,
                      pv_alias := None, pv_inbox_tag := Some inbox_tag\<rparr>) st)
               | None \<Rightarrow> Ok (push_entry ContextualMessageByInbox UpdateValueSender (ik_bytes ik) st))
           in case on_db_res (contextual_by_inbox_insert (en_kv en) ik sender) st of
                Ok st \<Rightarrow> after st
              | Err \<Rightarrow> after st
              | Panic \<Rightarrow> Panic))"

definition handle_contextual_message ::
    "('s, 'a) env \<Rightarrow> address_payload option \<Rightarrow> rpc_header \<Rightarrow> bytes \<Rightarrow> contextual_message \<Rightarrow> address_payload \<Rightarrow> 's txs \<Rightarrow> 's txs res" where
  "handle_contextual_message en sender header tx_id cm receiver st =
     (let kv = en_kv en; cmk = contextual_key header tx_id cm receiver (or_default sender);
          st = on_db (tx_contextual_insert kv tx_id (cm_sealed cm)) st;
          st = (case sender of
                  Some s \<Rightarrow> emit_push en (contextual_event header tx_id cm receiver s)
                             (on_db (contextual_by_sender_insert kv cmk) st)
                | None \<Rightarrow> push_entry ContextualMessageBySender InsertByKeySender (ck_bytes cmk) st)
      in handle_inbox_tag en header tx_id cm receiver sender st)"

definition payment_event ::
    "rpc_header \<Rightarrow> bytes \<Rightarrow> bytes \<Rightarrow> u64 \<Rightarrow> address_payload \<Rightarrow> address_payload \<Rightarrow> push_event" where
  "payment_event header tx_id sealed_hex amount receiver sender =
     \<lparr>pv_kind = PushPayment, pv_watched_address = receiver, pv_sender = sender, pv_receiver = receiver,
      pv_alias = None, pv_tx_id = tx_id, pv_amount = Some amount, pv_payload = Some (utf8_lossy sealed_hex),
      pv_timestamp = bh_timestamp header, pv_daa_score = bh_daa_score header, pv_blinded_group_id = None,
      pv_group_control_recipient = None, pv_inbox_tag = None\<rparr>"

definition handle_payment ::
    "('s, 'a) env \<Rightarrow> rpc_header \<Rightarrow> bytes \<Rightarrow> address_payload \<Rightarrow> u64 \<Rightarrow> bytes \<Rightarrow> address_payload option \<Rightarrow> 's txs \<Rightarrow> 's txs res" where
  "handle_payment en header tx_id receiver amount sealed_hex sender st =
     (let kv = en_kv en; pm_key = hs_receiver_key header tx_id receiver 0;
          by_sender_key = hs_sender_key pm_key (or_default sender);
          st = on_db (tx_payment_insert kv tx_id amount sealed_hex) st
      in rbind (on_db_res (payment_by_receiver_insert kv pm_key sender) st) (\<lambda>st.
         case sender of
           Some s \<Rightarrow>
             (let st = on_db (payment_by_sender_insert kv by_sender_key) st
              in Ok (if s \<noteq> receiver
                     then emit_push en (payment_event header tx_id sealed_hex amount receiver s) st else st))
         | None \<Rightarrow> Ok (push_entry PaymentBySender InsertByKeySender (sk_bytes by_sender_key)
                         (push_entry PaymentByReceiver UpdateValueSender (rk_bytes pm_key) st))))"

definition self_stash_event :: "rpc_header \<Rightarrow> bytes \<Rightarrow> bytes option \<Rightarrow> bytes \<Rightarrow> address_payload \<Rightarrow> push_event" where
  "self_stash_event header tx_id alias sealed_hex sender =
     \<lparr>pv_kind = PushSelfStash, pv_watched_address = sender, pv_sender = sender, pv_receiver = no_address,
      pv_alias = alias, pv_tx_id = tx_id, pv_amount = None, pv_payload = Some (utf8_lossy sealed_hex),
      pv_timestamp = bh_timestamp header, pv_daa_score = bh_daa_score header, pv_blinded_group_id = None,
      pv_group_control_recipient = None, pv_inbox_tag = None\<rparr>"

definition handle_self_stash ::
    "('s, 'a) env \<Rightarrow> address_payload option \<Rightarrow> rpc_header \<Rightarrow> bytes \<Rightarrow> self_stash \<Rightarrow> 's txs \<Rightarrow> 's txs" where
  "handle_self_stash en sender block_header tx_id sss st =
     (let kv = en_kv en; self_stash_alias = Option.bind (ss_key sss) parse_self_stash_alias;
          st = on_db (tx_self_stash_insert kv tx_id (ss_sealed sss)) st;
          key = \<lparr>ok_owner = or_default sender, ok_scope = scope_from (case ss_key sss of Some k \<Rightarrow> k | None \<Rightarrow> []),
                 ok_block_time = bh_timestamp block_header, ok_block_hash = bh_hash block_header,
                 ok_version = 1, ok_tx_id = tx_id\<rparr>
      in case sender of
           Some s \<Rightarrow> emit_push en (self_stash_event block_header tx_id self_stash_alias (ss_sealed sss) s)
                      (on_db (self_stash_insert kv key) st)
         | None \<Rightarrow> push_entry SelfStashByOwner InsertByKeySender (ok_bytes key) st)"

definition group_message_event ::
    "rpc_header \<Rightarrow> bytes \<Rightarrow> bytes \<Rightarrow> bytes \<Rightarrow> address_payload \<Rightarrow> push_event" where
  "group_message_event block tx_id sealed_hex blinded_group_id sender =
     \<lparr>pv_kind = PushGroupMessage, pv_watched_address = no_address, pv_sender = sender, pv_receiver = no_address,
      pv_alias = None, pv_tx_id = tx_id, pv_amount = None, pv_payload = Some (utf8_lossy sealed_hex),
      pv_timestamp = bh_timestamp block, pv_daa_score = bh_daa_score block,
      pv_blinded_group_id = Some blinded_group_id, pv_group_control_recipient = None, pv_inbox_tag = None\<rparr>"

definition handle_group_message ::
    "('s, 'a) env \<Rightarrow> rpc_header \<Rightarrow> bytes \<Rightarrow> group_message \<Rightarrow> address_payload option \<Rightarrow> 's txs \<Rightarrow> 's txs res" where
  "handle_group_message en block tx_id op sender st =
     rbind (or_err (decode_fixed_hex en blinded_group_id_len (gm_blinded_group_id op))) (\<lambda>blinded_group_id.
     rbind (or_err (decode_fixed_hex en 32 (gm_sender_pub op))) (\<lambda>sender_pubkey.
       let kv = en_kv en;
           key = \<lparr>gk_group_id = blinded_group_id, gk_block_time = bh_timestamp block,
                  gk_block_hash = bh_hash block, gk_version = 1, gk_tx_id = tx_id\<rparr>;
           store = (\<lambda>st.
             let st = on_db (tx_group_message_insert kv tx_id (gm_sealed op)) st
             in rbind (on_db_res (group_message_insert kv key sender) st) (\<lambda>st.
                case sender of
                  Some s \<Rightarrow> Ok (emit_push en (group_message_event block tx_id (gm_sealed op) blinded_group_id s) st)
                | None \<Rightarrow> Ok (push_entry GroupMessageByBlindedGroupId UpdateValueSender (gk_bytes key) st)))
       in case sender of
            None \<Rightarrow> store st
          | Some s \<Rightarrow>
              if \<not> matches_xonly_pubkey (en_kp en) s sender_pubkey then Ok st
              else let (bound, d) = check_or_bind kv blinded_group_id sender_pubkey (bp_db (snd st));
                       st = on_db (\<lambda>_. d) st
                   in if \<not> bound then Ok st else store st))"

definition group_control_event ::
    "rpc_header \<Rightarrow> bytes \<Rightarrow> bytes \<Rightarrow> address_payload option \<Rightarrow> address_payload \<Rightarrow> push_event" where
  "group_control_event header tx_id payload recipient sender =
     \<lparr>pv_kind = PushGroupControl, pv_watched_address = sender, pv_sender = sender,
      pv_receiver = or_default recipient, pv_alias = None, pv_tx_id = tx_id, pv_amount = None,
      pv_payload = Some (utf8_lossy payload), pv_timestamp = bh_timestamp header,
      pv_daa_score = bh_daa_score header, pv_blinded_group_id = None,
      pv_group_control_recipient = recipient, pv_inbox_tag = None\<rparr>"

definition control_recipient :: "('s, 'a) env \<Rightarrow> group_control \<Rightarrow> address_payload option res" where
  "control_recipient en gc =
     (case gc_recipient_pubkey gc of
        None \<Rightarrow> Ok None
      | Some hex \<Rightarrow> rbind (or_err (decode_fixed_hex en 32 hex)) (\<lambda>k. Ok (Some (from_xonly_pubkey (en_kp en) k))))"

definition handle_group_control ::
    "('s, 'a) env \<Rightarrow> address_payload option \<Rightarrow> rpc_header \<Rightarrow> bytes \<Rightarrow> group_control \<Rightarrow> 's txs \<Rightarrow> 's txs res" where
  "handle_group_control en sender block_header tx_id gc st =
     rbind (control_recipient en gc) (\<lambda>recipient.
       let kv = en_kv en; st = on_db (tx_group_control_insert kv tx_id (gc_payload gc)) st;
           key = \<lparr>lk_sender = or_default sender, lk_block_time = bh_timestamp block_header,
                  lk_block_hash = bh_hash block_header, lk_version = 1, lk_tx_id = tx_id,
                  lk_recipient = or_default recipient\<rparr>
       in rbind (case recipient of
                   None \<Rightarrow> Ok st
                 | Some r \<Rightarrow>
                     (let recipient_key = hs_receiver_key block_header tx_id r 1
                      in rbind (on_db_res (group_control_by_recipient_insert kv recipient_key sender) st) (\<lambda>st.
                           Ok (if sender = None
                               then push_entry GroupControlByRecipient UpdateValueSender (rk_bytes recipient_key) st
                               else st)))) (\<lambda>st.
          case sender of
            Some s \<Rightarrow> Ok (emit_push en (group_control_event block_header tx_id (gc_payload gc) recipient s)
                           (on_db (group_control_by_sender_insert kv key) st))
          | None \<Rightarrow> Ok (push_entry GroupControlBySender InsertByKeySender (lk_bytes key) st)))"

section \<open>One transaction\<close>

text \<open>Who owns output 0 of a parent transaction.\<close>

definition output0_owner :: "address_payload \<Rightarrow> address_payload option \<Rightarrow> address_payload option" where
  "output0_owner parent_receiver recorded =
     (case recorded of
        Some owner \<Rightarrow> if owner = no_address then None else Some owner
      | None \<Rightarrow> Some parent_receiver)"

text \<open>The outputs that pay a standard address, with their values.\<close>

definition payees :: "'a kaspa \<Rightarrow> (u64 \<times> script_public_key) list \<Rightarrow> (u64 \<times> address_payload) list res" where
  "payees kp outputs =
     rfold (\<lambda>(v, spk) parsed.
         case address_of_script kp spk of Ok addr \<Rightarrow> Ok (parsed @ [(v, addr)]) | Err \<Rightarrow> Ok parsed | Panic \<Rightarrow> Panic)
       outputs []"

definition resolve_primary_receiver ::
    "'a kaspa \<Rightarrow> (u64 \<times> script_public_key) list \<Rightarrow> address_payload option \<Rightarrow> (u64 \<times> address_payload) res" where
  "resolve_primary_receiver kp outputs sender =
     rbind (payees kp outputs) (\<lambda>parsed.
       case parsed of
         [] \<Rightarrow> Ok (0, no_address)
       | p # _ \<Rightarrow>
           Ok (case Option.bind sender (\<lambda>s. find (\<lambda>(_, addr). addr \<noteq> s) parsed) of
                 Some q \<Rightarrow> q | None \<Rightarrow> p))"

text \<open>
  The sender of a transaction: the owner of output 0 of an indexed parent when the first input
  spends that output. The acceptance record is looked up in the committed state \<open>c\<close>, the recorded
  owner in the write transaction.
\<close>

definition resolve_sender ::
    "('s, 'a) env \<Rightarrow> 's keyspace \<Rightarrow> 's keyspace \<Rightarrow> bytes \<times> u32 \<Rightarrow> address_payload option res" where
  "resolve_sender en c d sender_outpoint =
     (if snd sender_outpoint = 0
      then rbind (acceptance_key_of (en_kv en) c (fst sender_outpoint)) (\<lambda>found.
             case found of
               None \<Rightarrow> Ok None
             | Some key \<Rightarrow>
                 rbind (output0_get (en_kv en) (fst sender_outpoint) d) (\<lambda>owner.
                   Ok (output0_owner (ak_receiver key) owner)))
      else Ok None)"

definition output0_address :: "'a kaspa \<Rightarrow> rpc_tx \<Rightarrow> address_payload option res" where
  "output0_address kp tx =
     (case rt_outputs tx of
        [] \<Rightarrow> Ok None
      | (_, spk) # _ \<Rightarrow>
          (case address_of_script kp spk of Ok a \<Rightarrow> Ok (Some a) | Err \<Rightarrow> Ok None | Panic \<Rightarrow> Panic))"

text \<open>Whether personal mode keeps the content of an operation.\<close>

definition store_content ::
    "('s, 'a) env \<Rightarrow> sealed_operation \<Rightarrow> address_payload option \<Rightarrow> address_payload \<Rightarrow> bool" where
  "store_content en op sender receiver =
     (let pe = en_personal en
      in case op of
           GroupMessageV1 gm \<Rightarrow>
             (case decode_fixed_hex en blinded_group_id_len (gm_blinded_group_id gm) of
                Some bid \<Rightarrow> personal_group_message_allows pe sender bid
              | None \<Rightarrow> \<not> personal_filtering_active pe \<or>
                  (case sender of Some s \<Rightarrow> is_personal_address pe s | None \<Rightarrow> False))
         | ContextualMessageV1 cm \<Rightarrow>
             personal_allows pe sender receiver \<or>
             (case Option.bind (cm_inbox_tag cm) (decode_fixed_hex en inbox_tag_len) of
                Some tag \<Rightarrow> is_personal_inbox_tag pe tag | None \<Rightarrow> False)
         | _ \<Rightarrow> personal_allows pe sender receiver)"

definition handle_op ::
    "('s, 'a) env \<Rightarrow> rpc_header \<Rightarrow> bytes \<Rightarrow> sealed_operation \<Rightarrow> address_payload \<Rightarrow> u64 \<Rightarrow> address_payload option \<Rightarrow> 's txs \<Rightarrow> 's txs res" where
  "handle_op en block_header tx_id op receiver amount sender st =
     (case op of
        SealedVNone hk \<Rightarrow> handle_handshake en block_header tx_id hk receiver sender st
      | SealedHandshakeV2 hk \<Rightarrow> handle_handshake_v2 en block_header tx_id hk receiver sender st
      | ContextualMessageV1 cm \<Rightarrow> handle_contextual_message en sender block_header tx_id cm receiver st
      | PaymentV1 pm \<Rightarrow> handle_payment en block_header tx_id receiver amount pm sender st
      | SelfStashV1 sss \<Rightarrow> Ok (handle_self_stash en sender block_header tx_id sss st)
      | GroupMessageV1 gm \<Rightarrow> handle_group_message en block_header tx_id gm sender st
      | GroupControlV1 gc \<Rightarrow> handle_group_control en sender block_header tx_id gc st)"

text \<open>The funds event of the wallet push: who was credited, and which watched addresses paid.\<close>

definition funds_senders :: "('s, 'a) env \<Rightarrow> rpc_tx \<Rightarrow> 's keyspace \<Rightarrow> (address_payload list \<times> 's keyspace) res" where
  "funds_senders en tx d =
     rfold (\<lambda>(prev_tx, index) (senders, d).
         let outpoint = \<lparr>wk_tx_id = prev_tx, wk_index = index\<rparr>
         in rbind (watched_get (en_kv en) outpoint d) (\<lambda>found.
            case found of
              None \<Rightarrow> Ok (senders, d)
            | Some addr \<Rightarrow>
                Ok (if addr \<in> set senders then senders else senders @ [addr],
                    spend_insert (en_kv en) \<lparr>zk_spent_at_ms = en_unix_ms en, zk_outpoint = outpoint\<rparr> d)))
       (rt_inputs tx) ([], d)"

definition funds_credited ::
    "('s, 'a) env \<Rightarrow> rpc_tx \<Rightarrow> bytes \<Rightarrow> 's keyspace \<Rightarrow> ((address_payload \<times> u64) list \<times> 's keyspace) res" where
  "funds_credited en tx tx_id d =
     rfold (\<lambda>(index, v, spk) (credited, d).
         case address_of_script (en_kp en) spk of
           Ok addr \<Rightarrow>
             Ok (if watch_only_contains (en_personal en) addr
                 then (credited @ [(addr, v)],
                       watched_insert (en_kv en) \<lparr>wk_tx_id = tx_id, wk_index = word_of_nat index\<rparr> addr d)
                 else (credited, d))
         | Err \<Rightarrow> Ok (credited, d)
         | Panic \<Rightarrow> Panic)
       (enumerate 0 (rt_outputs tx)) ([], d)"

definition emit_funds_received ::
    "('s, 'a) env \<Rightarrow> rpc_tx \<Rightarrow> bytes \<Rightarrow> rpc_header \<Rightarrow> 's bp \<Rightarrow> 's bp res" where
  "emit_funds_received en tx tx_id block_header b =
     (if \<not> en_push_funds en then Ok b
      else if watch_only_is_empty (en_personal en) then Ok b
      else rbind (funds_senders en tx (bp_db b)) (\<lambda>(senders, d).
           rbind (funds_credited en tx tx_id d) (\<lambda>(credited, d).
             if credited = [] then Ok (b\<lparr>bp_db := d\<rparr>)
             else Ok (b\<lparr>bp_db := d, bp_funds := bp_funds b @
               [\<lparr>fv_credited = credited, fv_senders = senders, fv_tx_id = tx_id,
                 fv_timestamp = bh_timestamp block_header, fv_daa_score = bh_daa_score block_header\<rparr>]\<rparr>))))"

text \<open>
  \<open>handle_transaction\<close>; \<open>c\<close> is the committed state. The owner of output 0 is recorded when it is not
  the receiver, and the acceptance record is written whether or not the content is stored.
\<close>

definition handle_sealed ::
    "('s, 'a) env \<Rightarrow> 's keyspace \<Rightarrow> rpc_header \<Rightarrow> rpc_tx \<Rightarrow> bytes \<Rightarrow> sealed_operation \<Rightarrow> 's bp \<Rightarrow> 's bp res" where
  "handle_sealed en c block_header tx tx_id op b =
     rbind (unwrap (case rt_inputs tx of [] \<Rightarrow> None | i # _ \<Rightarrow> Some i)) (\<lambda>sender_outpoint.
     rbind (resolve_sender en c (bp_db b) sender_outpoint) (\<lambda>sender.
     rbind (resolve_primary_receiver (en_kp en) (rt_outputs tx) sender) (\<lambda>(amount, receiver).
     rbind (output0_address (en_kp en) tx) (\<lambda>output0.
       let st = ([], if output0 \<noteq> Some receiver
                     then b\<lparr>bp_db := output0_insert (en_kv en) tx_id (or_default output0) (bp_db b)\<rparr> else b)
       in rbind (if store_content en op sender receiver
                 then handle_op en block_header tx_id op receiver amount sender st else Ok st) (\<lambda>(entries, b).
          Ok (b\<lparr>bp_db := acceptance_insert (en_kv en) \<lparr>ak_tx_id = tx_id, ak_receiver = receiver\<rparr> entries (bp_db b)\<rparr>))))))"

definition handle_transaction ::
    "('s, 'a) env \<Rightarrow> 's keyspace \<Rightarrow> rpc_header \<Rightarrow> rpc_tx \<Rightarrow> 's bp \<Rightarrow> 's bp res" where
  "handle_transaction en c block_header tx b =
     rbind (or_err (case rt_verbose_id tx of Some i \<Rightarrow> Some i | None \<Rightarrow> en_tx_id en tx)) (\<lambda>tx_id.
     rbind (emit_funds_received en tx tx_id block_header b) (\<lambda>b.
       case parse_sealed_operation (rt_payload tx) of
         None \<Rightarrow> Ok b
       | Some op \<Rightarrow> handle_sealed en c block_header tx tx_id op b))"

section \<open>One block\<close>

definition watched_spend_retention_ms :: u64 where "watched_spend_retention_ms = 24 * 60 * 60 * 1000"
definition watched_prune_interval_ms :: u64 where "watched_prune_interval_ms = 10 * 60 * 1000"
definition watched_prune_batch :: nat where "watched_prune_batch = 10000"

definition prune_watched_spends :: "('s, 'a) env \<Rightarrow> 's keyspace \<Rightarrow> 's bp \<Rightarrow> 's bp res" where
  "prune_watched_spends en c b =
     (if (case bp_last_watched_prune b of
            Some at \<Rightarrow> (if at \<le> en_now en then en_now en - at else 0) < watched_prune_interval_ms
          | None \<Rightarrow> False)
      then Ok b
      else let cutoff_ms = (if watched_spend_retention_ms \<le> en_unix_ms en
                            then en_unix_ms en - watched_spend_retention_ms else 0)
           in rbind (spent_before (en_kv en) c cutoff_ms watched_prune_batch) (\<lambda>expired.
              Ok (b\<lparr>bp_last_watched_prune := Some (en_now en),
                    bp_db := fold (\<lambda>spend d. spend_remove (en_kv en) spend
                                (watched_remove (en_kv en) (zk_outpoint spend) d)) expired (bp_db b)\<rparr>)))"

text \<open>
  \<open>handle_block\<close> on the committed state \<open>c\<close>: the header goes in first, and a block whose header was
  there is skipped. The DAA index is written outside the transaction.
\<close>

definition handle_block :: "('s, 'a) env \<Rightarrow> 's keyspace \<Rightarrow> rpc_block \<Rightarrow> 's bp \<Rightarrow> 's bp res" where
  "handle_block en c block b =
     (let h = rb_header block;
          (already_processed, d) = insert_compact_header (en_kv en) (bh_hash h) (work_le (bh_blue_work h))
            (bh_daa_score h) (bp_db b);
          b = b\<lparr>bp_db := d\<rparr>
      in if already_processed then Ok b
         else let b = b\<lparr>bp_db := daa_index_insert (en_kv en) (bh_daa_score h) (bh_hash h)
                          (work_be (bh_blue_work h)) (bp_db b)\<rparr>
              in rbind (prune_watched_spends en c b) (rfold (handle_transaction en c h) (rb_transactions block)))"

end
