(* ===== verification/Sender_Resolution.thy ===== *)
theory Sender_Resolution
  imports Block_Processor
begin

text \<open>
  \<open>handle_sender_address\<close> of \<open>indexer-actors/src/virtual_chain_processor.rs\<close>: the node has told who
  sent a transaction, and the entries its acceptance record carries are carried out.
\<close>

section \<open>The callbacks\<close>

text \<open>The size of the key an entry carries; no other partition occurs in an entry.\<close>

fun entry_key_len :: "partition_id \<Rightarrow> nat res" where
  "entry_key_len HandshakeByReceiver = Ok 107"
| "entry_key_len HandshakeBySender = Ok 141"
| "entry_key_len ContextualMessageBySender = Ok 157"
| "entry_key_len ContextualMessageByInbox = Ok 56"
| "entry_key_len PaymentByReceiver = Ok 107"
| "entry_key_len PaymentBySender = Ok 141"
| "entry_key_len SelfStashByOwner = Ok 362"
| "entry_key_len GroupMessageByBlindedGroupId = Ok 105"
| "entry_key_len GroupControlByRecipient = Ok 107"
| "entry_key_len GroupControlBySender = Ok 141"
| "entry_key_len _ = Panic"

text \<open>What the callbacks work with: who sent the transaction, its DAA score, and the snapshot \<open>rtx\<close>.\<close>

record ('s, 'a) resolution =
  rs_env :: "('s, 'a) env"
  rs_sender :: address_payload
  rs_daa :: u64
  rs_rtx :: "'s keyspace"

type_synonym 's rw = "'s keyspace \<times> push_event list"

definition expect_action :: "action \<Rightarrow> action \<Rightarrow> 'x res \<Rightarrow> 'x res" where
  "expect_action a b r = (if a \<noteq> b then Panic else r)"

definition stored_payload :: "('s, 'a) resolution \<Rightarrow> partition \<Rightarrow> bytes \<Rightarrow> bytes option" where
  "stored_payload rs p tx_id = map_option utf8_lossy (kv_get (en_kv (rs_env rs)) (rs_rtx rs p) tx_id)"

text \<open>The fields every push event of a resolved entry has in common.\<close>

definition resolved_event ::
    "('s, 'a) resolution \<Rightarrow> push_kind \<Rightarrow> address_payload \<Rightarrow> address_payload \<Rightarrow> bytes \<Rightarrow> bytes option \<Rightarrow> u64 \<Rightarrow> push_event" where
  "resolved_event rs kind watched receiver tx_id payload time =
     \<lparr>pv_kind = kind, pv_watched_address = watched, pv_sender = rs_sender rs, pv_receiver = receiver,
      pv_alias = None, pv_tx_id = tx_id, pv_amount = None, pv_payload = payload, pv_timestamp = time,
      pv_daa_score = rs_daa rs, pv_blinded_group_id = None, pv_group_control_recipient = None,
      pv_inbox_tag = None\<rparr>"

definition on_keyspace :: "('s keyspace \<Rightarrow> 's keyspace) \<Rightarrow> 's rw \<Rightarrow> 's rw" where
  "on_keyspace f w = (f (fst w), snd w)"

definition on_keyspace_res :: "('s keyspace \<Rightarrow> 's keyspace res) \<Rightarrow> 's rw \<Rightarrow> 's rw res" where
  "on_keyspace_res f w = rbind (f (fst w)) (\<lambda>d. Ok (d, snd w))"

definition add_event :: "push_event \<Rightarrow> 's rw \<Rightarrow> 's rw" where
  "add_event e w = (fst w, snd w @ [e])"

definition resolve_handshake_by_receiver ::
    "('s, 'a) resolution \<Rightarrow> action \<Rightarrow> bytes \<Rightarrow> 's rw \<Rightarrow> 's rw res" where
  "resolve_handshake_by_receiver rs act bytes w = expect_action act UpdateValueSender
     (rbind (or_err (rk_read bytes)) (\<lambda>key.
      let payload = stored_payload rs Tx_Id_To_Handshake (rk_tx_id key)
      in rbind (on_keyspace_res (handshake_by_receiver_insert (en_kv (rs_env rs)) key (Some (rs_sender rs))) w) (\<lambda>w.
         Ok (add_event (resolved_event rs PushHandshake (rk_receiver key) (rk_receiver key) (rk_tx_id key)
               payload (rk_block_time key)) w))))"

definition resolve_handshake_by_sender ::
    "('s, 'a) resolution \<Rightarrow> action \<Rightarrow> bytes \<Rightarrow> 's rw \<Rightarrow> 's rw res" where
  "resolve_handshake_by_sender rs act bytes w = expect_action act InsertByKeySender
     (rbind (or_err (sk_read bytes)) (\<lambda>key.
      Ok (on_keyspace (handshake_by_sender_insert (en_kv (rs_env rs)) (key\<lparr>sk_sender := rs_sender rs\<rparr>)) w)))"

definition resolve_contextual_by_sender ::
    "('s, 'a) resolution \<Rightarrow> action \<Rightarrow> bytes \<Rightarrow> 's rw \<Rightarrow> 's rw res" where
  "resolve_contextual_by_sender rs act bytes w = expect_action act InsertByKeySender
     (rbind (or_err (ck_read bytes)) (\<lambda>key.
      let key = key\<lparr>ck_sender := rs_sender rs\<rparr>;
          w = on_keyspace (contextual_by_sender_insert (en_kv (rs_env rs)) key) w;
          payload = stored_payload rs Tx_Id_To_Contextual_Message (ck_tx_id key);
          alias_len = (case position (\<lambda>b. b = 0) (ck_alias key) of Some i \<Rightarrow> i | None \<Rightarrow> length (ck_alias key));
          alias = utf8_lossy (take alias_len (ck_alias key))
      in Ok (add_event ((resolved_event rs PushContextual (rs_sender rs) (ck_receiver key) (ck_tx_id key)
               payload (ck_block_time key))\<lparr>pv_alias := Some alias\<rparr>) w)))"

definition resolve_contextual_by_inbox ::
    "('s, 'a) resolution \<Rightarrow> action \<Rightarrow> bytes \<Rightarrow> 's rw \<Rightarrow> 's rw res" where
  "resolve_contextual_by_inbox rs act bytes w = expect_action act UpdateValueSender
     (rbind (or_err (ik_read bytes)) (\<lambda>key.
      rbind (on_keyspace_res (contextual_by_inbox_insert (en_kv (rs_env rs)) key (Some (rs_sender rs))) w) (\<lambda>w.
      let payload = stored_payload rs Tx_Id_To_Contextual_Message (ik_tx_id key)
      in Ok (add_event ((resolved_event rs PushContextual (rs_sender rs) (rs_sender rs) (ik_tx_id key)
               payload (ik_block_time key))\<lparr>pv_inbox_tag := Some (ik_tag key)\<rparr>) w))))"

definition resolve_payment_by_receiver ::
    "('s, 'a) resolution \<Rightarrow> action \<Rightarrow> bytes \<Rightarrow> 's rw \<Rightarrow> 's rw res" where
  "resolve_payment_by_receiver rs act bytes w = expect_action act UpdateValueSender
     (rbind (or_err (rk_read bytes)) (\<lambda>key.
      rbind (case kv_get (en_kv (rs_env rs)) (rs_rtx rs Tx_Id_To_Payment) (rk_tx_id key) of
               None \<Rightarrow> Ok (None, None)
             | Some v \<Rightarrow> rbind (payment_amount v) (\<lambda>amount. rbind (payment_sealed_hex v) (\<lambda>hex.
                 Ok (Some amount, Some (utf8_lossy hex))))) (\<lambda>(amount, payload).
      rbind (on_keyspace_res (payment_by_receiver_insert (en_kv (rs_env rs)) key (Some (rs_sender rs))) w) (\<lambda>w.
      Ok (if rs_sender rs \<noteq> rk_receiver key
          then add_event ((resolved_event rs PushPayment (rk_receiver key) (rk_receiver key) (rk_tx_id key)
                 payload (rk_block_time key))\<lparr>pv_amount := amount\<rparr>) w
          else w)))))"

definition resolve_payment_by_sender ::
    "('s, 'a) resolution \<Rightarrow> action \<Rightarrow> bytes \<Rightarrow> 's rw \<Rightarrow> 's rw res" where
  "resolve_payment_by_sender rs act bytes w = expect_action act InsertByKeySender
     (rbind (or_err (sk_read bytes)) (\<lambda>key.
      Ok (on_keyspace (payment_by_sender_insert (en_kv (rs_env rs)) (key\<lparr>sk_sender := rs_sender rs\<rparr>)) w)))"

definition resolve_self_stash :: "('s, 'a) resolution \<Rightarrow> action \<Rightarrow> bytes \<Rightarrow> 's rw \<Rightarrow> 's rw res" where
  "resolve_self_stash rs act bytes w = expect_action act InsertByKeySender
     (rbind (or_err (ok_read bytes)) (\<lambda>key.
      let key = key\<lparr>ok_owner := rs_sender rs\<rparr>;
          self_stash_alias = parse_self_stash_alias (ok_scope key);
          w = on_keyspace (self_stash_insert (en_kv (rs_env rs)) key) w;
          payload = stored_payload rs Tx_Id_To_Self_Stash (ok_tx_id key)
      in Ok (add_event ((resolved_event rs PushSelfStash (rs_sender rs) no_address (ok_tx_id key)
               payload (ok_block_time key))\<lparr>pv_alias := self_stash_alias\<rparr>) w)))"

text \<open>A group message is parsed again from its stored payload, and rejected when the sender is not its author.\<close>

definition settle_group_message ::
    "('s, 'a) resolution \<Rightarrow> group_message_key \<Rightarrow> bytes \<Rightarrow> 's rw \<Rightarrow> 's rw res" where
  "settle_group_message rs key payload w =
     (let kv = en_kv (rs_env rs);
          reject = (\<lambda>w. Ok (on_keyspace (\<lambda>d. tx_group_message_remove kv (gk_tx_id key) (group_message_remove kv key d)) w));
          wire_payload = legacy_protocol_prefix @ version_1_part @ ascii ''gcomm:'' @ utf8_lossy payload
      in case parse_sealed_operation wire_payload of
           Some (GroupMessageV1 message) \<Rightarrow>
             rbind (or_err (decode_fixed_hex (rs_env rs) 32 (gm_sender_pub message))) (\<lambda>sender_pubkey.
             if \<not> matches_xonly_pubkey (en_kp (rs_env rs)) (rs_sender rs) sender_pubkey then reject w
             else let (bound, d) = check_or_bind kv (gk_group_id key) sender_pubkey (fst w)
                  in if \<not> bound then reject (d, snd w)
                     else rbind (on_keyspace_res (group_message_insert kv key (Some (rs_sender rs))) (d, snd w)) (\<lambda>w.
                          Ok (add_event ((resolved_event rs PushGroupMessage no_address no_address (gk_tx_id key)
                                (Some (utf8_lossy payload)) (gk_block_time key))
                                \<lparr>pv_blinded_group_id := Some (gk_group_id key)\<rparr>) w)))
         | _ \<Rightarrow> reject w)"

definition resolve_group_message :: "('s, 'a) resolution \<Rightarrow> action \<Rightarrow> bytes \<Rightarrow> 's rw \<Rightarrow> 's rw res" where
  "resolve_group_message rs act bytes w = expect_action act UpdateValueSender
     (rbind (or_err (gk_read bytes)) (\<lambda>key.
      rbind (or_err (kv_get (en_kv (rs_env rs)) (rs_rtx rs Tx_Id_To_Group_Message) (gk_tx_id key))) (\<lambda>payload.
      settle_group_message rs key payload w)))"

definition resolve_group_control_by_recipient ::
    "('s, 'a) resolution \<Rightarrow> action \<Rightarrow> bytes \<Rightarrow> 's rw \<Rightarrow> 's rw res" where
  "resolve_group_control_by_recipient rs act bytes w = expect_action act UpdateValueSender
     (rbind (or_err (rk_read bytes)) (\<lambda>key.
      on_keyspace_res (group_control_by_recipient_insert (en_kv (rs_env rs)) key (Some (rs_sender rs))) w))"

definition resolve_group_control_by_sender ::
    "('s, 'a) resolution \<Rightarrow> action \<Rightarrow> bytes \<Rightarrow> 's rw \<Rightarrow> 's rw res" where
  "resolve_group_control_by_sender rs act bytes w = expect_action act InsertByKeySender
     (rbind (or_err (lk_read bytes)) (\<lambda>key.
      let key = key\<lparr>lk_sender := rs_sender rs\<rparr>;
          w = on_keyspace (group_control_by_sender_insert (en_kv (rs_env rs)) key) w;
          payload = stored_payload rs Tx_Id_To_Group_Control (lk_tx_id key);
          recipient = (if lk_recipient key \<noteq> no_address then Some (lk_recipient key) else None)
      in Ok (add_event ((resolved_event rs PushGroupControl (rs_sender rs) (lk_recipient key) (lk_tx_id key)
               payload (lk_block_time key))\<lparr>pv_group_control_recipient := recipient\<rparr>) w)))"

fun resolve_entry :: "('s, 'a) resolution \<Rightarrow> partition_id \<Rightarrow> action \<Rightarrow> bytes \<Rightarrow> 's rw \<Rightarrow> 's rw res" where
  "resolve_entry rs HandshakeByReceiver = resolve_handshake_by_receiver rs"
| "resolve_entry rs HandshakeBySender = resolve_handshake_by_sender rs"
| "resolve_entry rs ContextualMessageBySender = resolve_contextual_by_sender rs"
| "resolve_entry rs ContextualMessageByInbox = resolve_contextual_by_inbox rs"
| "resolve_entry rs PaymentByReceiver = resolve_payment_by_receiver rs"
| "resolve_entry rs PaymentBySender = resolve_payment_by_sender rs"
| "resolve_entry rs SelfStashByOwner = resolve_self_stash rs"
| "resolve_entry rs GroupMessageByBlindedGroupId = resolve_group_message rs"
| "resolve_entry rs GroupControlByRecipient = resolve_group_control_by_recipient rs"
| "resolve_entry rs GroupControlBySender = resolve_group_control_by_sender rs"
| "resolve_entry rs _ = (\<lambda>_ _ _. Panic)"

section \<open>The handler\<close>

text \<open>
  \<open>handle_sender_address\<close> on the committed state \<open>d\<close>: the new state and the events handed to the
  push queue once the transaction has committed.
\<close>

definition handle_sender_address ::
    "('s, 'a) env \<Rightarrow> 'a \<Rightarrow> bytes \<Rightarrow> u64 \<Rightarrow> 's keyspace \<Rightarrow> 's rw res" where
  "handle_sender_address en address tx_id daa d =
     rbind (payload_of (en_kp en) address) (\<lambda>sender.
     rbind (acceptance_key_of (en_kv en) d tx_id) (\<lambda>found.
     rbind (unwrap found) (\<lambda>key.
       let rs = \<lparr>rs_env = en, rs_sender = sender, rs_daa = daa, rs_rtx = d\<rparr>;
           w = pending_remove (en_kv en) \<lparr>pk_daa = daa, pk_tx_id = tx_id\<rparr> d
       in rbind (resolve_entries (en_kv en) key entry_key_len (resolve_entry rs) (w, [])) (\<lambda>(_, d, events).
          Ok (d, if en_push en then events else [])))))"

end
