(* ===== verification/Deferred.thy ===== *)
theory Deferred
  imports Sender_Resolution
begin

text \<open>
  Storing an operation before its sender is known and storing it with the sender come to the same:
  the entries left in the acceptance record, carried out when the sender arrives, complete the
  message indexes exactly as the handlers would have done at once.
\<close>

section \<open>The indexer\<close>

text \<open>An indexer whose crates behave as documented.\<close>

locale indexer =
  fixes en :: "('s, 'a) env"
  assumes kv: "kv_laws (en_kv en)" and kaspa: "kaspa_laws (en_kp en)" and hex: "hex_laws (en_hex_decode en)"

sublocale indexer \<subseteq> engine "en_kv en"
  by unfold_locales (rule kv)

text \<open>The partitions whose values are senders, and states in which each can be read.\<close>

definition sender_partitions :: "partition set" where
  "sender_partitions =
     {Handshake_By_Receiver, Contextual_Message_By_Inbox, Payment_By_Receiver,
      Group_Message_By_Blinded_Group_Id, Group_Control_By_Recipient}"

definition senders_ok :: "'s kv \<Rightarrow> 's keyspace \<Rightarrow> bool" where
  "senders_ok kv d \<longleftrightarrow> (\<forall>p \<in> sender_partitions. \<forall>k. sender_value_ok (obs kv d p k))"

text \<open>Two states with the same message indexes: they agree but for acceptance and pending requests.\<close>

definition same_index :: "'s kv \<Rightarrow> 's keyspace \<Rightarrow> 's keyspace \<Rightarrow> bool" where
  "same_index kv d d' \<longleftrightarrow>
     (\<forall>p. p \<noteq> Tx_Id_To_Acceptance \<and> p \<noteq> Pending_Sender_Resolution \<longrightarrow> obs kv d p = obs kv d' p)"

definition header_ok :: "rpc_header \<Rightarrow> bool" where
  "header_ok h \<longleftrightarrow> length (bh_hash h) = 32"

definition entry_ok :: "insertion_entry \<Rightarrow> bool" where
  "entry_ok e \<longleftrightarrow> entry_key_len (ie_partition e) = Ok (length (ie_key e))"

named_theorems handler_defs \<open>what a handler does to its state\<close>

declare on_db_def [handler_defs] on_db_res_def [handler_defs] push_entry_def [handler_defs]
  on_keyspace_def [handler_defs] on_keyspace_res_def [handler_defs] add_event_def [handler_defs]
  expect_action_def [handler_defs]

lemma emit_push_db [simp]: "fst (emit_push en e st) = fst st" "bp_db (snd (emit_push en e st)) = bp_db (snd st)"
  by (simp_all add: emit_push_def)

lemma key_ok_intros:
  assumes "header_ok h" "length t = 32" "address_ok r" "address_ok s"
  shows "rk_ok (hs_receiver_key h t r v)" "sk_ok (hs_sender_key (hs_receiver_key h t r v) s)"
    "ck_ok (contextual_key h t cm r s)"
  using assms by (simp_all add: header_ok_def key_ok_defs hs_receiver_key_def hs_sender_key_def contextual_key_def)

definition same_result :: "'s kv \<Rightarrow> 's rw res \<Rightarrow> 's keyspace \<Rightarrow> bool" where
  "same_result kv r d \<longleftrightarrow> (case r of Ok w \<Rightarrow> same_index kv (fst w) d | Err \<Rightarrow> False | Panic \<Rightarrow> False)"

definition carry_out :: "('s, 'a) resolution \<Rightarrow> insertion_entry list \<Rightarrow> 's keyspace \<Rightarrow> 's rw res" where
  "carry_out rs es d = rfold (\<lambda>e. resolve_entry rs (ie_partition e) (ie_action e) (ie_key e)) es (d, [])"

text \<open>
  Storing an operation before its sender is known, and resolving the entries it left, comes to
  storing it with the sender.
\<close>

definition defers ::
    "('s, 'a) env \<Rightarrow> address_payload \<Rightarrow> 's txs res \<Rightarrow> 's txs res \<Rightarrow> bool" where
  "defers en s unknown known \<longleftrightarrow>
     (case unknown of
        Ok u \<Rightarrow>
          (case known of
             Ok k \<Rightarrow> fst k = [] \<and> list_all entry_ok (fst u) \<and>
               (\<forall>d rs. same_index (en_kv en) d (bp_db (snd u)) \<longrightarrow>
                  same_index (en_kv en) (rs_rtx rs) (bp_db (snd u)) \<longrightarrow> rs_env rs = en \<longrightarrow> rs_sender rs = s \<longrightarrow>
                  same_result (en_kv en) (carry_out rs (fst u) d) (bp_db (snd k)))
           | Err \<Rightarrow> False | Panic \<Rightarrow> False)
      | Err \<Rightarrow> False | Panic \<Rightarrow> False)"

text \<open>What the handlers are given: byte strings of the right lengths, and a state whose senders can be read.\<close>

definition ready :: "'s kv \<Rightarrow> rpc_header \<Rightarrow> bytes \<Rightarrow> address_payload \<Rightarrow> address_payload \<Rightarrow> 's bp \<Rightarrow> bool" where
  "ready kv h t r s b \<longleftrightarrow>
     header_ok h \<and> length t = 32 \<and> address_ok r \<and> address_ok s \<and> senders_ok kv (bp_db b)"

lemma ready_keys:
  assumes "ready kv h t r s b"
  shows "rk_ok (hs_receiver_key h t r v)" "sk_ok (hs_sender_key (hs_receiver_key h t r v) s)"
    "sk_ok (hs_sender_key (hs_receiver_key h t r v) no_address)"
    "ck_ok (contextual_key h t cm r s)" "ck_ok (contextual_key h t cm r no_address)" "address_ok s"
  using assms by (simp_all add: ready_def header_ok_def key_ok_defs hs_receiver_key_def hs_sender_key_def contextual_key_def)

lemma ready_senders:
  "ready kv h t r s b \<Longrightarrow> p \<in> sender_partitions \<Longrightarrow> sender_value_ok (obs kv (bp_db b) p k)"
  by (simp add: ready_def senders_ok_def)

lemma in_sender_partitions [simp]:
  "Handshake_By_Receiver \<in> sender_partitions" "Contextual_Message_By_Inbox \<in> sender_partitions"
  "Payment_By_Receiver \<in> sender_partitions" "Group_Message_By_Blinded_Group_Id \<in> sender_partitions"
  "Group_Control_By_Recipient \<in> sender_partitions"
  by (simp_all add: sender_partitions_def)

lemma with_sender_key [simp]:
  "(hs_sender_key k a)\<lparr>sk_sender := s\<rparr> = hs_sender_key k s"
  "(contextual_key h t cm r a)\<lparr>ck_sender := s\<rparr> = contextual_key h t cm r s"
  "rk_tx_id (hs_receiver_key h t r v) = t" "rk_receiver (hs_receiver_key h t r v) = r"
  by (simp_all add: hs_sender_key_def contextual_key_def hs_receiver_key_def)

lemmas resolve_simps =
  resolve_handshake_by_receiver_def resolve_handshake_by_sender_def resolve_contextual_by_sender_def
  resolve_contextual_by_inbox_def resolve_payment_by_receiver_def resolve_payment_by_sender_def
  resolve_self_stash_def resolve_group_control_by_recipient_def resolve_group_control_by_sender_def
lemmas defer_simps =
  defers_def carry_out_def same_result_def same_index_def fill_later
  Let_def handler_defs index_defs entry_ok_def resolve_simps

context indexer begin

lemma deferred_handshake:
  assumes "ready (en_kv en) h t r s b"
  shows "defers en s (handle_handshake en h t hex r None ([], b)) (handle_handshake en h t hex r (Some s) ([], b))"
    "defers en s (handle_handshake_v2 en h t hex r None ([], b)) (handle_handshake_v2 en h t hex r (Some s) ([], b))"
  by (simp_all add: handle_handshake_def handle_handshake_v2_def insert_with_sender_Ok
      ready_keys [OF assms] ready_senders [OF assms] defer_simps)

lemma deferred_payment:
  assumes "ready (en_kv en) h t r s b"
  shows "defers en s (handle_payment en h t r amt hex None ([], b)) (handle_payment en h t r amt hex (Some s) ([], b))"
  by (simp add: handle_payment_def insert_with_sender_Ok ready_keys [OF assms] ready_senders [OF assms] defer_simps
      obs_def [of _ _ Tx_Id_To_Payment, symmetric] payment_amount_def payment_sealed_hex_def le64_def)

lemma decode_hex:
  assumes "length b = n * 2" and "list_all is_ascii_hexdigit b"
  shows "\<exists>d. decode_fixed_hex en n b = Some d \<and> length d = n"
  using hex assms by (auto simp: hex_laws_def decode_fixed_hex_def)

lemma decode_fixed: "is_fixed_hex b n \<Longrightarrow> \<exists>d. decode_fixed_hex en n b = Some d \<and> length d = n"
  by (simp add: is_fixed_hex_def decode_hex)

lemma decode_lowercase: "is_lowercase_hex b n \<Longrightarrow> \<exists>d. decode_fixed_hex en n b = Some d \<and> length d = n"
  by (intro decode_hex) (auto simp: is_lowercase_hex_def is_ascii_hexdigit_def list_all_iff)

lemma deferred_contextual:
  assumes "ready (en_kv en) h t r s b" and "op_ok (ContextualMessageV1 cm)"
  shows "defers en s (handle_contextual_message en None h t cm r ([], b))
    (handle_contextual_message en (Some s) h t cm r ([], b))"
proof (cases "cm_inbox_tag cm")
  case None
  then show ?thesis
    by (simp add: handle_contextual_message_def handle_inbox_tag_def ready_keys [OF assms(1)] defer_simps)
next
  case (Some hex)
  then obtain tag where tag: "decode_fixed_hex en inbox_tag_len hex = Some tag" "length tag = 16"
    using assms(2) decode_lowercase by (fastforce simp: inbox_tag_len_def)
  then have ik: "ik_ok \<lparr>ik_tag = tag, ik_block_time = bh_timestamp h, ik_tx_id = t\<rparr>"
    using assms(1) by (simp add: ik_ok_def ready_def)
  show ?thesis
    by (simp add: handle_contextual_message_def handle_inbox_tag_def Some tag ik insert_with_sender_Ok
        ready_keys [OF assms(1)] ready_senders [OF assms(1)] defer_simps)
qed

lemma deferred_self_stash:
  assumes "ready (en_kv en) h t r s b"
  shows "defers en s (Ok (handle_self_stash en None h t sss ([], b))) (Ok (handle_self_stash en (Some s) h t sss ([], b)))"
proof -
  have "ok_ok \<lparr>ok_owner = a, ok_scope = scope_from x, ok_block_time = bh_timestamp h, ok_block_hash = bh_hash h,
      ok_version = 1, ok_tx_id = t\<rparr>" if "address_ok a" for a x
    using assms that by (simp add: ready_def ok_ok_def header_ok_def)
  then show ?thesis by (simp add: handle_self_stash_def ready_keys [OF assms] defer_simps)
qed

lemma deferred_group_control:
  assumes "ready (en_kv en) h t r s b" and "op_ok (GroupControlV1 gc)"
  shows "defers en s (handle_group_control en None h t gc ([], b)) (handle_group_control en (Some s) h t gc ([], b))"
proof -
  note r = ready_senders [OF assms(1)] ready_keys [OF assms(1)]
  have lk: "lk_ok \<lparr>lk_sender = a, lk_block_time = bh_timestamp h, lk_block_hash = bh_hash h, lk_version = 1,
      lk_tx_id = t, lk_recipient = c\<rparr>" if "address_ok a" "address_ok c" for a c
    using assms(1) that by (simp add: ready_def lk_ok_def header_ok_def)
  show ?thesis
  proof (cases "gc_recipient_pubkey gc")
    case None
    then show ?thesis
      by (simp add: handle_group_control_def control_recipient_def lk r defer_simps)
  next
    case (Some hex)
    then obtain k where k: "decode_fixed_hex en 32 hex = Some k" "length k = 32"
      using assms(2) decode_fixed by fastforce
    then have a: "address_ok (from_xonly_pubkey (en_kp en) k)" by (simp add: from_xonly_pubkey_def address_ok_def)
    then have "rk_ok (hs_receiver_key h t (from_xonly_pubkey (en_kp en) k) 1)"
      using assms(1) by (simp add: ready_def rk_ok_def hs_receiver_key_def header_ok_def)
    with a show ?thesis
      by (simp add: handle_group_control_def control_recipient_def Some k lk r insert_with_sender_Ok defer_simps)
  qed
qed

text \<open>The stored text of a group message reads back as the message.\<close>

lemma group_text_reads:
  assumes "group_ok gm"
  shows "parse_sealed_operation (legacy_protocol_prefix @ version_1_part @ ascii ''gcomm:'' @ utf8_lossy (gm_sealed gm)) =
    Some (GroupMessageV1 gm)"
proof -
  have hex: "is_ascii_hexdigit c \<Longrightarrow> c < 0x80" "is_ascii_digit c \<Longrightarrow> c < 0x80" for c
    by (auto simp: ascii_class_defs word_less_nat_alt word_le_nat_alt)
  have "\<forall>c \<in> set (gm_sealed gm). c < 0x80"
    using assms hex by (auto simp: group_ok_def is_fixed_hex_def is_nonempty_hex_def epoch_ok_def list_all_iff)
  then have "utf8_lossy (gm_sealed gm) = gm_sealed gm" by (rule ascii_utf8_lossy)
  moreover have "parse_gcomm (gm_sealed gm) = Some (GroupMessageV1 gm)" using assms by (simp add: parse_gcomm_iff)
  ultimately show ?thesis by (simp add: parse_sealed_prefix parse_v1_arms)
qed

lemma deferred_group_message:
  assumes "ready (en_kv en) h t r s b" and "op_ok (GroupMessageV1 gm)"
    and unseen: "obs (en_kv en) (bp_db b) Tx_Id_To_Group_Message t = None"
      "\<And>k. gk_tx_id k = t \<Longrightarrow> obs (en_kv en) (bp_db b) Group_Message_By_Blinded_Group_Id (gk_bytes k) = None"
  shows "defers en s (handle_group_message en h t gm None ([], b)) (handle_group_message en h t gm (Some s) ([], b))"
proof -
  note r = ready_senders [OF assms(1)] ready_keys [OF assms(1)]
  obtain g where g: "decode_fixed_hex en blinded_group_id_len (gm_blinded_group_id gm) = Some g" "length g = 32"
    using assms(2) decode_fixed by (fastforce simp: group_ok_def blinded_group_id_len_def)
  obtain k where k: "decode_fixed_hex en 32 (gm_sender_pub gm) = Some k" "length k = 32"
    using assms(2) decode_fixed by (fastforce simp: group_ok_def)
  have gk: "gk_ok \<lparr>gk_group_id = g, gk_block_time = bh_timestamp h, gk_block_hash = bh_hash h, gk_version = 1, gk_tx_id = t\<rparr>"
    using assms(1) g by (simp add: ready_def gk_ok_def header_ok_def)
  let ?bound = "case obs (en_kv en) (bp_db b) Group_Sender_Binding g of Some v \<Rightarrow> v = k | None \<Rightarrow> True"
  note simps = handle_group_message_def g k gk r insert_with_sender_Ok defer_simps resolve_group_message_def settle_group_message_def
    obs_def [of _ _ Tx_Id_To_Group_Message, symmetric] group_text_reads unseen check_or_bind_obs case_prod_unfold
  consider "\<not> matches_xonly_pubkey (en_kp en) s k" | "matches_xonly_pubkey (en_kp en) s k" "\<not> ?bound"
    | "matches_xonly_pubkey (en_kp en) s k" ?bound by blast
  then show ?thesis
  proof cases
    case 1
    then show ?thesis using assms(2) by (simp add: simps fun_upd_idem)
  next
    case 2
    then show ?thesis using assms(2) by (simp add: simps fun_upd_idem split: option.splits)
  next
    case 3
    then show ?thesis using assms(2) by (simp add: simps split: option.splits)
  qed
qed

end

text \<open>No trace yet of a transaction in the group message partitions.\<close>

definition unseen_group_message :: "'s kv \<Rightarrow> bytes \<Rightarrow> 's keyspace \<Rightarrow> bool" where
  "unseen_group_message kv t d \<longleftrightarrow> obs kv d Tx_Id_To_Group_Message t = None \<and>
     (\<forall>k. gk_tx_id k = t \<longrightarrow> obs kv d Group_Message_By_Blinded_Group_Id (gk_bytes k) = None)"

context indexer begin

lemma deferred_op:
  assumes "ready (en_kv en) h t r s b" and "op_ok op" and "unseen_group_message (en_kv en) t (bp_db b)"
  shows "defers en s (handle_op en h t op r amt None ([], b)) (handle_op en h t op r amt (Some s) ([], b))"
  using assms deferred_handshake [OF assms(1)] deferred_payment [OF assms(1)] deferred_contextual [OF assms(1)]
    deferred_self_stash [OF assms(1)] deferred_group_control [OF assms(1)] deferred_group_message [OF assms(1)]
  by (cases op) (auto simp: handle_op_def unseen_group_message_def)

end

section \<open>What the handlers leave alone\<close>

lemma other_partition [simp]:
  "q \<noteq> p \<Longrightarrow> put kv p k v d q = d q" "q \<noteq> p \<Longrightarrow> del kv p k d q = d q"
  "q \<noteq> p \<Longrightarrow> with_sender kv p k s d q = d q"
  "q \<noteq> Group_Sender_Binding \<Longrightarrow> snd (check_or_bind kv g k d) q = d q"
  by (simp_all add: put_def del_def with_sender_def check_or_bind_def case_prod_unfold Let_def)

lemma insert_with_sender_iff:
  "insert_with_sender kv p k s d = Ok d' \<longleftrightarrow>
     d' = with_sender kv p k s d \<and> \<not> (case kv_get kv (d p) k of Some old \<Rightarrow> read_address old = None | None \<Rightarrow> False)"
  by (auto simp: insert_with_sender_def)

lemma emit_push_state: "emit_push en e st = (es, c) \<Longrightarrow> bp_db c = bp_db (snd st) \<and> es = fst st"
  by (metis emit_push_db fst_conv snd_conv)

text \<open>The partitions the message handlers never write.\<close>

definition chain_partitions :: "partition set" where
  "chain_partitions =
     {Block_Compact_Header, Daa_Index_Compact_Header, Block_Gaps, Metadata_Store, Tx_Id_To_Acceptance,
      Tx_Output0_Owner, Watched_Outpoints, Watched_Outpoint_Spends, Accepting_Block_To_Tx_Id,
      Pending_Sender_Resolution}"

lemma handle_op_chain:
  assumes "handle_op en h t op r amt snd_opt ([], b) = Ok (es, b')" and "q \<in> chain_partitions"
  shows "bp_db b' q = bp_db b q"
  using assms
  by (cases op)
    (auto simp: chain_partitions_def handle_op_def handle_handshake_def handle_handshake_v2_def handle_contextual_message_def
      handle_inbox_tag_def handle_payment_def handle_self_stash_def handle_group_message_def handle_group_control_def
      Let_def handler_defs index_defs rbind_eq_Ok case_prod_unfold insert_with_sender_iff control_recipient_def
      dest!: emit_push_state split: option.splits if_splits res.splits)

end
