(* ===== verification/Virtual_Chain.thy ===== *)
theory Virtual_Chain
  imports Sender_Resolution
begin

text \<open>
  \<open>indexer-actors/src/virtual_chain_processor.rs\<close>: the processor that follows the node's virtual
  chain. It records which block accepted a transaction, asks for the senders that are still unknown,
  and moves between three states: before the first connection, catching up with a syncer, and
  following the node's notifications. Commands and acknowledgements it sends are listed in the
  order sent. The clock that only decides when a warning is logged is left out.
\<close>

section \<open>Data\<close>

record compact_header =
  ch_block_hash :: bytes
  ch_blue_work :: blue_work
  ch_daa_score :: u64

definition compact_header_of :: "rpc_header \<Rightarrow> compact_header" where
  "compact_header_of h = \<lparr>ch_block_hash = bh_hash h, ch_blue_work = bh_blue_work h, ch_daa_score = bh_daa_score h\<rparr>"

text \<open>\<open>VirtualChainChangedNotification\<close> and \<open>GetVirtualChainFromBlockResponse\<close> carry the same fields.\<close>

record vcc =
  vc_removed :: "bytes list"
  vc_added :: "bytes list"
  vc_accepted :: "(bytes \<times> bytes list) list" \<comment> \<open>accepting block, accepted transactions\<close>

text \<open>The cursor with the blue work as a number, and its form in the database.\<close>

record cursor =
  cu_blue_work :: blue_work
  cu_block_hash :: bytes
  cu_daa_score :: u64

definition cursor_of_db :: "db_cursor \<Rightarrow> cursor" where
  "cursor_of_db c = \<lparr>cu_blue_work = word_of_nat (from_be (dc_blue_work c)), cu_block_hash = dc_block_hash c,
     cu_daa_score = dc_daa c\<rparr>"

definition cursor_to_db :: "cursor \<Rightarrow> db_cursor" where
  "cursor_to_db c = \<lparr>dc_blue_work = work_be (cu_blue_work c), dc_block_hash = cu_block_hash c, dc_daa = cu_daa_score c\<rparr>"

text \<open>
  \<open>ringmap::RingMap\<close> from block hashes to DAA score and blue work, as a parameter: a map that keeps
  the order of insertion and can drop its oldest entry.
\<close>

record 'm ring =
  rg_new :: 'm
  rg_insert :: "bytes \<Rightarrow> u64 \<times> blue_work \<Rightarrow> 'm \<Rightarrow> 'm"
  rg_pop_front :: "'m \<Rightarrow> 'm"
  rg_get :: "'m \<Rightarrow> bytes \<Rightarrow> (u64 \<times> blue_work) option"
  rg_len :: "'m \<Rightarrow> nat"

definition rg_contains :: "'m ring \<Rightarrow> 'm \<Rightarrow> bytes \<Rightarrow> bool" where
  "rg_contains rg m h \<longleftrightarrow> rg_get rg m h \<noteq> None"

datatype ack = Continue | Stop

datatype vp_out =
    RequestSender u64 bytes
  | SpawnSyncer u64 bytes
  | SendAck u64 ack

datatype sync_state =
    Initial
  | Synced (last_syncer_id: u64) (accepting: "bytes \<times> blue_work")
  | Syncing (accepting: "bytes \<times> blue_work") (syncer_id: u64) (target: "bytes \<times> blue_work") (sync_queue: "vcc option")

record ('s, 'm) vp =
  vp_db :: "'s keyspace"
  vp_shutting_down :: bool
  vp_processed_blocks :: 'm
  vp_realtime_queue :: "vcc list"
  vp_sync :: sync_state
  vp_outs :: "vp_out list"
  vp_pushes :: "push_event list"

text \<open>The crates and settings of the processor.\<close>

record ('s, 'a, 'm) vp_env =
  ve_env :: "('s, 'a) env"
  ve_ring :: "'m ring"
  ve_synced_capacity :: nat

abbreviation ve_kv :: "('s, 'a, 'm) vp_env \<Rightarrow> 's kv" where
  "ve_kv ve \<equiv> en_kv (ve_env ve)"

definition vp_new :: "('s, 'a, 'm) vp_env \<Rightarrow> 's keyspace \<Rightarrow> compact_header list \<Rightarrow> bool \<Rightarrow> ('s, 'm) vp" where
  "vp_new ve d processed_blocks asc_order =
     \<lparr>vp_db = d, vp_shutting_down = False,
      vp_processed_blocks = fold (\<lambda>ch. rg_insert (ve_ring ve) (ch_block_hash ch) (ch_daa_score ch, ch_blue_work ch))
        (if asc_order then processed_blocks else rev processed_blocks) (rg_new (ve_ring ve)),
      vp_realtime_queue = [], vp_sync = Initial, vp_outs = [], vp_pushes = []\<rparr>"

definition emit :: "vp_out \<Rightarrow> ('s, 'm) vp \<Rightarrow> ('s, 'm) vp" where
  "emit out st = st\<lparr>vp_outs := vp_outs st @ [out]\<rparr>"

section \<open>Chain changes\<close>

text \<open>
  \<open>handle_vcc_removal\<close>: the removed block's transactions are no longer listed under it and their
  sender requests are dropped; \<open>c\<close> is the committed state. The acceptance record is written with the
  removed block itself.
\<close>

definition handle_vcc_removal ::
    "('s, 'a, 'm) vp_env \<Rightarrow> 'm \<Rightarrow> 's keyspace \<Rightarrow> bytes \<Rightarrow> 's keyspace \<Rightarrow> 's keyspace res" where
  "handle_vcc_removal ve blocks c block d =
     (case accepting_remove (ve_kv ve) block d of
        (None, d) \<Rightarrow> Ok d
      | (Some tracked_tx_ids, d) \<Rightarrow>
          rbind (unwrap (rg_get (ve_ring ve) blocks block)) (\<lambda>(daa, _).
            rfold (\<lambda>tx_id d.
                rbind (acceptance_key_of (ve_kv ve) c tx_id) (\<lambda>found.
                rbind (unwrap found) (\<lambda>key.
                rbind (acceptance_update (ve_kv ve) key block daa d) (\<lambda>(lookup_results, d).
                  Ok (if lookup_results = KeysExistsWithEntries
                      then pending_remove (ve_kv ve) \<lparr>pk_daa = daa, pk_tx_id = tx_id\<rparr> d else d)))))
              tracked_tx_ids d))"

definition track_acceptance ::
    "('s, 'a, 'm) vp_env \<Rightarrow> 's keyspace \<Rightarrow> bytes \<Rightarrow> u64 \<Rightarrow> bytes \<Rightarrow>
     bytes list \<times> 's keyspace \<times> vp_out list \<Rightarrow> (bytes list \<times> 's keyspace \<times> vp_out list) res" where
  "track_acceptance ve c block_hash daa tx = (\<lambda>(tracked_tx_ids, d, outs).
     rbind (acceptance_key_of (ve_kv ve) c tx) (\<lambda>found.
       case found of
         None \<Rightarrow> Ok (tracked_tx_ids, d, outs)
       | Some key \<Rightarrow>
           rbind (acceptance_update (ve_kv ve) key block_hash daa d) (\<lambda>(lookup_results, d).
             Ok (case lookup_results of
                   KeyDoesNotExist \<Rightarrow> (tracked_tx_ids, d, outs)
                 | KeyExistsNoEntries \<Rightarrow> (tracked_tx_ids @ [ak_tx_id key], d, outs)
                 | KeysExistsWithEntries \<Rightarrow>
                     (tracked_tx_ids @ [ak_tx_id key], pending_insert (ve_kv ve) \<lparr>pk_daa = daa, pk_tx_id = tx\<rparr> d,
                      outs @ [RequestSender daa tx])))))"

definition handle_vcc_addition ::
    "('s, 'a, 'm) vp_env \<Rightarrow> 'm \<Rightarrow> 's keyspace \<Rightarrow> bytes \<times> bytes list \<Rightarrow>
     's keyspace \<times> vp_out list \<Rightarrow> ('s keyspace \<times> vp_out list) res" where
  "handle_vcc_addition ve blocks c = (\<lambda>(block_hash, accepted) (d, outs).
     rbind (unwrap (rg_get (ve_ring ve) blocks block_hash)) (\<lambda>(daa, _).
     rbind (rfold (track_acceptance ve c block_hash daa) accepted ([], d, outs)) (\<lambda>(tracked_tx_ids, d, outs).
       Ok (accepting_insert (ve_kv ve) block_hash tracked_tx_ids d, outs))))"

text \<open>\<open>handle_vcc\<close>, and \<open>handle_vc_resp\<close> with the same body: all of it in one transaction.\<close>

definition handle_vcc ::
    "('s, 'a, 'm) vp_env \<Rightarrow> vcc \<Rightarrow> ('s, 'm) vp \<Rightarrow> ((bytes \<times> blue_work) \<times> ('s, 'm) vp) res" where
  "handle_vcc ve vcc st =
     (let blocks = vp_processed_blocks st; c = vp_db st
      in rbind (rfold (handle_vcc_removal ve blocks c) (vc_removed vcc) c) (\<lambda>d.
         rbind (rfold (handle_vcc_addition ve blocks c) (vc_accepted vcc) (d, vp_outs st)) (\<lambda>(d, outs).
         rbind (if vc_added vcc = [] then Panic else Ok (last (vc_added vcc))) (\<lambda>last_block.
         rbind (unwrap (rg_get (ve_ring ve) blocks last_block)) (\<lambda>(last_daa, last_blue_work).
         rbind (set_latest_accepting_cursor (ve_kv ve)
             (cursor_to_db \<lparr>cu_blue_work = last_blue_work, cu_block_hash = last_block, cu_daa_score = last_daa\<rparr>) d) (\<lambda>d.
           Ok ((last_block, last_blue_work), st\<lparr>vp_db := d, vp_outs := outs\<rparr>)))))))"

definition handle_vc_resp ::
    "('s, 'a, 'm) vp_env \<Rightarrow> vcc \<Rightarrow> ('s, 'm) vp \<Rightarrow> ((bytes \<times> blue_work) \<times> ('s, 'm) vp) res" where
  "handle_vc_resp = handle_vcc"

definition vcc_empty :: "vcc \<Rightarrow> bool" where
  "vcc_empty vcc \<longleftrightarrow> vc_removed vcc = [] \<and> vc_added vcc = []"

text \<open>Some added block has not been processed yet.\<close>

definition not_ready :: "('s, 'a, 'm) vp_env \<Rightarrow> vcc \<Rightarrow> ('s, 'm) vp \<Rightarrow> bool" where
  "not_ready ve vcc st \<longleftrightarrow> (\<exists>hash \<in> set (vc_added vcc). \<not> rg_contains (ve_ring ve) (vp_processed_blocks st) hash)"

section \<open>The state machine\<close>

definition request_pending :: "('s, 'a, 'm) vp_env \<Rightarrow> ('s, 'm) vp \<Rightarrow> ('s, 'm) vp res" where
  "request_pending ve st =
     rbind (get_all_pending (ve_kv ve) (vp_db st)) (\<lambda>keys.
       Ok (fold (\<lambda>k. emit (RequestSender (pk_daa k) (pk_tx_id k))) keys st))"

definition start_syncer ::
    "u64 \<Rightarrow> bytes \<times> blue_work \<Rightarrow> bytes \<times> blue_work \<Rightarrow> ('s, 'm) vp \<Rightarrow> ('s, 'm) vp" where
  "start_syncer sid from_block target_block st =
     (emit (SpawnSyncer sid (fst from_block)) st)\<lparr>vp_sync := Syncing from_block sid target_block None\<rparr>"

definition handle_connect ::
    "('s, 'a, 'm) vp_env \<Rightarrow> bytes \<Rightarrow> blue_work \<Rightarrow> bytes \<Rightarrow> ('s, 'm) vp \<Rightarrow> ('s, 'm) vp res" where
  "handle_connect ve sink sink_blue_work pp st =
     (case vp_sync st of
        Initial \<Rightarrow>
          rbind (request_pending ve st) (\<lambda>st.
          rbind (get_latest_accepting_cursor (ve_kv ve) (vp_db st)) (\<lambda>last_accepting_block.
            Ok (case map_option cursor_of_db last_accepting_block of
                  None \<Rightarrow> start_syncer 0 (pp, 0) (sink, sink_blue_work) st
                | Some c \<Rightarrow> start_syncer 0 (cu_block_hash c, cu_blue_work c) (sink, sink_blue_work) st)))
      | Syncing last_accepting_block sid _ queue \<Rightarrow>
          Ok (st\<lparr>vp_sync := Syncing last_accepting_block sid (sink, sink_blue_work) queue\<rparr>)
      | Synced last_id last_accepting_block \<Rightarrow>
          Ok (if fst last_accepting_block = sink \<or> snd last_accepting_block > sink_blue_work then st
              else start_syncer (last_id + 1) last_accepting_block (sink, sink_blue_work) st))"

definition handle_disconnected :: "('s, 'm) vp \<Rightarrow> ('s, 'm) vp" where
  "handle_disconnected st = st\<lparr>vp_realtime_queue := []\<rparr>"

text \<open>Whether the processor goes on, and the state.\<close>

definition handle_shutdown :: "('s, 'm) vp \<Rightarrow> bool \<times> ('s, 'm) vp" where
  "handle_shutdown st =
     (let st = st\<lparr>vp_shutting_down := True\<rparr>
      in case vp_sync st of
           Initial \<Rightarrow> (False, st)
         | Synced _ _ \<Rightarrow> (False, st)
         | Syncing _ sid _ _ \<Rightarrow> (True, emit (SendAck sid Stop) st))"

text \<open>
  A chain part whose added blocks are all processed: it is applied, and the syncer is stopped when the
  part reaches the target or a block with more blue work than the target.
\<close>

definition apply_synced_part ::
    "('s, 'a, 'm) vp_env \<Rightarrow> u64 \<Rightarrow> bytes \<times> blue_work \<Rightarrow> vcc \<Rightarrow> ('s, 'm) vp \<Rightarrow> ('s, 'm) vp res" where
  "apply_synced_part ve sid target_block vcc st =
     (if vc_added vcc = [] then Panic
      else let last_hash = last (vc_added vcc)
           in rbind (if last_hash = fst target_block then Ok True
                     else rbind (unwrap (rg_get (ve_ring ve) (vp_processed_blocks st) last_hash)) (\<lambda>(_, work).
                       Ok (work > snd target_block))) (\<lambda>reached.
              if reached
              then rbind (handle_vc_resp ve vcc (emit (SendAck sid Stop) st)) (\<lambda>(last_accepting_block, st).
                     Ok (st\<lparr>vp_sync := Synced sid last_accepting_block\<rparr>))
              else rbind (handle_vc_resp ve vcc st) (\<lambda>(last_accepting_block, st).
                     Ok (emit (SendAck sid Continue)
                           (st\<lparr>vp_sync := Syncing last_accepting_block sid target_block None\<rparr>)))))"

definition handle_syncer_vc ::
    "('s, 'a, 'm) vp_env \<Rightarrow> u64 \<Rightarrow> vcc \<Rightarrow> ('s, 'm) vp \<Rightarrow> ('s, 'm) vp res" where
  "handle_syncer_vc ve notification_syncer_id vcc st =
     (case vp_sync st of
        Syncing last_accepting_block sid target_block queue \<Rightarrow>
          if notification_syncer_id \<noteq> sid then Panic
          else if vcc_empty vcc then Ok (emit (SendAck sid Continue) st)
          else if not_ready ve vcc st
               then if queue \<noteq> None then Panic
                    else Ok (st\<lparr>vp_sync := Syncing last_accepting_block sid target_block (Some vcc)\<rparr>)
          else rbind (apply_synced_part ve sid target_block vcc st) (\<lambda>st'.
                 Ok (case vp_sync st' of
                       Syncing l i t _ \<Rightarrow> st'\<lparr>vp_sync := Syncing l i t queue\<rparr>
                     | _ \<Rightarrow> st'))
      | _ \<Rightarrow> Panic)"

definition handle_realtime_vcc ::
    "('s, 'a, 'm) vp_env \<Rightarrow> vcc \<Rightarrow> ('s, 'm) vp \<Rightarrow> ('s, 'm) vp res" where
  "handle_realtime_vcc ve vcc st =
     (case vp_sync st of
        Initial \<Rightarrow> Panic
      | Synced last_id _ \<Rightarrow>
          if vcc_empty vcc then Ok st
          else if vp_realtime_queue st \<noteq> [] \<or> not_ready ve vcc st
          then Ok (st\<lparr>vp_realtime_queue := vp_realtime_queue st @ [vcc]\<rparr>)
          else rbind (handle_vcc ve vcc st) (\<lambda>(last_accepting_block, st).
                 Ok (st\<lparr>vp_sync := Synced last_id last_accepting_block\<rparr>))
      | Syncing _ _ _ _ \<Rightarrow> Ok (st\<lparr>vp_realtime_queue := vp_realtime_queue st @ [vcc]\<rparr>))"

definition handle_syncer_stopped :: "u64 \<Rightarrow> ('s, 'm) vp \<Rightarrow> bool res" where
  "handle_syncer_stopped sid st =
     (case vp_sync st of
        Initial \<Rightarrow> Panic
      | Synced last_id _ \<Rightarrow> Ok (\<not> (sid = last_id \<and> vp_shutting_down st))
      | Syncing _ current_id _ _ \<Rightarrow>
          if sid = current_id then (if vp_shutting_down st then Ok False else Err) else Ok True)"

text \<open>Room for one more block in the ring, then the block itself.\<close>

definition remember_block :: "('s, 'a, 'm) vp_env \<Rightarrow> compact_header \<Rightarrow> ('s, 'm) vp \<Rightarrow> ('s, 'm) vp" where
  "remember_block ve ch st =
     (let blocks = vp_processed_blocks st;
          need_to_delete = (rg_len (ve_ring ve) blocks + 1) - ve_synced_capacity ve
      in st\<lparr>vp_processed_blocks := rg_insert (ve_ring ve) (ch_block_hash ch) (ch_daa_score ch, ch_blue_work ch)
              ((rg_pop_front (ve_ring ve) ^^ need_to_delete) blocks)\<rparr>)"

text \<open>The \<open>while let\<close> loop over the queue: it stops at the first change that still lacks a block.\<close>

fun drain_queue ::
    "('s, 'a, 'm) vp_env \<Rightarrow> u64 \<Rightarrow> vcc list \<Rightarrow> ('s, 'm) vp \<Rightarrow> ('s, 'm) vp res" where
  "drain_queue ve last_id [] st = Ok (st\<lparr>vp_realtime_queue := []\<rparr>)"
| "drain_queue ve last_id (vcc # queue) st =
     (if vcc_empty vcc then drain_queue ve last_id queue st
      else if not_ready ve vcc st then Ok (st\<lparr>vp_realtime_queue := vcc # queue\<rparr>)
      else rbind (handle_vcc ve vcc st) (\<lambda>(last_accepting_block, st).
             drain_queue ve last_id queue (st\<lparr>vp_sync := Synced last_id last_accepting_block\<rparr>)))"

definition handle_processed_block ::
    "('s, 'a, 'm) vp_env \<Rightarrow> compact_header \<Rightarrow> ('s, 'm) vp \<Rightarrow> ('s, 'm) vp res" where
  "handle_processed_block ve ch st =
     (case vp_sync st of
        Initial \<Rightarrow>
          Ok (st\<lparr>vp_processed_blocks := rg_insert (ve_ring ve) (ch_block_hash ch) (ch_daa_score ch, ch_blue_work ch)
                (vp_processed_blocks st)\<rparr>)
      | Synced last_id _ \<Rightarrow>
          let st = remember_block ve ch st in drain_queue ve last_id (vp_realtime_queue st) st
      | Syncing last_accepting_block sid target_block queue \<Rightarrow>
          let st = remember_block ve ch st
          in case queue of
               None \<Rightarrow> Ok st
             | Some vcc \<Rightarrow>
                 if not_ready ve vcc st then Ok st
                 else apply_synced_part ve sid target_block vcc
                        (st\<lparr>vp_sync := Syncing last_accepting_block sid target_block None\<rparr>))"

definition handle_sender_resolution ::
    "('s, 'a, 'm) vp_env \<Rightarrow> 'a \<Rightarrow> bytes \<Rightarrow> u64 \<Rightarrow> ('s, 'm) vp \<Rightarrow> ('s, 'm) vp res" where
  "handle_sender_resolution ve address tx_id daa st =
     rbind (handle_sender_address (ve_env ve) address tx_id daa (vp_db st)) (\<lambda>(d, events).
       Ok (st\<lparr>vp_db := d, vp_pushes := vp_pushes st @ events\<rparr>))"

text \<open>The inputs of the main loop, and what one round does: whether to go on, and the state.\<close>

datatype 'a vp_input =
    Connected bytes blue_work bytes
  | Disconnected
  | Shutdown
  | Notification vcc
  | SenderResolution 'a bytes u64
  | VirtualChain u64 vcc
  | Stopped u64
  | Block compact_header

definition process_step ::
    "('s, 'a, 'm) vp_env \<Rightarrow> 'a vp_input \<Rightarrow> ('s, 'm) vp \<Rightarrow> (bool \<times> ('s, 'm) vp) res" where
  "process_step ve input st =
     (let go = (\<lambda>r. rbind r (\<lambda>st. Ok (True, st)))
      in case input of
           Connected sink work pp \<Rightarrow> go (handle_connect ve sink work pp st)
         | Disconnected \<Rightarrow> Ok (True, handle_disconnected st)
         | VirtualChain sid vcc \<Rightarrow> go (handle_syncer_vc ve sid vcc st)
         | Shutdown \<Rightarrow> Ok (handle_shutdown st)
         | Stopped sid \<Rightarrow> rbind (handle_syncer_stopped sid st) (\<lambda>cont. Ok (cont, st))
         | Block ch \<Rightarrow> go (handle_processed_block ve ch st)
         | Notification vcc \<Rightarrow> go (handle_realtime_vcc ve vcc st)
         | SenderResolution a tx daa \<Rightarrow> go (handle_sender_resolution ve a tx daa st))"

text \<open>The main loop over the inputs it receives: it returns when a handler says so.\<close>

fun process_loop ::
    "('s, 'a, 'm) vp_env \<Rightarrow> 'a vp_input list \<Rightarrow> ('s, 'm) vp \<Rightarrow> ('s, 'm) vp res" where
  "process_loop ve [] st = Ok st"
| "process_loop ve (i # inputs) st =
     rbind (process_step ve i st) (\<lambda>(cont, st). if cont then process_loop ve inputs st else Ok st)"

end
