(* ===== verification/Index_Writes.thy ===== *)
theory Index_Writes
  imports Deferred Virtual_Chain
begin

text \<open>
  An abstract account of what may happen to the index: rows of the right shape are written, senders
  are filled in, group ids are bound, acceptance records grow, are headed and are emptied. Every
  handler is shown to be a sequence of such writes, so an invariant of the index is checked once
  against the writes.
\<close>

section \<open>The shape of rows\<close>

text \<open>An entry of an acceptance record whose key and action are those its partition's callback expects.\<close>

fun entry_action :: "partition_id \<Rightarrow> action" where
  "entry_action HandshakeByReceiver = UpdateValueSender"
| "entry_action ContextualMessageByInbox = UpdateValueSender"
| "entry_action PaymentByReceiver = UpdateValueSender"
| "entry_action GroupMessageByBlindedGroupId = UpdateValueSender"
| "entry_action GroupControlByRecipient = UpdateValueSender"
| "entry_action _ = InsertByKeySender"

definition entry_typed :: "insertion_entry \<Rightarrow> bool" where
  "entry_typed e \<longleftrightarrow> entry_ok e \<and> ie_action e = entry_action (ie_partition e)"

definition record_ok :: "bytes \<Rightarrow> bool" where
  "record_ok v \<longleftrightarrow> (\<exists>es. header_len \<le> length v \<and> drop header_len v = concat (map entry_bytes es) \<and> list_all entry_typed es)"

fun row_ok :: "partition \<Rightarrow> bytes \<Rightarrow> bytes \<Rightarrow> bool" where
  "row_ok Block_Compact_Header k v = (length k = 32 \<and> length v = 32)"
| "row_ok Daa_Index_Compact_Header k v = (length k = 64 \<and> v = [])"
| "row_ok Block_Gaps k v = (length k = 32 \<and> length v = 32)"
| "row_ok Metadata_Store k v = ((k = latest_block_key \<longrightarrow> length v = 32) \<and> (k = latest_accepting_key \<longrightarrow> length v = 64))"
| "row_ok Handshake_By_Sender k v = (length k = 141 \<and> v = [])"
| "row_ok Handshake_By_Receiver k v = (length k = 107 \<and> length v = 34)"
| "row_ok Tx_Id_To_Handshake k v = (length k = 32)"
| "row_ok Contextual_Message_By_Sender k v = (length k = 157 \<and> v = [])"
| "row_ok Contextual_Message_By_Inbox k v = (length k = 56 \<and> length v = 34)"
| "row_ok Tx_Id_To_Contextual_Message k v = (length k = 32)"
| "row_ok Self_Stash_By_Owner k v = (length k = 362 \<and> v = [])"
| "row_ok Tx_Id_To_Self_Stash k v = (length k = 32)"
| "row_ok Payment_By_Sender k v = (length k = 141 \<and> v = [])"
| "row_ok Payment_By_Receiver k v = (length k = 107 \<and> length v = 34)"
| "row_ok Tx_Id_To_Payment k v = (length k = 32 \<and> 8 \<le> length v)"
| "row_ok Group_Message_By_Blinded_Group_Id k v = (length k = 105 \<and> length v = 34)"
| "row_ok Tx_Id_To_Group_Message k v = (length k = 32)"
| "row_ok Group_Sender_Binding k v = (length k = 32 \<and> length v = 32)"
| "row_ok Group_Control_By_Sender k v = (length k = 141 \<and> v = [])"
| "row_ok Group_Control_By_Recipient k v = (length k = 107 \<and> length v = 34)"
| "row_ok Tx_Id_To_Group_Control k v = (length k = 32)"
| "row_ok Tx_Id_To_Acceptance k v = (length k = 66 \<and> record_ok v)"
| "row_ok Tx_Output0_Owner k v = (length k = 32 \<and> length v = 34)"
| "row_ok Watched_Outpoints k v = (length k = 36 \<and> length v = 34)"
| "row_ok Watched_Outpoint_Spends k v = (length k = 44 \<and> v = [])"
| "row_ok Accepting_Block_To_Tx_Id k v = (length k = 32 \<and> length v mod 32 = 0)"
| "row_ok Pending_Sender_Resolution k v = (length k = 40 \<and> v = [])"

definition typed :: "'s kv \<Rightarrow> 's keyspace \<Rightarrow> bool" where
  "typed kv d \<longleftrightarrow> (\<forall>p k v. obs kv d p k = Some v \<longrightarrow> row_ok p k v)"

lemma typedD: "typed kv d \<Longrightarrow> obs kv d p k = Some v \<Longrightarrow> row_ok p k v"
  by (simp add: typed_def)

section \<open>The writes\<close>

text \<open>Partitions with writes of their own: the rest take plain rows.\<close>

definition plain :: "partition \<Rightarrow> bool" where
  "plain p \<longleftrightarrow> p \<notin> sender_partitions \<and> p \<noteq> Group_Sender_Binding \<and> p \<noteq> Tx_Id_To_Acceptance"

text \<open>A sender goes into the index of group messages only as the author the group id is bound to.\<close>

definition author_ok :: "('s, 'a) env \<Rightarrow> 's keyspace \<Rightarrow> bytes \<Rightarrow> address_payload option \<Rightarrow> bool" where
  "author_ok en d key sender \<longleftrightarrow>
     (case sender of
        None \<Rightarrow> True
      | Some s \<Rightarrow> \<exists>pk. obs (en_kv en) d Group_Sender_Binding (take 32 key) = Some pk \<and> matches_xonly_pubkey (en_kp en) s pk)"

text \<open>The partitions that rows are taken out of.\<close>

definition removable :: "partition \<Rightarrow> bool" where
  "removable p \<longleftrightarrow> p \<in> {Group_Message_By_Blinded_Group_Id, Tx_Id_To_Group_Message, Pending_Sender_Resolution,
     Watched_Outpoints, Watched_Outpoint_Spends, Accepting_Block_To_Tx_Id, Block_Gaps, Block_Compact_Header,
     Daa_Index_Compact_Header, Metadata_Store}"

inductive index_write :: "('s, 'a) env \<Rightarrow> 's keyspace \<Rightarrow> 's keyspace \<Rightarrow> bool" for en where
  row: "plain p \<Longrightarrow> row_ok p k v \<Longrightarrow>
    obs (en_kv en) d' = (obs (en_kv en) d)(p := (obs (en_kv en) d p)(k \<mapsto> v)) \<Longrightarrow> index_write en d d'"
| remove: "removable p \<Longrightarrow>
    obs (en_kv en) d' = (obs (en_kv en) d)(p := (obs (en_kv en) d p)(k := None)) \<Longrightarrow> index_write en d d'"
| fill: "p \<in> sender_partitions \<Longrightarrow> row_ok p k (replicate 34 0) \<Longrightarrow> (\<And>s. sender = Some s \<Longrightarrow> address_ok s) \<Longrightarrow>
    (p = Group_Message_By_Blinded_Group_Id \<Longrightarrow> author_ok en d k sender) \<Longrightarrow>
    index_write en d (with_sender (en_kv en) p k sender d)"
| bind: "length g = 32 \<Longrightarrow> length k = 32 \<Longrightarrow> index_write en d (snd (check_or_bind (en_kv en) g k d))"
| enter: "ak_ok k \<Longrightarrow> list_all entry_typed es \<Longrightarrow> index_write en d (acceptance_insert (en_kv en) k es d)"
| accept: "ak_ok k \<Longrightarrow> length h = 32 \<Longrightarrow>
    obs (en_kv en) d' = (obs (en_kv en) d)(Tx_Id_To_Acceptance := (obs (en_kv en) d Tx_Id_To_Acceptance)(ak_bytes k :=
      map_option (\<lambda>old. header_bytes h daa @ drop header_len old) (obs (en_kv en) d Tx_Id_To_Acceptance (ak_bytes k)))) \<Longrightarrow>
    index_write en d d'"
| resolved: "obs (en_kv en) d' = (obs (en_kv en) d)(Tx_Id_To_Acceptance := (obs (en_kv en) d Tx_Id_To_Acceptance)(k :=
      map_option (take header_len) (obs (en_kv en) d Tx_Id_To_Acceptance k))) \<Longrightarrow>
    index_write en d d'"

abbreviation writes :: "('s, 'a) env \<Rightarrow> 's keyspace \<Rightarrow> 's keyspace \<Rightarrow> bool" where
  "writes en \<equiv> rtranclp (index_write en)"

lemma plain_partitions [simp]:
  "plain Block_Compact_Header" "plain Daa_Index_Compact_Header" "plain Block_Gaps" "plain Metadata_Store"
  "plain Handshake_By_Sender" "plain Tx_Id_To_Handshake" "plain Contextual_Message_By_Sender"
  "plain Tx_Id_To_Contextual_Message" "plain Self_Stash_By_Owner" "plain Tx_Id_To_Self_Stash"
  "plain Payment_By_Sender" "plain Tx_Id_To_Payment" "plain Tx_Id_To_Group_Message"
  "plain Group_Control_By_Sender" "plain Tx_Id_To_Group_Control" "plain Tx_Output0_Owner"
  "plain Watched_Outpoints" "plain Watched_Outpoint_Spends" "plain Accepting_Block_To_Tx_Id"
  "plain Pending_Sender_Resolution"
  by (simp_all add: plain_def sender_partitions_def)

lemma removable_partitions [simp]:
  "removable Group_Message_By_Blinded_Group_Id" "removable Tx_Id_To_Group_Message"
  "removable Pending_Sender_Resolution" "removable Watched_Outpoints" "removable Watched_Outpoint_Spends"
  "removable Accepting_Block_To_Tx_Id" "removable Block_Gaps" "removable Block_Compact_Header"
  "removable Daa_Index_Compact_Header" "removable Metadata_Store"
  by (simp_all add: removable_def)

section \<open>Invariants of the writes\<close>

lemma writes_invariant:
  assumes "writes en d d'" and "P d" and "\<And>a b. index_write en a b \<Longrightarrow> P a \<Longrightarrow> P b"
  shows "P d'"
  using assms by (induction rule: rtranclp_induct) blast+

context indexer begin

lemma writes_intros:
  "writes en d0 d \<Longrightarrow> plain p \<Longrightarrow> row_ok p k v \<Longrightarrow> writes en d0 (put (en_kv en) p k v d)"
  "writes en d0 d \<Longrightarrow> removable p \<Longrightarrow> writes en d0 (del (en_kv en) p k d)"
  "writes en d0 d \<Longrightarrow> p \<in> sender_partitions \<Longrightarrow> row_ok p k (replicate 34 0) \<Longrightarrow> (\<And>s. sender = Some s \<Longrightarrow> address_ok s) \<Longrightarrow>
    (p = Group_Message_By_Blinded_Group_Id \<Longrightarrow> author_ok en d k sender) \<Longrightarrow>
    writes en d0 (with_sender (en_kv en) p k sender d)"
  "writes en d0 d \<Longrightarrow> length g = 32 \<Longrightarrow> length k = 32 \<Longrightarrow> writes en d0 (snd (check_or_bind (en_kv en) g k d))"
  "writes en d0 d \<Longrightarrow> ak_ok a \<Longrightarrow> list_all entry_typed es \<Longrightarrow> writes en d0 (acceptance_insert (en_kv en) a es d)"
  by (auto intro: rtranclp.rtrancl_into_rtrancl index_write.intros index_write.row [OF _ _ obs_put]
      index_write.remove [OF _ obs_del])

lemma writes_obs:
  "writes en d0 d \<Longrightarrow> plain p \<Longrightarrow> row_ok p k v \<Longrightarrow>
    obs (en_kv en) d' = (obs (en_kv en) d)(p := (obs (en_kv en) d p)(k \<mapsto> v)) \<Longrightarrow> writes en d0 d'"
  "writes en d0 d \<Longrightarrow> removable p \<Longrightarrow>
    obs (en_kv en) d' = (obs (en_kv en) d)(p := (obs (en_kv en) d p)(k := None)) \<Longrightarrow> writes en d0 d'"
  by (auto intro: rtranclp.rtrancl_into_rtrancl index_write.intros)

lemma zero_record: "record_ok (zero_header @ concat (map entry_bytes es)) \<longleftrightarrow> list_all entry_typed es"
  if "list_all entry_typed es"
  using that by (auto simp: record_ok_def)

lemma typed_write: "index_write en d d' \<Longrightarrow> typed (en_kv en) d \<Longrightarrow> typed (en_kv en) d'"
proof (induction rule: index_write.induct)
  case (row p k v d' d)
  then show ?case by (auto simp: typed_def)
next
  case (remove p d' d k)
  then show ?case by (auto simp: typed_def)
next
  case (fill p k sender d)
  have "row_ok p k v" if "length v = 34" for v
    using fill(1,2) that by (auto simp: sender_partitions_def)
  moreover have "address_ok (case sender of Some s \<Rightarrow> s | None \<Rightarrow> no_address)"
    using fill(3) by (auto split: option.splits)
  ultimately show ?case using fill(5) by (auto simp: typed_def fill_sender_def split: option.splits if_splits)
next
  case (bind g k d)
  have "length q = 32 \<and> length v = 32" if "obs (en_kv en) d Group_Sender_Binding q = Some v" for q v
    using typedD [OF bind(3) that] by simp
  with bind show ?case by (auto simp: typed_def check_or_bind_obs split: option.splits)
next
  case (enter k es d)
  have "record_ok (old @ concat (map entry_bytes es))" if old: "record_ok old" for old
  proof -
    obtain fs where "header_len \<le> length old" "drop header_len old = concat (map entry_bytes fs)" "list_all entry_typed fs"
      using old by (auto simp: record_ok_def)
    then show ?thesis using enter(2) by (auto simp: record_ok_def intro!: exI [of _ "fs @ es"])
  qed
  moreover have "length (ak_bytes k) = 66" using enter(1) by (simp add: ak_bytes_def ak_ok_def)
  moreover have "length q = 66 \<and> record_ok v" if "obs (en_kv en) d Tx_Id_To_Acceptance q = Some v" for q v
    using typedD [OF enter(3) that] by simp
  ultimately show ?case using enter by (auto simp: typed_def zero_record split: option.splits)
next
  case (accept k h d' d daa)
  have "record_ok (header_bytes h daa @ drop header_len old)" if "record_ok old" for old
    using that accept(2) by (auto simp: record_ok_def)
  moreover have "length q = 66 \<and> record_ok v" if "obs (en_kv en) d Tx_Id_To_Acceptance q = Some v" for q v
    using typedD [OF accept(4) that] by simp
  ultimately show ?case using accept(3,4) by (auto simp: typed_def)
next
  case (resolved d' d k)
  have "record_ok (take header_len old)" if "record_ok old" for old
    using that by (auto simp: record_ok_def intro!: exI [of _ "[]"])
  moreover have "length q = 66 \<and> record_ok v" if "obs (en_kv en) d Tx_Id_To_Acceptance q = Some v" for q v
    using typedD [OF resolved(2) that] by simp
  ultimately show ?case using resolved by (auto simp: typed_def)
qed

end


section \<open>The handlers write\<close>

text \<open>A step of a transaction's handler: its database makes writes, its entries stay typed.\<close>

definition tx_step :: "('s, 'a) env \<Rightarrow> 's txs \<Rightarrow> 's txs \<Rightarrow> bool" where
  "tx_step en st st' \<longleftrightarrow> writes en (bp_db (snd st)) (bp_db (snd st')) \<and>
     (list_all entry_typed (fst st) \<longrightarrow> list_all entry_typed (fst st'))"

lemma insert_with_sender_Ok_iff:
  "rbind (insert_with_sender kv p k s d) f = Ok x \<longleftrightarrow>
     \<not> (case kv_get kv (d p) k of Some old \<Rightarrow> read_address old = None | None \<Rightarrow> False) \<and> f (with_sender kv p k s d) = Ok x"
  by (auto simp: insert_with_sender_def)

lemma or_default_ok: "(\<And>s. sender = Some s \<Longrightarrow> address_ok s) \<Longrightarrow> address_ok (or_default sender)"
  by (auto split: option.splits)

context indexer begin

lemma hex_length: "decode_fixed_hex en n b = Some d \<Longrightarrow> length d = n"
  using hex by (auto simp: hex_laws_def decode_fixed_hex_def split: if_splits)

lemma handle_op_steps:
  assumes "handle_op en h t op r amt sender st = Ok st'"
    and "header_ok h" "length t = 32" "address_ok r" and s: "\<And>s. sender = Some s \<Longrightarrow> address_ok s"
  shows "tx_step en st st'"
proof -
  note ok = or_default_ok [OF s] assms(2-4)
  have keys: "length (rk_bytes (hs_receiver_key h t a v)) = 107" "length (sk_bytes (hs_sender_key (hs_receiver_key h t a v) b)) = 141"
    "length (ck_bytes (contextual_key h t cm a b)) = 157" if "address_ok a" "address_ok b" for a b v cm
    using key_ok_intros assms(2,3) that by simp_all
  show ?thesis
  proof (cases op)
    case (SealedVNone hex)
    then show ?thesis using assms(1) s keys ok
      by (cases sender)
        (auto simp: handle_op_def handle_handshake_def Let_def handler_defs index_defs insert_with_sender_Ok_iff rbind_assoc
          tx_step_def entry_typed_def entry_ok_def intro!: writes_intros)
  next
    case (SealedHandshakeV2 hex)
    then show ?thesis using assms(1) s keys ok
      by (cases sender)
        (auto simp: handle_op_def handle_handshake_v2_def Let_def handler_defs index_defs insert_with_sender_Ok_iff rbind_assoc
          tx_step_def entry_typed_def entry_ok_def intro!: writes_intros)
  next
    case (PaymentV1 hex)
    then show ?thesis using assms(1) s keys ok
      by (cases sender)
        (auto simp: handle_op_def handle_payment_def Let_def handler_defs index_defs insert_with_sender_Ok_iff rbind_assoc
          tx_step_def entry_typed_def entry_ok_def le64_def intro!: writes_intros)
  next
    case (ContextualMessageV1 cm)
    have ik: "length (ik_bytes \<lparr>ik_tag = tag, ik_block_time = bh_timestamp h, ik_tx_id = t\<rparr>) = 56"
      if "cm_inbox_tag cm = Some x" "decode_fixed_hex en inbox_tag_len x = Some tag" for x tag
      using hex_length [OF that(2)] assms(3) by (simp add: ik_ok_def inbox_tag_len_def)
    show ?thesis using assms(1) s keys ok
      by (cases sender; cases "cm_inbox_tag cm")
        (auto simp: ContextualMessageV1 handle_op_def handle_contextual_message_def handle_inbox_tag_def Let_def handler_defs
          index_defs insert_with_sender_Ok_iff rbind_assoc tx_step_def entry_typed_def entry_ok_def ik
          insert_with_sender_def
          intro!: writes_intros split: option.splits if_splits)
  next
    case (SelfStashV1 sss)
    have key: "length (ok_bytes \<lparr>ok_owner = a, ok_scope = scope_from x, ok_block_time = bh_timestamp h, ok_block_hash = bh_hash h,
      ok_version = 1, ok_tx_id = t\<rparr>) = 362" if "address_ok a" for a x
      using assms(2,3) that by (simp add: ok_ok_def header_ok_def)
    show ?thesis using assms(1) s ok
      by (cases sender)
        (auto simp: SelfStashV1 handle_op_def handle_self_stash_def Let_def handler_defs index_defs tx_step_def
          entry_typed_def entry_ok_def key intro!: writes_intros)
  next
    case (GroupControlV1 gc)
    have lk: "length (lk_bytes \<lparr>lk_sender = a, lk_block_time = bh_timestamp h, lk_block_hash = bh_hash h, lk_version = 1,
        lk_tx_id = t, lk_recipient = c\<rparr>) = 141" if "address_ok a" "address_ok c" for a c
      using assms(2,3) that by (simp add: lk_ok_def header_ok_def)
    obtain rcp where rcp: "control_recipient en gc = Ok rcp"
      using assms(1) by (auto simp: GroupControlV1 handle_op_def handle_group_control_def rbind_eq_Ok)
    then have "address_ok a" if "rcp = Some a" for a
      using that by (auto simp: control_recipient_def rbind_eq_Ok from_xonly_pubkey_def address_ok_def dest!: hex_length
          split: option.splits)
    then show ?thesis using assms(1) s ok keys
      by (cases sender; cases rcp)
        (auto simp: GroupControlV1 rcp handle_op_def handle_group_control_def Let_def handler_defs index_defs tx_step_def
          insert_with_sender_Ok_iff rbind_assoc entry_typed_def entry_ok_def lk intro!: writes_intros)
  next
    case (GroupMessageV1 gm)
    obtain g k where dec: "decode_fixed_hex en blinded_group_id_len (gm_blinded_group_id gm) = Some g"
      "decode_fixed_hex en 32 (gm_sender_pub gm) = Some k"
      using assms(1) by (auto simp: GroupMessageV1 handle_op_def handle_group_message_def rbind_eq_Ok)
    then have len: "length g = 32" "length k = 32" using hex_length by (fastforce simp: blinded_group_id_len_def)+
    let ?key = "\<lparr>gk_group_id = g, gk_block_time = bh_timestamp h, gk_block_hash = bh_hash h, gk_version = 1, gk_tx_id = t\<rparr>"
    have gk: "length (gk_bytes ?key) = 105" "take 32 (gk_bytes ?key) = g"
      using assms(2,3) len by (simp_all add: gk_ok_def header_ok_def gk_bytes_def)
    show ?thesis
    proof (cases sender)
      case None
      then show ?thesis using assms(1) gk(1) assms(3)
        by (auto simp: GroupMessageV1 handle_op_def handle_group_message_def dec Let_def handler_defs index_defs tx_step_def
            insert_with_sender_Ok_iff rbind_assoc entry_typed_def entry_ok_def author_ok_def intro!: writes_intros)
    next
      case (Some a)
      have author: "author_ok en (put (en_kv en) Tx_Id_To_Group_Message t v (snd (check_or_bind (en_kv en) g k d))) (gk_bytes ?key) (Some a)"
        if "matches_xonly_pubkey (en_kp en) a k" "fst (check_or_bind (en_kv en) g k d)" for v d
        using that by (auto simp: author_ok_def gk(2) check_or_bind_obs split: option.splits)
      show ?thesis using assms(1) gk(1) assms(3) len s Some
        by (auto simp: GroupMessageV1 handle_op_def handle_group_message_def dec Let_def handler_defs index_defs tx_step_def
            insert_with_sender_Ok_iff rbind_assoc entry_typed_def entry_ok_def author case_prod_unfold
            intro!: writes_intros split: if_splits)
    qed
  qed
qed

end

text \<open>Transactions and blocks whose hashes have the length of a hash.\<close>

definition tx_ok :: "('s, 'a) env \<Rightarrow> rpc_tx \<Rightarrow> bool" where
  "tx_ok en tx \<longleftrightarrow> (\<forall>i. rt_verbose_id tx = Some i \<or> en_tx_id en tx = Some i \<longrightarrow> length i = 32) \<and>
     list_all (\<lambda>(prev, _). length prev = 32) (rt_inputs tx)"

definition block_ok :: "('s, 'a) env \<Rightarrow> rpc_block \<Rightarrow> bool" where
  "block_ok en blk \<longleftrightarrow> header_ok (rb_header blk) \<and> list_all (tx_ok en) (rb_transactions blk)"

lemma ak_read_ok: "ak_read b = Some key \<Longrightarrow> ak_ok key \<and> b = ak_bytes key"
proof -
  assume r: "ak_read b = Some key"
  then have len: "length b = 66" by (auto simp: ak_read_def read_fields_def split: if_splits)
  then have key: "key = \<lparr>ak_tx_id = take 32 b, ak_receiver = address_field (take 34 (drop 32 b))\<rparr>"
    using r by (simp add: ak_read_def read_fields_def)
  have "length (drop 32 b) = 34" using len by simp
  then have "address_bytes (address_field (take 34 (drop 32 b))) = drop 32 b"
    by (cases "drop 32 b") (auto simp: address_bytes_def address_field_def)
  then show ?thesis using len by (auto simp: key ak_ok_def ak_bytes_def address_ok_def address_field_def)
qed

context engine begin

lemma key_by_tx_id_ok:
  assumes "key_by_tx_id kv s t = Ok (Some key)"
  shows "ak_ok key \<and> starts_with t (ak_bytes key) \<and> kv_get kv s (ak_bytes key) \<noteq> None"
proof -
  obtain k v where kv: "kv_prefix kv t s = [(k, v)]" "ak_read k = Some key"
    using assms(1) by (auto simp: key_by_tx_id_def rbind_eq_Ok split: list.splits)
  then have "starts_with t k \<and> kv_get kv s k = Some v" using in_prefix [of k v t s] by simp
  with ak_read_ok [OF kv(2)] show ?thesis by simp
qed

end

context indexer begin

lemma resolved_sender_ok:
  "resolve_sender en c d out = Ok (Some s) \<Longrightarrow> address_ok s"
proof -
  assume "resolve_sender en c d out = Ok (Some s)"
  then obtain key owner where k: "acceptance_key_of (en_kv en) c (fst out) = Ok (Some key)"
    "output0_get (en_kv en) (fst out) d = Ok owner" "output0_owner (ak_receiver key) owner = Some s"
    by (auto simp: resolve_sender_def rbind_eq_Ok split: if_splits option.splits)
  have "ak_ok key" using key_by_tx_id_ok k(1) by (fastforce simp: acceptance_key_of_def)
  moreover have "address_ok a" if "owner = Some a" for a
    using k(2) that read_address_ok by (auto simp: output0_get_def rbind_eq_Ok split: option.splits)
  ultimately show ?thesis using k(3) by (auto simp: output0_owner_def ak_ok_def split: option.splits if_splits)
qed

lemma payees_ok:
  assumes "payees (en_kp en) outputs = Ok ps" and "(v, a) \<in> set ps"
  shows "address_ok a"
proof -
  have "list_all (\<lambda>p. address_ok (snd p)) ps"
    by (rule rfold_invariant [OF assms(1) [unfolded payees_def]])
      (use address_of_script_ok [OF kaspa] in \<open>auto split: res.splits\<close>)
  then show ?thesis using assms(2) by (auto simp: list_all_iff)
qed

lemma receiver_ok:
  assumes "resolve_primary_receiver (en_kp en) outputs sender = Ok (amount, receiver)"
  shows "address_ok receiver"
proof -
  obtain ps where ps: "payees (en_kp en) outputs = Ok ps"
    using assms by (auto simp: resolve_primary_receiver_def rbind_eq_Ok)
  show ?thesis
  proof (cases ps)
    case Nil
    then show ?thesis using assms ps by (simp add: resolve_primary_receiver_def)
  next
    case (Cons p rest)
    then have "p = (amount, receiver) \<or> (\<exists>s. find (\<lambda>(_, addr). addr \<noteq> s) ps = Some (amount, receiver))"
      using assms ps by (auto simp: resolve_primary_receiver_def bind_eq_Some_conv simp del: find.simps split: option.splits)
    moreover have "(amount, receiver) \<in> set ps" if "find P ps = Some (amount, receiver)" for P
      using that by (metis find_Some_iff nth_mem)
    ultimately have "(amount, receiver) \<in> set ps" using Cons by auto
    then show ?thesis using payees_ok [OF ps] by blast
  qed
qed

lemma output0_address_ok: "output0_address (en_kp en) tx = Ok x \<Longrightarrow> address_ok (or_default x)"
  using address_of_script_ok [OF kaspa] by (auto simp: output0_address_def split: list.splits res.splits)

lemma funds_writes:
  assumes "emit_funds_received en tx tx_id h b = Ok b'" and "tx_ok en tx" and "length tx_id = 32"
  shows "writes en (bp_db b) (bp_db b')"
proof -
  have senders: "writes en (bp_db b) (snd w)" if "funds_senders en tx (bp_db b) = Ok w" for w
  proof (rule rfold_invariant [OF that [unfolded funds_senders_def]])
    show "writes en (bp_db b) (snd w')"
      if "i \<in> set (rt_inputs tx)" "writes en (bp_db b) (snd w)"
        "(case i of (prev_tx, index) \<Rightarrow> \<lambda>(senders, d).
           let outpoint = \<lparr>wk_tx_id = prev_tx, wk_index = index\<rparr>
           in rbind (watched_get (en_kv en) outpoint d) (\<lambda>found. case found of
                None \<Rightarrow> Ok (senders, d)
              | Some addr \<Rightarrow> Ok (if addr \<in> set senders then senders else senders @ [addr],
                  spend_insert (en_kv en) \<lparr>zk_spent_at_ms = en_unix_ms en, zk_outpoint = outpoint\<rparr> d))) w = Ok w'"
      for i w w'
    proof -
      have "length (fst i) = 32" using assms(2) that(1) by (auto simp: tx_ok_def list_all_iff)
      then have "length (zk_bytes \<lparr>zk_spent_at_ms = en_unix_ms en, zk_outpoint = \<lparr>wk_tx_id = fst i, wk_index = snd i\<rparr>\<rparr>) = 44"
        by (simp add: zk_bytes_def be32_def)
      then show ?thesis using that
        by (auto simp: rbind_eq_Ok Let_def index_defs case_prod_unfold intro!: writes_intros split: option.splits)
    qed
  qed simp
  have credited: "writes en d (snd w)" if "funds_credited en tx tx_id d = Ok w" for d w
  proof (rule rfold_invariant [OF that [unfolded funds_credited_def]])
    show "writes en d (snd w')"
      if "writes en d (snd w)"
        "(case i of (index, v, spk) \<Rightarrow> \<lambda>(credited, d).
           case address_of_script (en_kp en) spk of
             Ok addr \<Rightarrow> Ok (if watch_only_contains (en_personal en) addr
                 then (credited @ [(addr, v)],
                       watched_insert (en_kv en) \<lparr>wk_tx_id = tx_id, wk_index = word_of_nat index\<rparr> addr d)
                 else (credited, d))
           | Err \<Rightarrow> Ok (credited, d) | Panic \<Rightarrow> Panic) w = Ok w'"
      for i w w'
    proof -
      have "length (wk_bytes \<lparr>wk_tx_id = tx_id, wk_index = ix\<rparr>) = 36" for ix
        using assms(3) by (simp add: wk_bytes_def be32_def)
      then show ?thesis using that address_of_script_ok [OF kaspa]
        by (auto simp: index_defs case_prod_unfold intro!: writes_intros split: res.splits if_splits)
    qed
  qed simp
  show ?thesis
    using assms(1) senders credited
    by (fastforce simp: emit_funds_received_def rbind_eq_Ok case_prod_unfold split: if_splits)
qed

end

text \<open>What \<open>handle_sealed\<close> goes through: sender, receiver, owner of output 0, handler, acceptance record.\<close>

lemma handle_sealed_cases:
  assumes "handle_sealed en c h tx t op b = Ok b'"
  obtains i rest sender amount receiver out0 st es b1 where "rt_inputs tx = i # rest"
    and "resolve_sender en c (bp_db b) i = Ok sender"
    and "resolve_primary_receiver (en_kp en) (rt_outputs tx) sender = Ok (amount, receiver)"
    and "output0_address (en_kp en) tx = Ok out0"
    and "st = (if out0 \<noteq> Some receiver then b\<lparr>bp_db := output0_insert (en_kv en) t (or_default out0) (bp_db b)\<rparr> else b)"
    and "handle_op en h t op receiver amount sender ([], st) = Ok (es, b1) \<or> es = [] \<and> b1 = st"
    and "b' = b1\<lparr>bp_db := acceptance_insert (en_kv en) \<lparr>ak_tx_id = t, ak_receiver = receiver\<rparr> es (bp_db b1)\<rparr>"
proof -
  obtain i sender r out0 where inputs: "(case rt_inputs tx of [] \<Rightarrow> None | i # _ \<Rightarrow> Some i) = Some i"
    and sender: "resolve_sender en c (bp_db b) i = Ok sender"
    and r: "resolve_primary_receiver (en_kp en) (rt_outputs tx) sender = Ok r"
    and out0: "output0_address (en_kp en) tx = Ok out0"
    and rest: "(let st = ([], if out0 \<noteq> Some (snd r)
                  then b\<lparr>bp_db := output0_insert (en_kv en) t (or_default out0) (bp_db b)\<rparr> else b)
       in rbind (if store_content en op sender (snd r)
                 then handle_op en h t op (snd r) (fst r) sender st else Ok st) (\<lambda>p.
          Ok ((snd p)\<lparr>bp_db := acceptance_insert (en_kv en) \<lparr>ak_tx_id = t, ak_receiver = snd r\<rparr> (fst p) (bp_db (snd p))\<rparr>))) = Ok b'"
    using assms unfolding handle_sealed_def rbind_eq_Ok case_prod_unfold unwrap_eq by blast
  define st where "st = (if out0 \<noteq> Some (snd r)
        then b\<lparr>bp_db := output0_insert (en_kv en) t (or_default out0) (bp_db b)\<rparr> else b)"
  obtain es b1 where
    "(if store_content en op sender (snd r) then handle_op en h t op (snd r) (fst r) sender ([], st) else Ok ([], st)) = Ok (es, b1)"
    and "b' = b1\<lparr>bp_db := acceptance_insert (en_kv en) \<lparr>ak_tx_id = t, ak_receiver = snd r\<rparr> es (bp_db b1)\<rparr>"
    using rest unfolding st_def [symmetric] Let_def rbind_eq_Ok case_prod_unfold by force
  then show thesis
    using that [of i "tl (rt_inputs tx)" sender "fst r" "snd r" out0 st es b1] inputs sender r out0
    by (auto simp: st_def split: if_splits list.splits)
qed

context indexer begin

lemma sealed_writes:
  assumes "handle_sealed en c h tx tx_id op b = Ok b'" and "header_ok h" "length tx_id = 32"
  shows "writes en (bp_db b) (bp_db b')"
proof (rule handle_sealed_cases [OF assms(1)])
  fix i rest sender amount receiver out0 st es b1
  assume sender: "resolve_sender en c (bp_db b) i = Ok sender"
    and receiver: "resolve_primary_receiver (en_kp en) (rt_outputs tx) sender = Ok (amount, receiver)"
    and out0: "output0_address (en_kp en) tx = Ok out0"
    and st: "st = (if out0 \<noteq> Some receiver then b\<lparr>bp_db := output0_insert (en_kv en) tx_id (or_default out0) (bp_db b)\<rparr> else b)"
    and op: "handle_op en h tx_id op receiver amount sender ([], st) = Ok (es, b1) \<or> es = [] \<and> b1 = st"
    and b': "b' = b1\<lparr>bp_db := acceptance_insert (en_kv en) \<lparr>ak_tx_id = tx_id, ak_receiver = receiver\<rparr> es (bp_db b1)\<rparr>"
  have s: "\<And>s. sender = Some s \<Longrightarrow> address_ok s" using resolved_sender_ok sender by blast
  have "writes en (bp_db b) (bp_db st)"
    using output0_address_ok [OF out0] assms(3) by (auto simp: st index_defs intro!: writes_intros)
  moreover have "tx_step en ([], st) (es, b1)"
    using op handle_op_steps [of h tx_id op receiver amount sender "([], st)" "(es, b1)", OF _ assms(2,3) receiver_ok [OF receiver] s]
    by (auto simp: tx_step_def)
  ultimately have "writes en (bp_db b) (bp_db b1)" "list_all entry_typed es"
    by (auto simp: tx_step_def intro: rtranclp_trans)
  moreover have "ak_ok \<lparr>ak_tx_id = tx_id, ak_receiver = receiver\<rparr>"
    using receiver_ok [OF receiver] assms(3) by (simp add: ak_ok_def)
  ultimately show ?thesis by (auto simp: b' intro: writes_intros)
qed

lemma transaction_writes:
  assumes "handle_transaction en c h tx b = Ok b'" and "header_ok h" "tx_ok en tx"
  shows "writes en (bp_db b) (bp_db b')"
proof -
  obtain t b1 where t: "(case rt_verbose_id tx of Some i \<Rightarrow> Some i | None \<Rightarrow> en_tx_id en tx) = Some t"
    and f: "emit_funds_received en tx t h b = Ok b1"
    and r: "(case parse_sealed_operation (rt_payload tx) of None \<Rightarrow> Ok b1 | Some op \<Rightarrow> handle_sealed en c h tx t op b1) = Ok b'"
    using assms(1) unfolding handle_transaction_def rbind_eq_Ok unwrap_eq by blast
  have len: "length t = 32" using t assms(3) by (auto simp: tx_ok_def split: option.splits)
  have "writes en (bp_db b1) (bp_db b')"
    using r sealed_writes [OF _ assms(2) len] by (auto split: option.splits)
  with funds_writes [OF f assms(3) len] show ?thesis by (rule rtranclp_trans)
qed

lemma prune_writes:
  assumes "prune_watched_spends en c b = Ok b'"
  shows "writes en (bp_db b) (bp_db b')"
proof -
  have "writes en d (fold (\<lambda>spend d. del (en_kv en) Watched_Outpoint_Spends (zk_bytes spend)
      (del (en_kv en) Watched_Outpoints (wk_bytes (zk_outpoint spend)) d)) ks d')" if "writes en d d'" for ks d d'
    using that
  proof (induction ks arbitrary: d')
    case (Cons k ks)
    have "writes en d (del (en_kv en) Watched_Outpoint_Spends (zk_bytes k)
      (del (en_kv en) Watched_Outpoints (wk_bytes (zk_outpoint k)) d'))"
      by (intro writes_intros Cons.prems) simp_all
    then show ?case using Cons.IH by simp
  qed simp
  then show ?thesis using assms
    by (auto simp: prune_watched_spends_def Let_def rbind_eq_Ok index_defs split: if_splits)
qed

lemma block_writes:
  assumes "handle_block en c blk b = Ok b'" and "block_ok en blk"
  shows "writes en (bp_db b) (bp_db b')"
proof -
  let ?h = "rb_header blk"
  obtain old d where ins: "insert_compact_header (en_kv en) (bh_hash ?h) (work_le (bh_blue_work ?h)) (bh_daa_score ?h) (bp_db b) = (old, d)"
    by (metis surj_pair)
  have lens: "length (bh_hash ?h) = 32" "length (work_le w) = 24" "length (work_be w) = 24" for w
    using assms(2) by (auto simp: block_ok_def header_ok_def work_le_def work_be_def)
  have "obs (en_kv en) d = (obs (en_kv en) (bp_db b))(Block_Compact_Header := (obs (en_kv en) (bp_db b) Block_Compact_Header)
      (bh_hash ?h \<mapsto> compact_header_bytes (work_le (bh_blue_work ?h)) (bh_daa_score ?h)))"
    using compact_header_obs(2) [of "bh_hash ?h" "work_le (bh_blue_work ?h)" "bh_daa_score ?h" "bp_db b"] by (simp add: ins)
  then have d: "writes en (bp_db b) d"
    by (rule writes_obs(1) [OF rtranclp.rtrancl_refl, rotated 2]) (simp_all add: lens compact_header_bytes_def le64_def)
  show ?thesis
  proof (cases old)
    case True
    then show ?thesis using assms(1) d by (auto simp: handle_block_def ins)
  next
    case False
    let ?d = "daa_index_insert (en_kv en) (bh_daa_score ?h) (bh_hash ?h) (work_be (bh_blue_work ?h)) d"
    obtain b1 where p: "prune_watched_spends en c (b\<lparr>bp_db := ?d\<rparr>) = Ok b1"
      and txs: "rfold (handle_transaction en c ?h) (rb_transactions blk) b1 = Ok b'"
      using assms(1) False by (auto simp: handle_block_def ins Let_def rbind_eq_Ok)
    have "writes en (bp_db b) ?d"
      using d lens by (auto simp: index_defs daa_key_bytes_def intro!: writes_intros)
    with prune_writes [OF p] have "writes en (bp_db b) (bp_db b1)" by simp
    then show ?thesis
    proof (rule rfold_invariant [OF txs])
      fix tx b2 b3
      assume tx: "tx \<in> set (rb_transactions blk)" "writes en (bp_db b) (bp_db b2)" "handle_transaction en c ?h tx b2 = Ok b3"
      have "header_ok ?h" "tx_ok en tx" using assms(2) tx(1) by (auto simp: block_ok_def list_all_iff)
      from transaction_writes [OF tx(3) this] tx(2) show "writes en (bp_db b) (bp_db b3)" by simp
    qed
  qed
qed

end

end
