(* ===== verification/Block_Loop.thy ===== *)
theory Block_Loop
  imports Virtual_Chain
begin

text \<open>
  The main loop of \<open>indexer-actors/src/block_processor.rs\<close> and \<open>block_gap_filler.rs\<close>: blocks come from
  the node's notifications and, for the stretches that were missed, from gap fillers. A gap is kept
  in the database under its target until the filler has delivered the target.
\<close>

section \<open>The gap filler\<close>

record gap_filler =
  gf_from :: bytes
  gf_target :: bytes

text \<open>What \<open>try_recv\<close> finds on the interrupt channel, and the answer to a request for blocks.\<close>

datatype interrupt = Empty | Signalled | Closed

datatype blocks_answer = Blocks "rpc_block list" | RpcError | ShuttingDown

datatype gap_progress =
    GapUpdate bytes "rpc_block list"
  | GapInterrupted bytes
  | GapFinished bytes "rpc_block list"
  | GapError bytes

abbreviation block_hash :: "rpc_block \<Rightarrow> bytes" where
  "block_hash b \<equiv> bh_hash (rb_header b)"

text \<open>One round of \<open>sync\<close>: what it reports, and the filler of the next round.\<close>

definition filler_round ::
    "interrupt \<Rightarrow> (bytes \<Rightarrow> blocks_answer) \<Rightarrow> gap_filler \<Rightarrow> (gap_progress list \<times> gap_filler option) res" where
  "filler_round interrupt request_blocks f =
     (case interrupt of
        Signalled \<Rightarrow> Ok ([GapInterrupted (gf_target f)], None)
      | Closed \<Rightarrow> Ok ([GapInterrupted (gf_target f)], None)
      | Empty \<Rightarrow>
          (case request_blocks (gf_from f) of
             RpcError \<Rightarrow> Ok ([GapError (gf_target f)], None)
           | ShuttingDown \<Rightarrow> Ok ([], Some f)
           | Blocks blocks \<Rightarrow>
               if \<exists>b \<in> set blocks. block_hash b = gf_target f then Ok ([GapFinished (gf_target f) blocks], None)
               else if blocks = [] then Panic
               else Ok ([GapUpdate (gf_target f) blocks], Some (f\<lparr>gf_from := block_hash (last blocks)\<rparr>))))"

text \<open>The loop, given what it finds on the channel in each round. It may go on for ever, hence fuel.\<close>

fun filler_sync ::
    "interrupt list \<Rightarrow> (bytes \<Rightarrow> blocks_answer) \<Rightarrow> gap_filler \<Rightarrow> (gap_progress list \<times> gap_filler option) res" where
  "filler_sync [] request_blocks f = Ok ([], Some f)"
| "filler_sync (i # is) request_blocks f =
     rbind (filler_round i request_blocks f) (\<lambda>(sent, next).
       case next of
         None \<Rightarrow> Ok (sent, None)
       | Some f \<Rightarrow> rbind (filler_sync is request_blocks f) (\<lambda>(more, next). Ok (sent @ more, next)))"

section \<open>The loop's state\<close>

text \<open>
  \<open>gaps_fillers\<close> maps the target of a running filler to its interrupt channel, named by a number;
  \<open>gaps_filling_in_progress\<close> is a \<open>usize\<close> that wraps in the release build.
\<close>

datatype bl_out =
    SpawnFiller nat gap_filler
  | SendInterrupt nat
  | DropInterrupt nat \<comment> \<open>the sender is dropped: the filler finds its channel closed\<close>
  | ProcessedBlock compact_header

record 's block_loop =
  bl_bp :: "'s bp"
  bl_has_first_connect :: bool
  bl_fillers :: "(bytes \<times> nat) list"
  bl_shutdown :: bool
  bl_last_processed :: "bytes option"
  bl_in_progress :: u64
  bl_spawned :: nat
  bl_outs :: "bl_out list"

definition loop_new :: "'s bp \<Rightarrow> 's block_loop" where
  "loop_new b = \<lparr>bl_bp = b, bl_has_first_connect = False, bl_fillers = [], bl_shutdown = False,
     bl_last_processed = None, bl_in_progress = 0, bl_spawned = 0, bl_outs = []\<rparr>"

datatype block_input =
    BlockConnected bytes bytes
  | BlockDisconnected
  | BlockShutdown
  | BlockNotification rpc_block
  | GapFilling gap_progress

definition say :: "bl_out \<Rightarrow> 's block_loop \<Rightarrow> 's block_loop" where
  "say out st = st\<lparr>bl_outs := bl_outs st @ [out]\<rparr>"

definition on_bp :: "('s bp \<Rightarrow> 's bp) \<Rightarrow> 's block_loop \<Rightarrow> 's block_loop" where
  "on_bp f st = st\<lparr>bl_bp := f (bl_bp st)\<rparr>"

definition on_index :: "('s keyspace \<Rightarrow> 's keyspace) \<Rightarrow> 's block_loop \<Rightarrow> 's block_loop" where
  "on_index f = on_bp (\<lambda>b. b\<lparr>bp_db := f (bp_db b)\<rparr>)"

text \<open>Removing or replacing an entry of \<open>gaps_fillers\<close> drops the interrupt sender it held.\<close>

definition drop_filler :: "bytes \<Rightarrow> 's block_loop \<Rightarrow> 's block_loop" where
  "drop_filler to st =
     (case map_of (bl_fillers st) to of
        None \<Rightarrow> st
      | Some i \<Rightarrow> say (DropInterrupt i) (st\<lparr>bl_fillers := AList.delete to (bl_fillers st)\<rparr>))"

definition spawn_filler :: "bytes \<Rightarrow> bytes \<Rightarrow> 's block_loop \<Rightarrow> 's block_loop" where
  "spawn_filler from to st =
     (let i = bl_spawned st;
          st = say (SpawnFiller i \<lparr>gf_from = from, gf_target = to\<rparr>) (st\<lparr>bl_spawned := i + 1\<rparr>);
          st = drop_filler to st
      in st\<lparr>bl_fillers := AList.update to i (bl_fillers st)\<rparr>)"

section \<open>Connections\<close>

definition handle_first_connect ::
    "('s, 'a) env \<Rightarrow> bytes \<Rightarrow> bytes \<Rightarrow> 's keyspace \<Rightarrow> (block_gap list \<times> 's keyspace) res" where
  "handle_first_connect en sink pp d =
     rbind (get_latest_block_cursor (en_kv en) d) (\<lambda>last_real_time_block.
       let gap = (case last_real_time_block of
                    None \<Rightarrow> Some \<lparr>bg_from = pp, bg_to = sink\<rparr>
                  | Some block \<Rightarrow> if block \<noteq> sink then Some \<lparr>bg_from = block, bg_to = sink\<rparr> else None)
       in rbind (get_all_gaps (en_kv en) d) (\<lambda>gaps.
            Ok (case gap of
                  Some gap \<Rightarrow> (gaps @ [gap], add_gap (en_kv en) gap d)
                | None \<Rightarrow> (gaps, d))))"

definition loop_connected ::
    "('s, 'a) env \<Rightarrow> bytes \<Rightarrow> bytes \<Rightarrow> 's block_loop \<Rightarrow> 's block_loop res" where
  "loop_connected en sink pp st =
     (if \<not> bl_has_first_connect st
      then rbind (handle_first_connect en sink pp (bp_db (bl_bp st))) (\<lambda>(gaps, d).
             let st = on_index (\<lambda>_. d) (st\<lparr>bl_has_first_connect := True\<rparr>);
                 st = fold (\<lambda>gap. spawn_filler (bg_from gap) (bg_to gap)) gaps st
             in Ok (st\<lparr>bl_in_progress := word_of_nat (length (bl_fillers st))\<rparr>))
      else case bl_last_processed st of
             None \<Rightarrow> Ok st
           | Some last_processed_block \<Rightarrow>
               let st = on_index (add_gap (en_kv en) \<lparr>bg_from = last_processed_block, bg_to = sink\<rparr>)
                          (st\<lparr>bl_last_processed := None\<rparr>);
                   st = spawn_filler last_processed_block sink st
               in Ok (st\<lparr>bl_in_progress := bl_in_progress st + 1\<rparr>))"

definition interrupt_all :: "'s block_loop \<Rightarrow> 's block_loop" where
  "interrupt_all st = fold (\<lambda>(_, i). say (SendInterrupt i)) (bl_fillers st) (st\<lparr>bl_fillers := []\<rparr>)"

section \<open>Blocks\<close>

text \<open>
  One block in a transaction of its own: \<open>handle_block\<close> and, in the same transaction, what becomes of
  the cursor or the gap. The header goes on to the virtual chain processor unless shutting down.
\<close>

definition commit_block ::
    "('s, 'a) env \<Rightarrow> ('s keyspace \<Rightarrow> 's keyspace) \<Rightarrow> rpc_block \<Rightarrow> 's block_loop \<Rightarrow> 's block_loop res" where
  "commit_block en also_do block st =
     rbind (handle_block en (bp_db (bl_bp st)) block (bl_bp st)) (\<lambda>b.
       let st = on_index also_do (st\<lparr>bl_bp := b\<rparr>)
       in Ok (if bl_shutdown st then st else say (ProcessedBlock (compact_header_of (rb_header block))) st))"

definition loop_block :: "('s, 'a) env \<Rightarrow> rpc_block \<Rightarrow> 's block_loop \<Rightarrow> 's block_loop res" where
  "loop_block en block st =
     rbind (commit_block en (set_latest_block_cursor (en_kv en) (block_hash block)) block st) (\<lambda>st.
       Ok (st\<lparr>bl_last_processed := Some (block_hash block)\<rparr>))"

definition update_gap :: "('s, 'a) env \<Rightarrow> bytes \<Rightarrow> rpc_block \<Rightarrow> 's block_loop \<Rightarrow> 's block_loop res" where
  "update_gap en to block = commit_block en (add_gap (en_kv en) \<lparr>bg_from = block_hash block, bg_to = to\<rparr>) block"

definition finish_gap :: "('s, 'a) env \<Rightarrow> bytes \<Rightarrow> rpc_block \<Rightarrow> 's block_loop \<Rightarrow> 's block_loop res" where
  "finish_gap en to block = commit_block en (remove_gap (en_kv en) to) block"

text \<open>The filler of a target has ended.\<close>

definition filler_ended :: "bytes \<Rightarrow> 's block_loop \<Rightarrow> 's block_loop" where
  "filler_ended to st = (drop_filler to st)\<lparr>bl_in_progress := bl_in_progress st - 1\<rparr>"

definition loop_progress :: "('s, 'a) env \<Rightarrow> gap_progress \<Rightarrow> 's block_loop \<Rightarrow> 's block_loop res" where
  "loop_progress en progress st =
     (case progress of
        GapInterrupted to \<Rightarrow> Ok (filler_ended to st)
      | GapError to \<Rightarrow> Ok (filler_ended to st)
      | GapUpdate to blocks \<Rightarrow> rfold (update_gap en to) blocks st
      | GapFinished to blocks \<Rightarrow>
          rbind (rfold (update_gap en to) (butlast blocks) st) (\<lambda>st.
          rbind (if blocks = [] then Ok st else finish_gap en to (last blocks) st) (\<lambda>st.
            Ok (filler_ended to st))))"

section \<open>The loop\<close>

definition loop_step :: "('s, 'a) env \<Rightarrow> block_input \<Rightarrow> 's block_loop \<Rightarrow> 's block_loop res" where
  "loop_step en input st =
     (case input of
        BlockConnected sink pp \<Rightarrow> loop_connected en sink pp st
      | BlockDisconnected \<Rightarrow> Ok (interrupt_all st)
      | BlockShutdown \<Rightarrow> Ok (interrupt_all (st\<lparr>bl_shutdown := True\<rparr>))
      | BlockNotification block \<Rightarrow> loop_block en block st
      | GapFilling progress \<Rightarrow> loop_progress en progress st)"

definition loop_done :: "'s block_loop \<Rightarrow> bool" where
  "loop_done st \<longleftrightarrow> bl_shutdown st \<and> bl_in_progress st = 0"

text \<open>The loop over the inputs received: whether it has returned, and its state.\<close>

fun loop_process :: "('s, 'a) env \<Rightarrow> block_input list \<Rightarrow> 's block_loop \<Rightarrow> (bool \<times> 's block_loop) res" where
  "loop_process en [] st = Ok (False, st)"
| "loop_process en (i # is) st =
     rbind (loop_step en i st) (\<lambda>st. if loop_done st then Ok (True, st) else loop_process en is st)"

end
