(* ===== verification/Chain_Sync.thy ===== *)
theory Chain_Sync
  imports Virtual_Chain
begin

text \<open>
  \<open>indexer-actors/src/virtual_chain_syncer.rs\<close> and its conversation with the virtual chain processor.
  A syncer asks the node for the next part of the virtual chain, hands it to the processor and waits
  for an acknowledgement. The system is the processor, the syncers it has started, the channel they
  send to it and the acknowledgements on their way back; its steps interleave freely.
\<close>

section \<open>The syncer\<close>

text \<open>\<open>process\<close> waits in two places: for the node, or for an acknowledgement. Both know where to go on from.\<close>

datatype syncer = Requesting bytes | Awaiting bytes | Ended

definition next_from :: "bytes \<Rightarrow> vcc \<Rightarrow> bytes" where
  "next_from from r = (if vc_added r = [] then from else last (vc_added r))"

text \<open>An answer of the node: the syncer's next state and the message it sends, \<open>Stopped\<close> by its \<open>drop\<close>.\<close>

fun syncer_response :: "u64 \<Rightarrow> bytes \<Rightarrow> vcc option \<Rightarrow> syncer \<times> 'a vp_input" where
  "syncer_response sid from (Some r) = (Awaiting (next_from from r), VirtualChain sid r)"
| "syncer_response sid from None = (Ended, Stopped sid)"

text \<open>An acknowledgement. \<open>Continue\<close> while a request is out is the \<open>unreachable!()\<close> of the code.\<close>

fun syncer_ack :: "syncer \<Rightarrow> ack \<Rightarrow> syncer res" where
  "syncer_ack (Awaiting from) Continue = Ok (Requesting from)"
| "syncer_ack (Awaiting from) Stop = Ok Ended"
| "syncer_ack (Requesting from) Stop = Ok Ended"
| "syncer_ack (Requesting from) Continue = Panic"
| "syncer_ack Ended _ = Err"

text \<open>\<open>spawn_syncer\<close>: a resume point the node has pruned clears the accepting cursor before \<open>Stopped\<close> is sent.\<close>

definition self_heal :: "('s, 'a, 'm) vp_env \<Rightarrow> bool \<Rightarrow> ('s, 'm) vp \<Rightarrow> ('s, 'm) vp" where
  "self_heal ve cannot_find_header st =
     (if cannot_find_header then st\<lparr>vp_db := remove_latest_accepting_cursor (ve_kv ve) (vp_db st)\<rparr> else st)"

section \<open>The system\<close>

record ('s, 'a, 'm) chain_system =
  cs_vp :: "('s, 'm) vp"
  cs_running :: bool
  cs_syncers :: "u64 \<Rightarrow> syncer"
  cs_acks :: "u64 \<Rightarrow> ack list"
  cs_inbox :: "'a vp_input list"

text \<open>What the processor has sent: a syncer starts with its request, an acknowledgement is queued.\<close>

fun deliver_out :: "vp_out \<Rightarrow> ('s, 'a, 'm) chain_system \<Rightarrow> ('s, 'a, 'm) chain_system" where
  "deliver_out (RequestSender daa tx) s = s"
| "deliver_out (SpawnSyncer sid from) s =
     s\<lparr>cs_syncers := (cs_syncers s)(sid := Requesting from), cs_acks := (cs_acks s)(sid := [])\<rparr>"
| "deliver_out (SendAck sid a) s = s\<lparr>cs_acks := (cs_acks s)(sid := cs_acks s sid @ [a])\<rparr>"

definition processed :: "bool \<Rightarrow> ('s, 'm) vp \<Rightarrow> ('s, 'a, 'm) chain_system \<Rightarrow> ('s, 'a, 'm) chain_system" where
  "processed cont st s =
     fold deliver_out (vp_outs st) (s\<lparr>cs_vp := st\<lparr>vp_outs := []\<rparr>, cs_running := cont\<rparr>)"

text \<open>
  Inputs from outside: the data source sends nothing about the chain before the first connection
  has been announced.
\<close>

fun outside :: "('s, 'm) vp \<Rightarrow> 'a vp_input \<Rightarrow> bool" where
  "outside st (VirtualChain _ _) = False"
| "outside st (Stopped _) = False"
| "outside st (Notification _) = (vp_sync st \<noteq> Initial)"
| "outside st _ = True"

inductive chain_step ::
    "('s, 'a, 'm) vp_env \<Rightarrow> ('s, 'a, 'm) chain_system \<Rightarrow> ('s, 'a, 'm) chain_system \<Rightarrow> bool" for ve where
  response:
    "cs_syncers s sid = Requesting from \<Longrightarrow> syncer_response sid from (Some r) = (sy, msg) \<Longrightarrow>
     chain_step ve s (s\<lparr>cs_syncers := (cs_syncers s)(sid := sy), cs_inbox := cs_inbox s @ [msg]\<rparr>)"
| failure:
    "cs_syncers s sid = Requesting from \<Longrightarrow> syncer_response sid from None = (sy, msg) \<Longrightarrow>
     chain_step ve s (s\<lparr>cs_vp := self_heal ve pruned (cs_vp s), cs_syncers := (cs_syncers s)(sid := sy),
       cs_inbox := cs_inbox s @ [msg]\<rparr>)"
| ack:
    "cs_acks s sid = a # rest \<Longrightarrow> syncer_ack (cs_syncers s sid) a = Ok sy \<Longrightarrow>
     chain_step ve s (s\<lparr>cs_syncers := (cs_syncers s)(sid := sy), cs_acks := (cs_acks s)(sid := rest),
       cs_inbox := cs_inbox s @ (if sy = Ended then [Stopped sid] else [])\<rparr>)"
| message:
    "cs_running s \<Longrightarrow> cs_inbox s = msg # rest \<Longrightarrow> process_step ve msg (cs_vp s) = Ok (cont, st) \<Longrightarrow>
     chain_step ve s (processed cont st (s\<lparr>cs_inbox := rest\<rparr>))"
| input:
    "cs_running s \<Longrightarrow> outside (cs_vp s) i \<Longrightarrow> process_step ve i (cs_vp s) = Ok (cont, st) \<Longrightarrow>
     chain_step ve s (processed cont st s)"

inductive_cases chain_stepE: "chain_step ve s s'"

definition chain_start :: "('s, 'm) vp \<Rightarrow> ('s, 'a, 'm) chain_system" where
  "chain_start st = \<lparr>cs_vp = st, cs_running = True, cs_syncers = (\<lambda>_. Ended), cs_acks = (\<lambda>_. []), cs_inbox = []\<rparr>"

inductive chain_reachable ::
    "('s, 'a, 'm) vp_env \<Rightarrow> ('s, 'a, 'm) chain_system \<Rightarrow> bool" for ve where
  start: "chain_reachable ve (chain_start (vp_new ve d blocks asc))"
| step: "chain_reachable ve s \<Longrightarrow> chain_step ve s s' \<Longrightarrow> chain_reachable ve s'"

section \<open>The token\<close>

text \<open>
  The next move of a syncer's conversation is in one place at most: with the syncer, in the channel,
  in the processor's queue, or in an acknowledgement.
\<close>

definition chains_of :: "u64 \<Rightarrow> 'a vp_input list \<Rightarrow> nat" where
  "chains_of sid inbox = length (filter (\<lambda>m. case m of VirtualChain i _ \<Rightarrow> i = sid | _ \<Rightarrow> False) inbox)"

definition continues :: "ack list \<Rightarrow> nat" where
  "continues acks = length (filter (\<lambda>a. a = Continue) acks)"

fun queued :: "u64 \<Rightarrow> sync_state \<Rightarrow> nat" where
  "queued sid (Syncing _ i _ (Some _)) = (if i = sid then 1 else 0)"
| "queued sid _ = 0"

fun at_work :: "syncer \<Rightarrow> nat" where
  "at_work (Requesting _) = 1"
| "at_work _ = 0"

definition tokens :: "('s, 'a, 'm) chain_system \<Rightarrow> u64 \<Rightarrow> nat" where
  "tokens s sid = at_work (cs_syncers s sid) + chains_of sid (cs_inbox s) + queued sid (vp_sync (cs_vp s)) +
     continues (cs_acks s sid)"

fun current :: "sync_state \<Rightarrow> u64 option" where
  "current Initial = None"
| "current (Synced _ _) = None"
| "current (Syncing _ sid _ _) = Some sid"

fun from_syncer :: "'a vp_input \<Rightarrow> bool" where
  "from_syncer (VirtualChain _ _) = True"
| "from_syncer (Stopped _) = True"
| "from_syncer _ = False"

definition sync_inv :: "('s, 'a, 'm) chain_system \<Rightarrow> bool" where
  "sync_inv s \<longleftrightarrow>
     (\<forall>sid. tokens s sid \<le> (if current (vp_sync (cs_vp s)) = Some sid then 1 else 0)) \<and>
     (\<forall>sid. current (vp_sync (cs_vp s)) = Some sid \<longrightarrow> tokens s sid = 1 \<or> cs_syncers s sid = Ended) \<and>
     (\<forall>m \<in> set (cs_inbox s). from_syncer m) \<and>
     (vp_sync (cs_vp s) = Initial \<longrightarrow> cs_inbox s = [] \<and> (\<forall>sid. cs_syncers s sid = Ended \<and> cs_acks s sid = [])) \<and>
     vp_outs (cs_vp s) = []"

lemma token_simps [simp]:
  "chains_of sid [] = 0" "chains_of sid (xs @ ys) = chains_of sid xs + chains_of sid ys"
  "chains_of sid (VirtualChain i r # xs) = (if i = sid then 1 else 0) + chains_of sid xs"
  "chains_of sid (Stopped i # xs) = chains_of sid xs"
  "continues [] = 0" "continues (a # as) = (if a = Continue then 1 else 0) + continues as"
  "continues (as @ bs) = continues as + continues bs"
  by (simp_all add: chains_of_def continues_def)


section \<open>What a round of the processor sends\<close>

text \<open>The messages that steer a syncer.\<close>

fun steers :: "vp_out \<Rightarrow> bool" where
  "steers (RequestSender _ _) = False"
| "steers _ = True"

definition acts :: "('s, 'm) vp \<Rightarrow> vp_out list" where
  "acts st = filter steers (vp_outs st)"

lemma acts_emit [simp]: "acts (emit out st) = acts st @ (if steers out then [out] else [])"
  by (simp add: acts_def emit_def)

lemma emit_simps [simp]:
  "vp_sync (emit out st) = vp_sync st" "vp_db (emit out st) = vp_db st"
  "vp_processed_blocks (emit out st) = vp_processed_blocks st"
  "vp_shutting_down (emit out st) = vp_shutting_down st" "vp_realtime_queue (emit out st) = vp_realtime_queue st"
  by (simp_all add: emit_def)

lemma acts_simps [simp]:
  "acts (st\<lparr>vp_sync := x\<rparr>) = acts st" "acts (st\<lparr>vp_realtime_queue := q\<rparr>) = acts st"
  "acts (st\<lparr>vp_processed_blocks := m\<rparr>) = acts st" "acts (st\<lparr>vp_shutting_down := b\<rparr>) = acts st"
  "acts (st\<lparr>vp_db := d, vp_pushes := ps\<rparr>) = acts st"
  by (simp_all add: acts_def)

lemma deliver_steers: "fold deliver_out outs s = fold deliver_out (filter steers outs) s"
proof (induction outs arbitrary: s)
  case (Cons out outs)
  then show ?case by (cases out) simp_all
qed simp

lemma additions_steer_nothing:
  assumes "rfold (handle_vcc_addition ve blocks c) accepted (d, outs) = Ok (d', outs')"
  shows "filter steers outs' = filter steers outs"
proof -
  have track: "filter steers (snd (snd w')) = filter steers (snd (snd w))"
    if "track_acceptance ve c h daa tx w = Ok w'" for h daa tx w w'
    using that by (auto simp: track_acceptance_def rbind_eq_Ok case_prod_unfold split: option.splits lookup_output.splits)
      (metis lookup_output.exhaust)
  have tracks: "filter steers (snd (snd w')) = filter steers outs"
    if "rfold (track_acceptance ve c h daa) txs (ts, d, outs) = Ok w'" for h daa txs ts d outs w'
    using rfold_invariant [OF that, of "\<lambda>w. filter steers (snd (snd w)) = filter steers outs"] track by fastforce
  have "filter steers (snd w') = filter steers (snd w)" if "handle_vcc_addition ve blocks c b w = Ok w'" for b w w'
    using that tracks by (cases w) (fastforce simp: handle_vcc_addition_def rbind_eq_Ok case_prod_unfold)
  then show ?thesis
    using rfold_invariant [OF assms, of "\<lambda>w. filter steers (snd w) = filter steers outs"] by fastforce
qed

lemma handle_vcc_control:
  assumes "handle_vcc ve vcc st = Ok (l, st')"
  shows "vp_sync st' = vp_sync st \<and> acts st' = acts st"
  using assms by (auto simp: handle_vcc_def Let_def rbind_eq_Ok acts_def dest: additions_steer_nothing)


text \<open>
  How a round moves the state machine, and what it sends: the first argument is the syncer whose
  chain part the round took from the channel.
\<close>

inductive moves :: "u64 option \<Rightarrow> sync_state \<Rightarrow> sync_state \<Rightarrow> vp_out list \<Rightarrow> bool" where
  stay: "current a = current b \<Longrightarrow> (\<And>sid. queued sid a = queued sid b) \<Longrightarrow> (a = Initial \<longleftrightarrow> b = Initial) \<Longrightarrow>
    moves None a b []"
| halt: "current a = Some i \<Longrightarrow> moves None a a [SendAck i Stop]"
| dequeue: "moves None (Syncing l i t (Some v)) (Syncing l' i t' None) [SendAck i Continue]"
| dequeue_last: "moves None (Syncing l i t (Some v)) (Synced i l') [SendAck i Stop]"
| spawn: "current a = None \<Longrightarrow> moves None a (Syncing l i t None) [SpawnSyncer i f]"
| part: "moves (Some i) (Syncing l i t q) (Syncing l' i t q) [SendAck i Continue]"
| part_waits: "moves (Some i) (Syncing l i t None) (Syncing l i t (Some v)) []"
| part_last: "moves (Some i) (Syncing l i t q) (Synced i l') [SendAck i Stop]"

lemma part_result:
  assumes "apply_synced_part ve i t vcc st = Ok st'"
  shows "(\<exists>l. vp_sync st' = Synced i l) \<and> acts st' = acts st @ [SendAck i Stop] \<or>
    (\<exists>l. vp_sync st' = Syncing l i t None) \<and> acts st' = acts st @ [SendAck i Continue]"
  using assms
  by (auto simp: apply_synced_part_def Let_def rbind_eq_Ok handle_vc_resp_def dest!: handle_vcc_control split: if_splits)

lemma drain_control:
  assumes "drain_queue ve i q st = Ok st'" and "\<exists>l. vp_sync st = Synced i l"
  shows "(\<exists>l. vp_sync st' = Synced i l) \<and> acts st' = acts st"
  using assms
proof (induction ve i q st rule: drain_queue.induct)
  case (2 ve i vcc q st)
  show ?case
  proof (cases "vcc_empty vcc \<or> not_ready ve vcc st")
    case True
    then show ?thesis using 2 by (auto split: if_splits)
  next
    case False
    then obtain l st1 where h: "handle_vcc ve vcc st = Ok (l, st1)"
      and d: "drain_queue ve i q (st1\<lparr>vp_sync := Synced i l\<rparr>) = Ok st'"
      using 2(3) by (auto simp: rbind_eq_Ok)
    from 2(2) [OF _ _ d] False have "(\<exists>l. vp_sync st' = Synced i l) \<and> acts st' = acts st1" by simp
    then show ?thesis using handle_vcc_control [OF h] by simp
  qed
qed auto

lemma pending_control: "request_pending ve st = Ok st' \<Longrightarrow> vp_sync st' = vp_sync st \<and> acts st' = acts st"
proof -
  have "vp_sync (fold (\<lambda>k. emit (RequestSender (pk_daa k) (pk_tx_id k))) ks st) = vp_sync st \<and>
    acts (fold (\<lambda>k. emit (RequestSender (pk_daa k) (pk_tx_id k))) ks st) = acts st" for ks and st :: "('a, 'b) vp"
    by (induction ks arbitrary: st) simp_all
  then show "request_pending ve st = Ok st' \<Longrightarrow> ?thesis" by (auto simp: request_pending_def rbind_eq_Ok)
qed

lemma start_syncer_control [simp]:
  "vp_sync (start_syncer i f t st) = Syncing f i t None"
  "acts (start_syncer i f t st) = acts st @ [SpawnSyncer i (fst f)]"
  by (simp_all add: start_syncer_def)

fun part_of :: "'a vp_input \<Rightarrow> u64 option" where
  "part_of (VirtualChain i _) = Some i"
| "part_of _ = None"

definition moved :: "u64 option \<Rightarrow> ('s, 'm) vp \<Rightarrow> ('s, 'm) vp \<Rightarrow> bool" where
  "moved p st st' \<longleftrightarrow> (\<exists>new. moves p (vp_sync st) (vp_sync st') new \<and> acts st' = acts st @ new)"

lemma queued_Syncing [simp]: "queued sid (Syncing l i t q) = (if q \<noteq> None \<and> i = sid then 1 else 0)"
  by (cases q) auto

declare queued.simps(1) [simp del]

lemma moved_stay:
  assumes "current (vp_sync st') = current (vp_sync st)" and "\<And>sid. queued sid (vp_sync st') = queued sid (vp_sync st)"
    and "vp_sync st' = Initial \<longleftrightarrow> vp_sync st = Initial" and "acts st' = acts st"
  shows "moved None st st'"
  unfolding moved_def using assms by (intro exI [of _ "[]"] conjI moves.stay) simp_all

lemma moved_by: "moves p (vp_sync st) (vp_sync st') new \<Longrightarrow> acts st' = acts st @ new \<Longrightarrow> moved p st st'"
  by (auto simp: moved_def)

lemma moved_spawn:
  "current (vp_sync st) = None \<Longrightarrow> vp_sync st' = Syncing l i t None \<Longrightarrow> acts st' = acts st @ [SpawnSyncer i f] \<Longrightarrow>
   moved None st st'"
  by (rule moved_by) (simp_all add: moves.spawn)

lemma moved_dequeue:
  "vp_sync st = Syncing l i t (Some v) \<Longrightarrow> vp_sync st' = Syncing l' i t' None \<Longrightarrow> acts st' = acts st @ [SendAck i Continue] \<Longrightarrow>
   moved None st st'"
  "vp_sync st = Syncing l i t (Some v) \<Longrightarrow> vp_sync st' = Synced i l' \<Longrightarrow> acts st' = acts st @ [SendAck i Stop] \<Longrightarrow>
   moved None st st'"
  by (rule moved_by; simp add: moves.dequeue moves.dequeue_last)+

lemma moved_part:
  "vp_sync st = Syncing l i t q \<Longrightarrow> vp_sync st' = Syncing l' i t q \<Longrightarrow> acts st' = acts st @ [SendAck i Continue] \<Longrightarrow>
   moved (Some i) st st'"
  "vp_sync st = Syncing l i t q \<Longrightarrow> vp_sync st' = Synced i l' \<Longrightarrow> acts st' = acts st @ [SendAck i Stop] \<Longrightarrow>
   moved (Some i) st st'"
  by (rule moved_by; simp add: moves.part moves.part_last)+

lemma connect_moves:
  assumes "handle_connect ve sink work pp st = Ok st'"
  shows "moved None st st'"
proof (cases "vp_sync st")
  case Initial
  then obtain x f where x: "vp_sync x = Initial" "acts x = acts st" "st' = start_syncer 0 f (sink, work) x"
    using assms by (auto simp: handle_connect_def rbind_eq_Ok dest!: pending_control split: option.splits)
  show ?thesis by (rule moved_spawn) (simp_all add: Initial x)
next
  case (Synced i l)
  show ?thesis
  proof (cases "fst l = sink \<or> snd l > work")
    case True
    then show ?thesis using assms Synced by (auto simp: handle_connect_def intro: moved_stay)
  next
    case False
    then have "st' = start_syncer (i + 1) l (sink, work) st"
      using assms Synced by (simp add: handle_connect_def)
    then show ?thesis by (intro moved_spawn) (simp_all add: Synced)
  qed
next
  case (Syncing l i t q)
  then show ?thesis using assms by (auto simp: handle_connect_def intro!: moved_stay)
qed

lemma realtime_moves: "handle_realtime_vcc ve vcc st = Ok st' \<Longrightarrow> moved None st st'"
  by (cases "vp_sync st")
    (auto simp: handle_realtime_vcc_def rbind_eq_Ok dest!: handle_vcc_control split: if_splits intro!: moved_stay)

lemma shutdown_moves: "moved None st (snd (handle_shutdown st))"
proof (cases "vp_sync st")
  case (Syncing l i t q)
  then show ?thesis by (auto simp: handle_shutdown_def Let_def intro!: moved_by moves.halt)
qed (auto simp: handle_shutdown_def Let_def intro!: moved_stay)

lemma block_moves:
  assumes "handle_processed_block ve ch st = Ok st'"
  shows "moved None st st'"
proof (cases "vp_sync st")
  case Initial
  then show ?thesis using assms by (auto simp: handle_processed_block_def intro!: moved_stay)
next
  case (Synced i l)
  then show ?thesis
    using assms drain_control [of ve i "vp_realtime_queue st" "remember_block ve ch st" st']
    by (auto simp: handle_processed_block_def Let_def remember_block_def intro!: moved_stay)
next
  case (Syncing l i t q)
  show ?thesis
  proof (cases "q = None \<or> (\<exists>v. q = Some v \<and> not_ready ve v (remember_block ve ch st))")
    case True
    then show ?thesis using assms Syncing
      by (auto simp: handle_processed_block_def Let_def remember_block_def intro!: moved_stay)
  next
    case False
    then obtain v where q: "q = Some v" by (cases q) auto
    have "apply_synced_part ve i t v ((remember_block ve ch st)\<lparr>vp_sync := Syncing l i t None\<rparr>) = Ok st'"
      using assms Syncing False q by (auto simp: handle_processed_block_def Let_def)
    from part_result [OF this] show ?thesis
      by (auto simp: Syncing q remember_block_def Let_def intro: moved_dequeue)
  qed
qed

lemma syncer_moves:
  assumes "handle_syncer_vc ve i vcc st = Ok st'"
  shows "moved (Some i) st st'"
proof -
  obtain l t q where sync: "vp_sync st = Syncing l i t q"
    using assms by (auto simp: handle_syncer_vc_def split: sync_state.splits if_splits)
  consider "vcc_empty vcc" | "\<not> vcc_empty vcc" "not_ready ve vcc st" | "\<not> vcc_empty vcc" "\<not> not_ready ve vcc st" by blast
  then show ?thesis
  proof cases
    case 1
    then show ?thesis using assms sync by (auto simp: handle_syncer_vc_def intro!: moved_by moves.part)
  next
    case 2
    then show ?thesis using assms sync
      by (auto simp: handle_syncer_vc_def split: if_splits intro!: moved_by moves.part_waits)
  next
    case 3
    then obtain st1 where st1: "apply_synced_part ve i t vcc st = Ok st1"
      "st' = (case vp_sync st1 of Syncing l i t _ \<Rightarrow> st1\<lparr>vp_sync := Syncing l i t q\<rparr> | _ \<Rightarrow> st1)"
      using assms sync by (auto simp: handle_syncer_vc_def rbind_eq_Ok)
    from part_result [OF this(1)] this(2) show ?thesis
      by (elim disjE exE conjE)
        (auto simp: sync intro: moved_part)
  qed
qed

lemma step_moves:
  assumes "process_step ve i st = Ok (cont, st')"
  shows "moved (part_of i) st st'"
proof -
  have "moved None st st'" if "st' = handle_disconnected st \<or> st' = st \<or> handle_sender_resolution ve a tx daa st = Ok st'" for a tx daa
    using that by (auto simp: handle_disconnected_def handle_sender_resolution_def rbind_eq_Ok intro!: moved_stay)
  then show ?thesis
    using assms shutdown_moves [of st]
    by (cases i)
      (auto simp: process_step_def Let_def rbind_eq_Ok dest: connect_moves realtime_moves block_moves syncer_moves)
qed

section \<open>The invariant\<close>

text \<open>What a round does to the conversation of each syncer.\<close>

lemma deliver_acts: "vp_outs st = [] \<Longrightarrow> acts st' = acts st @ new \<Longrightarrow>
    processed cont st' s = fold deliver_out new (s\<lparr>cs_vp := st'\<lparr>vp_outs := []\<rparr>, cs_running := cont\<rparr>)"
  unfolding processed_def by (subst deliver_steers) (simp add: acts_def)

lemma sync_invI:
  assumes "\<And>sid. tokens s sid \<le> (if current (vp_sync (cs_vp s)) = Some sid then 1 else 0)"
    and "\<And>sid. current (vp_sync (cs_vp s)) = Some sid \<Longrightarrow> tokens s sid = 1 \<or> cs_syncers s sid = Ended"
    and "\<And>m. m \<in> set (cs_inbox s) \<Longrightarrow> from_syncer m"
    and "vp_sync (cs_vp s) = Initial \<Longrightarrow> cs_inbox s = [] \<and> (\<forall>sid. cs_syncers s sid = Ended \<and> cs_acks s sid = [])"
    and "vp_outs (cs_vp s) = []"
  shows "sync_inv s"
  using assms by (simp add: sync_inv_def)

lemma sync_inv_processed:
  assumes inv: "sync_inv s" and m: "moves p (vp_sync (cs_vp s)) (vp_sync st') new" and a: "acts st' = acts (cs_vp s) @ new"
    and inbox: "case p of None \<Rightarrow> inbox = cs_inbox s \<or> (\<exists>j. cs_inbox s = Stopped j # inbox)
      | Some i \<Rightarrow> \<exists>r. cs_inbox s = VirtualChain i r # inbox"
  shows "sync_inv (processed cont st' (s\<lparr>cs_inbox := inbox\<rparr>))"
proof -
  have outs: "vp_outs (cs_vp s) = []"
    and bound: "\<And>sid. tokens s sid \<le> (if current (vp_sync (cs_vp s)) = Some sid then 1 else 0)"
    and alive: "\<And>sid. current (vp_sync (cs_vp s)) = Some sid \<Longrightarrow> tokens s sid = 1 \<or> cs_syncers s sid = Ended"
    and initial: "vp_sync (cs_vp s) = Initial \<Longrightarrow> cs_inbox s = [] \<and> (\<forall>sid. cs_syncers s sid = Ended \<and> cs_acks s sid = [])"
    and msgs: "\<And>m. m \<in> set inbox \<Longrightarrow> from_syncer m"
    using inv inbox by (auto simp: sync_inv_def split: option.splits)
  have here: "chains_of sid (cs_inbox s) = chains_of sid inbox + (if p = Some sid then 1 else 0)" for sid
    using inbox by (auto split: option.splits)
  let ?s = "processed cont st' (s\<lparr>cs_inbox := inbox\<rparr>)"
  note S = deliver_acts [OF outs a] tokens_def
  show ?thesis
  proof (rule sync_invI)
    show "tokens ?s sid \<le> (if current (vp_sync (cs_vp ?s)) = Some sid then 1 else 0)" for sid
      using m bound [of sid] here [of sid] by cases (auto simp: S)
    show "tokens ?s sid = 1 \<or> cs_syncers ?s sid = Ended" if "current (vp_sync (cs_vp ?s)) = Some sid" for sid
      using m alive [of sid] bound [of sid] here [of sid] that by cases (auto simp: S)
    show "from_syncer m" if "m \<in> set (cs_inbox ?s)" for m
      using m msgs that by cases (auto simp: S)
    show "cs_inbox ?s = [] \<and> (\<forall>sid. cs_syncers ?s sid = Ended \<and> cs_acks ?s sid = [])"
      if "vp_sync (cs_vp ?s) = Initial"
      using m initial inbox that by cases (auto simp: S)
    show "vp_outs (cs_vp ?s) = []"
      using m by cases (auto simp: S)
  qed
qed


lemma sync_inv_syncer:
  assumes inv: "sync_inv s" and old: "cs_syncers s sid = sy" "sy \<noteq> Ended"
    and same: "vp_sync (cs_vp s') = vp_sync (cs_vp s)" "vp_outs (cs_vp s') = []"
    and syncers: "cs_syncers s' = (cs_syncers s)(sid := sy')" and acks: "cs_acks s' = (cs_acks s)(sid := acks')"
    and inbox: "cs_inbox s' = cs_inbox s @ msgs" "\<And>m. m \<in> set msgs \<Longrightarrow> from_syncer m" "\<And>i. i \<noteq> sid \<Longrightarrow> chains_of i msgs = 0"
    and token: "sy' = Ended \<and> chains_of sid msgs = 0 \<and> continues acks' \<le> continues (cs_acks s sid) \<or>
      at_work sy' + chains_of sid msgs + continues acks' = at_work sy + continues (cs_acks s sid)"
  shows "sync_inv s'"
proof (rule sync_invI)
  have bound: "tokens s i \<le> (if current (vp_sync (cs_vp s)) = Some i then 1 else 0)" for i
    using inv by (simp add: sync_inv_def)
  show "tokens s' i \<le> (if current (vp_sync (cs_vp s')) = Some i then 1 else 0)" for i
    using bound [of i] old(1) token inbox by (cases "i = sid") (auto simp: tokens_def same syncers acks)
  show "tokens s' i = 1 \<or> cs_syncers s' i = Ended" if "current (vp_sync (cs_vp s')) = Some i" for i
  proof -
    have "tokens s i = 1 \<or> cs_syncers s i = Ended" using inv that same by (simp add: sync_inv_def)
    then show ?thesis using bound [of i] old token inbox that
      by (cases "i = sid") (auto simp: tokens_def same syncers acks)
  qed
  have busy: "vp_sync (cs_vp s) \<noteq> Initial" using inv old by (auto simp: sync_inv_def)
  show "from_syncer m" if "m \<in> set (cs_inbox s')" for m
    using inv inbox that by (auto simp: sync_inv_def)
  show "cs_inbox s' = [] \<and> (\<forall>sid. cs_syncers s' sid = Ended \<and> cs_acks s' sid = [])" if "vp_sync (cs_vp s') = Initial"
    using that busy same by simp
qed (rule same)


lemma sync_inv_step:
  assumes "sync_inv s" and "chain_step ve s s'"
  shows "sync_inv s'"
  using assms(2)
proof cases
  case (response sid "from" r sy msg)
  then show ?thesis
    by (intro sync_inv_syncer [OF assms(1), where sid = sid and msgs = "[msg]" and acks' = "cs_acks s sid"])
      (use assms(1) in \<open>auto simp: sync_inv_def\<close>)
next
  case (failure sid "from" sy msg pruned)
  then show ?thesis
    by (intro sync_inv_syncer [OF assms(1), where sid = sid and msgs = "[msg]" and acks' = "cs_acks s sid"])
      (use assms(1) in \<open>auto simp: sync_inv_def self_heal_def\<close>)
next
  case (ack sid a rest sy)
  have sent: "vp_outs (cs_vp s) = []" using assms(1) by (simp add: sync_inv_def)
  consider (go) f where "cs_syncers s sid = Awaiting f" "a = Continue" "sy = Requesting f"
    | (stop) "cs_syncers s sid \<noteq> Ended" "sy = Ended"
    using ack(3) by (cases "cs_syncers s sid"; cases a) auto
  then show ?thesis
  proof cases
    case go
    show ?thesis
      by (rule sync_inv_syncer [OF assms(1), where sid = sid and acks' = rest and msgs = "[]"])
        (use ack go sent in auto)
  next
    case stop
    show ?thesis
      by (rule sync_inv_syncer [OF assms(1), where sid = sid and acks' = rest and msgs = "[Stopped sid]"])
        (use ack stop sent in auto)
  qed
next
  case (message msg rest cont st)
  obtain new where "moves (part_of msg) (vp_sync (cs_vp s)) (vp_sync st) new" "acts st = acts (cs_vp s) @ new"
    using step_moves [OF message(4)] by (auto simp: moved_def)
  moreover have "from_syncer msg" using assms(1) message(3) by (simp add: sync_inv_def)
  ultimately show ?thesis using message(1,3) sync_inv_processed [OF assms(1), of "part_of msg" st new rest]
    by (cases msg) auto
next
  case (input i cont st)
  obtain new where "moves (part_of i) (vp_sync (cs_vp s)) (vp_sync st) new" "acts st = acts (cs_vp s) @ new"
    using step_moves [OF input(4)] by (auto simp: moved_def)
  then show ?thesis
    using input(1,3) sync_inv_processed [OF assms(1), of "part_of i" st new "cs_inbox s"] by (cases i) auto
qed

lemma sync_inv_reachable: "chain_reachable ve s \<Longrightarrow> sync_inv s"
proof (induction rule: chain_reachable.induct)
  case (start d blocks asc)
  then show ?case by (simp add: sync_inv_def tokens_def chain_start_def vp_new_def)
next
  case (step s s')
  then show ?case using sync_inv_step by blast
qed


section \<open>What the invariant gives\<close>

text \<open>Applying a chain change does not depend on what has been sent before.\<close>

lemma rfold_prefix:
  assumes "\<And>x d os. f x (d, p @ os) = map_res (\<lambda>(d, os). (d, p @ os)) (f x (d, os))"
  shows "rfold f xs (d, p @ os) = map_res (\<lambda>(d, os). (d, p @ os)) (rfold f xs (d, os))"
proof (induction xs arbitrary: d os)
  case (Cons x xs)
  then show ?case using assms [of x d os] by (cases "f x (d, os)") auto
qed simp

lemma track_prefix:
  "track_acceptance ve c h daa tx (ts, d, p @ os) = map_res (\<lambda>(ts, d, os). (ts, d, p @ os)) (track_acceptance ve c h daa tx (ts, d, os))"
proof (cases "acceptance_key_of (ve_kv ve) c tx")
  case (Ok found)
  show ?thesis
  proof (cases found)
    case (Some key)
    with Ok show ?thesis
      by (cases "acceptance_update (ve_kv ve) key h daa d")
        (auto simp: track_acceptance_def split: lookup_output.splits)
  qed (simp add: track_acceptance_def Ok)
qed (simp_all add: track_acceptance_def)

lemma tracks_prefix:
  "rfold (track_acceptance ve c h daa) txs (ts, d, p @ os) =
    map_res (\<lambda>(ts, d, os). (ts, d, p @ os)) (rfold (track_acceptance ve c h daa) txs (ts, d, os))"
proof (induction txs arbitrary: ts d os)
  case (Cons tx txs)
  show ?case
    using Cons.IH by (cases "track_acceptance ve c h daa tx (ts, d, os)") (auto simp: track_prefix)
qed simp

lemma addition_prefix:
  "handle_vcc_addition ve blocks c b (d, p @ os) = map_res (\<lambda>(d, os). (d, p @ os)) (handle_vcc_addition ve blocks c b (d, os))"
proof (cases b)
  case (Pair h txs)
  show ?thesis
  proof (cases "rg_get (ve_ring ve) blocks h")
    case (Some w)
    then show ?thesis
      by (cases w; cases "rfold (track_acceptance ve c h (fst w)) txs ([], d, os)")
        (auto simp: Pair handle_vcc_addition_def tracks_prefix)
  qed (simp add: Pair handle_vcc_addition_def)
qed

lemma additions_prefix:
  "rfold (handle_vcc_addition ve blocks c) bs (d, p @ os) =
    map_res (\<lambda>(d, os). (d, p @ os)) (rfold (handle_vcc_addition ve blocks c) bs (d, os))"
  by (rule rfold_prefix) (rule addition_prefix)

lemma rbind_eq_Panic: "rbind r f = Panic \<longleftrightarrow> r = Panic \<or> (\<exists>x. r = Ok x \<and> f x = Panic)"
  by (cases r) auto

lemma handle_vcc_emit: "handle_vcc ve vcc (emit out st) = Panic \<longleftrightarrow> handle_vcc ve vcc st = Panic"
proof -
  note pre = additions_prefix [of ve "vp_processed_blocks st" "vp_db st" "vc_accepted vcc" _ _ "[]", simplified]
  show ?thesis
  proof (cases "rfold (handle_vcc_removal ve (vp_processed_blocks st) (vp_db st)) (vc_removed vcc) (vp_db st)")
    case (Ok d)
    then show ?thesis
      by (cases "rfold (handle_vcc_addition ve (vp_processed_blocks st) (vp_db st)) (vc_accepted vcc) (d, [])")
        (auto simp: handle_vcc_def Let_def emit_def rbind_eq_Panic pre [of _ "vp_outs st @ [out]"] pre [of _ "vp_outs st"])
  qed (auto simp: handle_vcc_def Let_def emit_def)
qed


lemma part_panics:
  assumes "apply_synced_part ve i t vcc st = Panic" and "vc_added vcc \<noteq> []" and "\<not> not_ready ve vcc st"
  shows "handle_vcc ve vcc st = Panic"
proof -
  have "rg_get (ve_ring ve) (vp_processed_blocks st) (last (vc_added vcc)) \<noteq> None"
    using assms(2,3) by (simp add: not_ready_def rg_contains_def)
  then show ?thesis
    using assms(1,2) handle_vcc_emit [of ve vcc "SendAck i Stop" st]
    by (auto simp: apply_synced_part_def Let_def handle_vc_resp_def rbind_eq_Panic case_prod_unfold split: if_splits)
qed

lemma part_expected:
  assumes "sync_inv s" and "cs_inbox s = VirtualChain i vcc # rest"
  shows "\<exists>l t. vp_sync (cs_vp s) = Syncing l i t None"
proof -
  have bound: "tokens s i \<le> (if current (vp_sync (cs_vp s)) = Some i then 1 else 0)"
    using assms(1) by (simp add: sync_inv_def)
  have "tokens s i = 1 + at_work (cs_syncers s i) + chains_of i rest + queued i (vp_sync (cs_vp s)) + continues (cs_acks s i)"
    by (simp add: tokens_def assms(2))
  with bound show ?thesis by (cases "vp_sync (cs_vp s)") (auto split: if_splits)
qed

lemma message_no_panic:
  assumes "chain_reachable ve s" and "cs_inbox s = msg # rest" and "process_step ve msg (cs_vp s) = Panic"
  shows "\<exists>i vcc. msg = VirtualChain i vcc \<and> \<not> vcc_empty vcc \<and> (vc_added vcc = [] \<or> handle_vcc ve vcc (cs_vp s) = Panic)"
proof -
  have inv: "sync_inv s" by (rule sync_inv_reachable [OF assms(1)])
  then have "from_syncer msg" using assms(2) by (simp add: sync_inv_def)
  then show ?thesis
  proof (cases msg)
    case (VirtualChain i vcc)
    obtain l t where "vp_sync (cs_vp s) = Syncing l i t None"
      using part_expected [OF inv] assms(2) VirtualChain by blast
    then show ?thesis
      using assms(3) part_panics [of ve i t vcc "cs_vp s"] VirtualChain
      by (auto simp: process_step_def handle_syncer_vc_def rbind_eq_Panic split: if_splits)
  next
    case (Stopped i)
    have "vp_sync (cs_vp s) \<noteq> Initial" using inv assms(2) by (auto simp: sync_inv_def)
    then show ?thesis using assms(3) Stopped
      by (cases "vp_sync (cs_vp s)") (auto simp: process_step_def handle_syncer_stopped_def rbind_eq_Panic split: if_splits)
  qed auto
qed

lemma ack_no_panic:
  assumes "chain_reachable ve s" and "cs_acks s i = a # rest"
  shows "syncer_ack (cs_syncers s i) a \<noteq> Panic"
proof
  assume "syncer_ack (cs_syncers s i) a = Panic"
  then obtain f where "cs_syncers s i = Requesting f" "a = Continue" by (cases "cs_syncers s i"; cases a) auto
  moreover have "tokens s i \<le> 1" using sync_inv_reachable [OF assms(1)] by (auto simp: sync_inv_def split: if_splits)
  ultimately show False using assms(2) by (simp add: tokens_def)
qed

text \<open>While the processor is catching up, the conversation is never lost: someone holds the next move.\<close>

lemma someone_moves:
  assumes "chain_reachable ve s" and "vp_sync (cs_vp s) = Syncing l i t q" and "cs_syncers s i \<noteq> Ended"
  shows "(\<exists>f. cs_syncers s i = Requesting f) \<or> (\<exists>vcc. VirtualChain i vcc \<in> set (cs_inbox s)) \<or> q \<noteq> None \<or>
    Continue \<in> set (cs_acks s i)"
proof -
  have "tokens s i = 1" using sync_inv_reachable [OF assms(1)] assms(2,3) by (auto simp: sync_inv_def)
  then consider "at_work (cs_syncers s i) > 0" | "chains_of i (cs_inbox s) > 0" | "q \<noteq> None" | "continues (cs_acks s i) > 0"
    using assms(2) by (fastforce simp: tokens_def split: if_splits)
  then show ?thesis
  proof cases
    case 1
    then show ?thesis by (cases "cs_syncers s i") auto
  next
    case 2
    then obtain m where m: "m \<in> set (cs_inbox s)" "case m of VirtualChain j _ \<Rightarrow> j = i | _ \<Rightarrow> False"
      by (auto simp: chains_of_def filter_empty_conv)
    from m(2) have "\<exists>vcc. m = VirtualChain i vcc" by (cases m) auto
    with m(1) show ?thesis by blast
  next
    case 4
    then show ?thesis by (auto simp: continues_def filter_empty_conv)
  qed simp
qed

end
