(* ===== verification/Index_Steps.thy ===== *)
theory Index_Steps
  imports Index_Writes Block_Loop Chain_Sync
begin

text \<open>
  The rest of the handlers as sequences of writes, and the life of the index: blocks are processed,
  the virtual chain moves, senders arrive, old blocks are pruned. The invariants of the index follow.
\<close>

section \<open>Resolving a sender\<close>

context indexer begin

lemma read_lengths:
  "rk_read b = Some rk \<Longrightarrow> length (rk_bytes rk) = 107" "sk_read b = Some sk \<Longrightarrow> length (sk_bytes (sk\<lparr>sk_sender := s\<rparr>)) = 107 + length (address_bytes s)"
  "ck_read b = Some ck \<Longrightarrow> length (ck_bytes (ck\<lparr>ck_sender := s\<rparr>)) = 123 + length (address_bytes s)"
  "ik_read b = Some ik \<Longrightarrow> length (ik_bytes ik) = 56"
  "ok_read b = Some ow \<Longrightarrow> length (ok_bytes (ow\<lparr>ok_owner := s\<rparr>)) = 328 + length (address_bytes s)"
  "gk_read b = Some gk \<Longrightarrow> length (gk_bytes gk) = 105 \<and> length (gk_group_id gk) = 32 \<and> take 32 (gk_bytes gk) = gk_group_id gk"
  "lk_read b = Some lk \<Longrightarrow> length (lk_bytes (lk\<lparr>lk_sender := s\<rparr>)) = 107 + length (address_bytes s)"
  by (auto simp: key_read_defs key_bytes_defs read_fields_def address_field_def address_bytes_def
      split: if_splits)

lemma tx_id_lengths:
  "gk_read b = Some gk \<Longrightarrow> length (gk_tx_id gk) = 32"
  by (auto simp: gk_read_def read_fields_def split: if_splits)

lemma resolve_entry_writes:
  assumes "resolve_entry rs p a k w = Ok w'" and en: "rs_env rs = en" and s: "address_ok (rs_sender rs)"
  shows "writes en (fst w) (fst w')"
proof -
  note simps = expect_action_def handler_defs index_defs rbind_eq_Ok en insert_with_sender_iff Let_def read_lengths
  show ?thesis
  proof (cases p)
    case GroupMessageByBlindedGroupId
    obtain key payload where key: "gk_read k = Some key" and r: "settle_group_message rs key payload w = Ok w'"
      using assms(1) by (auto simp: GroupMessageByBlindedGroupId resolve_group_message_def expect_action_def en rbind_eq_Ok
          split: if_splits)
    have author: "author_ok en (snd (check_or_bind (en_kv en) (gk_group_id key) pk d)) (gk_bytes key) (Some (rs_sender rs))"
      if "matches_xonly_pubkey (en_kp en) (rs_sender rs) pk" "fst (check_or_bind (en_kv en) (gk_group_id key) pk d)" for pk d
      using that read_lengths(6) [OF key] by (auto simp: author_ok_def check_or_bind_obs split: option.splits)
    note key' = read_lengths(6) [OF key]
    have reject: "writes en (fst w) (fst (on_keyspace (\<lambda>d. tx_group_message_remove (en_kv en) (gk_tx_id key)
        (group_message_remove (en_kv en) key d)) w))"
      by (auto simp: handler_defs index_defs intro!: writes_intros)
    show ?thesis
    proof (cases "\<exists>gm. parse_sealed_operation (legacy_protocol_prefix @ version_1_part @ ascii ''gcomm:'' @ utf8_lossy payload) =
        Some (GroupMessageV1 gm)")
      case False
      then have "w' = on_keyspace (\<lambda>d. tx_group_message_remove (en_kv en) (gk_tx_id key) (group_message_remove (en_kv en) key d)) w"
        using r by (auto simp: settle_group_message_def Let_def en split: option.splits sealed_operation.splits)
      then show ?thesis using reject by simp
    next
      case True
      then obtain gm where gm: "parse_sealed_operation (legacy_protocol_prefix @ version_1_part @ ascii ''gcomm:'' @ utf8_lossy payload) =
        Some (GroupMessageV1 gm)" by blast
      then obtain pk where pk: "decode_fixed_hex en 32 (gm_sender_pub gm) = Some pk"
        using r by (auto simp: settle_group_message_def Let_def rbind_eq_Ok en)
      show ?thesis
      proof (cases "matches_xonly_pubkey (en_kp en) (rs_sender rs) pk")
        case False
        then show ?thesis using r gm pk reject by (auto simp: settle_group_message_def Let_def en)
      next
        case True
        then show ?thesis using r hex_length [OF pk] key' author [OF True] s
          by (auto simp: settle_group_message_def gm pk en Let_def case_prod_unfold handler_defs index_defs rbind_eq_Ok insert_with_sender_iff
              intro!: writes_intros split: if_splits)
      qed
    qed
  qed (use assms(1) s in \<open>auto simp: simps resolve_simps case_prod_unfold intro!: writes_intros split: if_splits option.splits\<close>)
qed

lemma resolve_loop_writes:
  assumes "resolve_loop entry_key_len (resolve_entry rs) b w = Ok w'" and "rs_env rs = en" and "address_ok (rs_sender rs)"
  shows "writes en (fst w) (fst w')"
  using assms(1)
proof (induction "length b" arbitrary: b w rule: less_induct)
  case less
  show ?case
  proof (cases b)
    case (Cons c r)
    then obtain p n act w1 where e: "resolve_entry rs p act (take n (tl r)) w = Ok w1"
      and rest: "resolve_loop entry_key_len (resolve_entry rs) (drop n (tl r)) w1 = Ok w'"
      using less.prems by (auto simp: rbind_eq_Ok split: if_splits)
    have "length (drop n (tl r)) < length b" by (simp add: Cons)
    from less.hyps [OF this rest] resolve_entry_writes [OF e assms(2,3)] show ?thesis by simp
  qed (use less.prems in simp)
qed

lemma sender_writes:
  assumes "handle_sender_address en a t daa d = Ok (d', events)"
  shows "writes en d d'"
proof -
  obtain s key where s: "payload_of (en_kp en) a = Ok s" and key: "acceptance_key_of (en_kv en) d t = Ok (Some key)"
    and r: "(let rs = \<lparr>rs_env = en, rs_sender = s, rs_daa = daa, rs_rtx = d\<rparr>;
           w = pending_remove (en_kv en) \<lparr>pk_daa = daa, pk_tx_id = t\<rparr> d
       in rbind (resolve_entries (en_kv en) key entry_key_len (resolve_entry rs) (w, [])) (\<lambda>p.
          Ok (fst (snd p), if en_push en then snd (snd p) else []))) = Ok (d', events)"
    using assms unfolding handle_sender_address_def rbind_eq_Ok unwrap_eq case_prod_unfold by blast
  define rs where "rs = \<lparr>rs_env = en, rs_sender = s, rs_daa = daa, rs_rtx = d\<rparr>"
  have rs: "rs_env rs = en" "address_ok (rs_sender rs)"
    using address_of_script_ok(2) [OF kaspa s [unfolded payload_of_def]] by (simp_all add: rs_def)
  let ?w = "pending_remove (en_kv en) \<lparr>pk_daa = daa, pk_tx_id = t\<rparr> d"
  obtain old st where fu: "kv_fetch_update (en_kv en) (ak_bytes key) (map_option (take header_len)) (?w Tx_Id_To_Acceptance) = (old, st)"
    by (metis surj_pair)
  have "writes en d ?w" by (auto simp: index_defs intro!: writes_intros)
  moreover have "writes en ?w (?w(Tx_Id_To_Acceptance := st))"
  proof -
    have "kv_get (en_kv en) st = (kv_get (en_kv en) (?w Tx_Id_To_Acceptance))(ak_bytes key :=
        map_option (take header_len) (kv_get (en_kv en) (?w Tx_Id_To_Acceptance) (ak_bytes key)))"
      using fetch_update(2) [of "ak_bytes key" "map_option (take header_len)" "?w Tx_Id_To_Acceptance"] by (simp add: fu)
    then have "index_write en ?w (?w(Tx_Id_To_Acceptance := st))"
      by (intro index_write.resolved [where k = "ak_bytes key"]) (auto simp: obs_def fun_eq_iff)
    then show ?thesis by blast
  qed
  moreover have "writes en (?w(Tx_Id_To_Acceptance := st)) d'"
    using r resolve_loop_writes [OF _ rs]
    by (fastforce simp: rs_def [symmetric] Let_def rbind_eq_Ok resolve_entries_def fu split: option.splits if_splits)
  ultimately show ?thesis by simp
qed

end

section \<open>The virtual chain\<close>

definition vcc_ok :: "vcc \<Rightarrow> bool" where
  "vcc_ok vcc \<longleftrightarrow> list_all (\<lambda>h. length h = 32) (vc_removed vcc) \<and> list_all (\<lambda>h. length h = 32) (vc_added vcc) \<and>
     list_all (\<lambda>(h, txs). length h = 32 \<and> list_all (\<lambda>t. length t = 32) txs) (vc_accepted vcc)"

lemma dc_read_length: "dc_read b \<noteq> None \<longleftrightarrow> length b = 64"
  by (auto simp: dc_read_def read_fields_def)

lemma read_fields_lengths: "read_fields ns b = Some fs \<Longrightarrow> map length fs = ns"
proof -
  have "sum_list ns = length b \<Longrightarrow> map length (cut ns b) = ns"
    by (induction ns arbitrary: b) auto
  then show "read_fields ns b = Some fs \<Longrightarrow> ?thesis" by (auto simp: read_fields_def split: if_splits)
qed

context indexer begin

lemma cursor_writes:
  assumes "set_latest_accepting_cursor (en_kv en) c d = Ok d'" and "length (dc_bytes c) = 64"
  shows "writes en d d'"
proof -
  define f where "f = (\<lambda>old_value. case old_value of
               None \<Rightarrow> Some (dc_bytes c)
             | Some old \<Rightarrow>
                 (case dc_read old of
                    Some c' \<Rightarrow> if dc_blue_work c > dc_blue_work c' then Some (dc_bytes c) else Some old
                  | None \<Rightarrow> Some old))"
  obtain old s where fu: "kv_fetch_update (en_kv en) latest_accepting_key f (d Metadata_Store) = (old, s)" by (metis surj_pair)
  have old: "old = kv_get (en_kv en) (d Metadata_Store) latest_accepting_key"
    and s: "kv_get (en_kv en) s = (kv_get (en_kv en) (d Metadata_Store))(latest_accepting_key := f old)"
    using fetch_update [of latest_accepting_key f "d Metadata_Store"] by (simp_all add: fu)
  have ok: "\<not> (old \<noteq> None \<and> Option.bind old dc_read = None)" and d': "d' = d(Metadata_Store := s)"
    using assms(1) by (auto simp: set_latest_accepting_cursor_def f_def [symmetric] fu split: if_splits)
  have "\<exists>v. f old = Some v \<and> length v = 64"
  proof (cases old)
    case None
    then show ?thesis using assms(2) by (simp add: f_def)
  next
    case (Some b)
    then have "length b = 64" using ok dc_read_length [of b] by auto
    then show ?thesis using Some assms(2) by (auto simp: f_def split: option.splits)
  qed
  then obtain v where v: "f old = Some v" "length v = 64" by blast
  have "obs (en_kv en) d' = (obs (en_kv en) d)(Metadata_Store := (obs (en_kv en) d Metadata_Store)(latest_accepting_key \<mapsto> v))"
    using s v(1) by (auto simp: obs_def d' fun_eq_iff)
  then show ?thesis
    by (rule writes_obs(1) [OF rtranclp.rtrancl_refl, rotated 2]) (simp_all add: v(2) latest_block_key_def latest_accepting_key_def)
qed

lemma update_writes:
  assumes "acceptance_update (en_kv en) key h daa d = Ok (out, d')" and "ak_ok key" and "length h = 32"
  shows "writes en d d'"
  using index_write.accept [OF assms(2,3) acceptance_update_obs(1) [OF assms(1)]] by blast

lemma acceptance_key_ok: "acceptance_key_of (en_kv en) c t = Ok (Some key) \<Longrightarrow> ak_ok key"
  using key_by_tx_id_ok by (simp add: acceptance_key_of_def)

lemma removal_writes:
  assumes "handle_vcc_removal ve blocks c h d = Ok d'" and "ve_env ve = en" and "length h = 32"
  shows "writes en d d'"
proof -
  obtain ids d1 where rm: "accepting_remove (en_kv en) h d = (ids, d1)" by (metis surj_pair)
  have "writes en d d1"
    using accepting_remove_obs(2) [of h d] rm by (intro writes_obs(2) [OF rtranclp.rtrancl_refl, of Accepting_Block_To_Tx_Id]) simp_all
  moreover have "writes en d1 d'"
  proof (cases ids)
    case None
    then show ?thesis using assms by (simp add: handle_vcc_removal_def rm)
  next
    case (Some txs)
    then obtain daa where w: "rfold (\<lambda>tx_id d.
                rbind (acceptance_key_of (en_kv en) c tx_id) (\<lambda>found.
                rbind (unwrap found) (\<lambda>key.
                rbind (acceptance_update (en_kv en) key h daa d) (\<lambda>(lookup_results, d).
                  Ok (if lookup_results = KeysExistsWithEntries
                      then pending_remove (en_kv en) \<lparr>pk_daa = daa, pk_tx_id = tx_id\<rparr> d else d)))))
              txs d1 = Ok d'"
      using assms by (auto simp: handle_vcc_removal_def rm rbind_eq_Ok)
    show ?thesis
    proof (rule rfold_invariant [OF w])
      fix x a b
      assume a: "writes en d1 a" and "rbind (acceptance_key_of (en_kv en) c x) (\<lambda>found. rbind (unwrap found) (\<lambda>key.
                rbind (acceptance_update (en_kv en) key h daa a) (\<lambda>(lookup_results, d).
                  Ok (if lookup_results = KeysExistsWithEntries
                      then pending_remove (en_kv en) \<lparr>pk_daa = daa, pk_tx_id = x\<rparr> d else d)))) = Ok b"
      then obtain key lr a1 where key: "acceptance_key_of (en_kv en) c x = Ok (Some key)"
        and u: "acceptance_update (en_kv en) key h daa a = Ok (lr, a1)"
        and b: "b = (if lr = KeysExistsWithEntries then pending_remove (en_kv en) \<lparr>pk_daa = daa, pk_tx_id = x\<rparr> a1 else a1)"
        by (auto simp: rbind_eq_Ok)
      have "writes en d1 a1" using update_writes [OF u acceptance_key_ok [OF key] assms(3)] a by simp
      then show "writes en d1 b" by (auto simp: b index_defs intro: writes_intros)
    qed simp
  qed
  ultimately show ?thesis by simp
qed

lemma addition_writes:
  assumes "handle_vcc_addition ve blocks c (h, txs) (d, outs) = Ok (d', outs')" and "ve_env ve = en"
    and "length h = 32" and "list_all (\<lambda>t. length t = 32) txs"
  shows "writes en d d'"
proof -
  obtain w r where tr: "rfold (track_acceptance ve c h (fst w)) txs ([], d, outs) = Ok r"
    and d': "d' = accepting_insert (en_kv en) h (fst r) (fst (snd r))"
    using assms(1,2) by (auto simp: handle_vcc_addition_def rbind_eq_Ok case_prod_unfold)
  have "writes en d (fst (snd r)) \<and> list_all (\<lambda>t. length t = 32) (fst r)"
  proof (rule rfold_invariant [OF tr])
    fix x a b
    assume x: "x \<in> set txs" and a: "writes en d (fst (snd a)) \<and> list_all (\<lambda>t. length t = 32) (fst a)"
      and step: "track_acceptance ve c h (fst w) x a = Ok b"
    have len: "length x = 32" using assms(4) x by (auto simp: list_all_iff)
    show "writes en d (fst (snd b)) \<and> list_all (\<lambda>t. length t = 32) (fst b)"
    proof (cases "\<exists>key. acceptance_key_of (en_kv en) c x = Ok (Some key)")
      case False
      then show ?thesis using step a assms(2)
        by (auto simp: track_acceptance_def case_prod_unfold rbind_eq_Ok split: option.splits)
    next
      case True
      then obtain key where key: "acceptance_key_of (en_kv en) c x = Ok (Some key)" by blast
      then obtain p where p: "acceptance_update (en_kv en) key h (fst w) (fst (snd a)) = Ok p"
        using step assms(2) by (auto simp: track_acceptance_def case_prod_unfold rbind_eq_Ok)
      have "ak_ok key" by (rule acceptance_key_ok [OF key])
      then have "writes en d (snd p)" "length (ak_tx_id key) = 32"
        using update_writes [of key h "fst w" "fst (snd a)" "fst p" "snd p"] p a assms(3) by (auto simp: ak_ok_def)
      then show ?thesis using step a len key p
        by (cases "fst p") (auto simp: assms(2) track_acceptance_def case_prod_unfold index_defs pk_bytes_def intro!: writes_intros)
    qed
  qed simp
  moreover have "length (concat ts) mod 32 = 0" if "list_all (\<lambda>t. length t = 32) ts" for ts :: "bytes list"
    using that by (induction ts) auto
  ultimately show ?thesis using assms(3) by (auto simp: d' index_defs intro!: writes_intros)
qed

lemma vcc_writes:
  assumes "handle_vcc ve vcc st = Ok (l, st')" and "ve_env ve = en" and "vcc_ok vcc"
  shows "writes en (vp_db st) (vp_db st')"
proof -
  let ?B = "vp_processed_blocks st" and ?c = "vp_db st"
  obtain d1 r w where r1: "rfold (handle_vcc_removal ve ?B ?c) (vc_removed vcc) ?c = Ok d1"
    and r2: "rfold (handle_vcc_addition ve ?B ?c) (vc_accepted vcc) (d1, vp_outs st) = Ok r"
    and ne: "vc_added vcc \<noteq> []"
    and cur: "set_latest_accepting_cursor (en_kv en) (cursor_to_db \<lparr>cu_blue_work = snd w, cu_block_hash = last (vc_added vcc),
        cu_daa_score = fst w\<rparr>) (fst r) = Ok (vp_db st')"
    using assms(1,2) by (auto simp: handle_vcc_def Let_def rbind_eq_Ok case_prod_unfold split: if_splits)
  have "writes en ?c d1"
  proof (rule rfold_invariant [OF r1])
    fix x a b
    assume "x \<in> set (vc_removed vcc)" "writes en ?c a" "handle_vcc_removal ve ?B ?c x a = Ok b"
    then show "writes en ?c b"
      using removal_writes [of ve ?B ?c x a b] assms(2,3) by (fastforce simp: vcc_ok_def list_all_iff)
  qed simp
  moreover have "writes en d1 (fst r)"
  proof (rule rfold_invariant [OF r2])
    fix x a b
    assume x: "x \<in> set (vc_accepted vcc)" and "writes en d1 (fst a)" "handle_vcc_addition ve ?B ?c x a = Ok b"
    moreover have "length (fst x) = 32" "list_all (\<lambda>t. length t = 32) (snd x)"
      using assms(3) x by (auto simp: vcc_ok_def list_all_iff)
    ultimately show "writes en d1 (fst b)"
      using addition_writes [of ve ?B ?c "fst x" "snd x" "fst a" "snd a" "fst b" "snd b"] assms(2) by simp
  qed simp
  moreover have "writes en (fst r) (vp_db st')"
  proof (rule cursor_writes [OF cur])
    have "length (last (vc_added vcc)) = 32" using assms(3) ne by (auto simp: vcc_ok_def list_all_iff)
    then show "length (dc_bytes (cursor_to_db \<lparr>cu_blue_work = snd w, cu_block_hash = last (vc_added vcc),
        cu_daa_score = fst w\<rparr>)) = 64"
      by (simp add: dc_bytes_def cursor_to_db_def work_be_def le64_def)
  qed
  ultimately show ?thesis by simp
qed

end

end
