(* ===== verification/Maintenance.thy ===== *)
theory Maintenance
  imports Index_Steps
begin

text \<open>
  \<open>indexer-actors/src/periodic_processor.rs\<close> and \<open>indexer-db/src/migration.rs\<close>: the blocks that fall
  below the pruning depth are forgotten, and the DAA index of an old database is rewritten.
\<close>

section \<open>Pruning\<close>

definition prune_threshold :: "u64 \<Rightarrow> u64 \<Rightarrow> u64" where
  "prune_threshold current_daa pruning_depth =
     (if pruning_depth \<le> current_daa then current_daa - pruning_depth else 0)"

definition compact_header_remove :: "'s kv \<Rightarrow> bytes \<Rightarrow> 's keyspace \<Rightarrow> 's keyspace" where
  "compact_header_remove kv hash = del kv Block_Compact_Header hash"

definition accepting_forget :: "'s kv \<Rightarrow> bytes \<Rightarrow> 's keyspace \<Rightarrow> 's keyspace" where
  "accepting_forget kv accepted_by_block_hash = del kv Accepting_Block_To_Tx_Id accepted_by_block_hash"

definition prune_one :: "'s kv \<Rightarrow> u64 \<times> bytes \<times> bytes \<Rightarrow> 's keyspace \<Rightarrow> 's keyspace" where
  "prune_one kv = (\<lambda>(daa_score, blue_work, hash) d.
     accepting_forget kv hash
       (daa_index_delete kv daa_score hash blue_work (compact_header_remove kv hash d)))"

text \<open>\<open>prune\<close>: the state and the number of blocks pruned. The index is read in a snapshot.\<close>

definition prune :: "'s kv \<Rightarrow> u64 \<Rightarrow> u64 \<Rightarrow> 's keyspace \<Rightarrow> (nat \<times> 's keyspace) res" where
  "prune kv virtual_daa pruning_depth d =
     rbind (daa_index_iter_lt kv d (prune_threshold virtual_daa pruning_depth)) (\<lambda>blocks.
       Ok (length blocks, fold (prune_one kv) blocks d))"

section \<open>Migration\<close>

definition current_version :: nat where "current_version = 1"
definition db_version_key :: bytes where "db_version_key = [2]"

definition db_version :: "'s kv \<Rightarrow> 's keyspace \<Rightarrow> nat res" where
  "db_version kv d =
     (case kv_get kv (d Metadata_Store) db_version_key of
        None \<Rightarrow> Ok 0
      | Some b \<Rightarrow> if length b = 4 then Ok (from_le b) else Err)"

definition set_db_version :: "'s kv \<Rightarrow> nat \<Rightarrow> 's keyspace \<Rightarrow> 's keyspace" where
  "set_db_version kv v = put kv Metadata_Store db_version_key (to_le 4 v)"

text \<open>\<open>convert_bluework_endianness\<close>: the byte \<open>i\<close> and the byte \<open>23 - i\<close> change places.\<close>

definition swap :: "nat \<Rightarrow> nat \<Rightarrow> bytes \<Rightarrow> bytes" where
  "swap i j b = b[i := b ! j, j := b ! i]"

definition convert_bluework_endianness :: "bytes \<Rightarrow> bytes" where
  "convert_bluework_endianness b = fold (\<lambda>i. swap i (23 - i)) [0..<12] b"

text \<open>The key of version 0: DAA score and block hash.\<close>

definition read_daa_key_v0 :: "bytes \<Rightarrow> (u64 \<times> bytes) option" where
  "read_daa_key_v0 b = (case read_fields [8, 32] b of Some [t, h] \<Rightarrow> Some (read_u64 t, h) | _ \<Rightarrow> None)"

definition daa_key_v0_bytes :: "u64 \<Rightarrow> bytes \<Rightarrow> bytes" where
  "daa_key_v0_bytes daa_score hash = concat [be64 daa_score, hash]"

definition get_compact_header :: "'s kv \<Rightarrow> bytes \<Rightarrow> 's keyspace \<Rightarrow> (bytes \<times> u64) option res" where
  "get_compact_header kv hash d =
     (case kv_get kv (d Block_Compact_Header) hash of
        None \<Rightarrow> Ok None
      | Some b \<Rightarrow>
          (case read_fields [24, 8] b of
             Some [w, t] \<Rightarrow> Ok (Some (w, word_of_nat (from_le t))) | _ \<Rightarrow> Err))"

text \<open>One old key: it goes, and comes back with the blue work when the block's header is known.\<close>

definition migrate_key :: "'s kv \<Rightarrow> u64 \<times> bytes \<Rightarrow> 's keyspace \<Rightarrow> 's keyspace res" where
  "migrate_key kv = (\<lambda>(daa_score, hash) d.
     let d = del kv Daa_Index_Compact_Header (daa_key_v0_bytes daa_score hash) d
     in case get_compact_header kv hash d of
          Ok None \<Rightarrow> Ok d
        | Ok (Some (blue_work, _)) \<Rightarrow>
            Ok (daa_index_insert kv daa_score hash (convert_bluework_endianness blue_work) d)
        | _ \<Rightarrow> Panic)"

text \<open>
  \<open>migrate_v0_v1\<close>: a thread reads the old keys in batches, a pool rewrites them. The keys are distinct,
  so the order of the writes does not matter and the model rewrites them in the order read. A key
  that is not an old one makes the reader fail.
\<close>

definition migrate_v0_v1 :: "'s kv \<Rightarrow> 's keyspace \<Rightarrow> 's keyspace res" where
  "migrate_v0_v1 kv d =
     rbind (rfold (\<lambda>(k, _) ks. rbind (or_err (read_daa_key_v0 k)) (\<lambda>key. Ok (ks @ [key])))
              (kv_iter kv (d Daa_Index_Compact_Header)) []) (\<lambda>old_keys.
     rbind (rfold (migrate_key kv) old_keys d) (\<lambda>d.
       Ok (set_db_version kv 1 d)))"

definition apply_migrations :: "'s kv \<Rightarrow> 's keyspace \<Rightarrow> 's keyspace res" where
  "apply_migrations kv d =
     rbind (db_version kv d) (\<lambda>version.
       if version < current_version then migrate_v0_v1 kv d else Ok d)"

section \<open>Facts\<close>

lemma convert_is_reverse: "length b = 24 \<Longrightarrow> convert_bluework_endianness b = rev b"
proof -
  assume len: "length b = 24"
  then have b: "b = map (\<lambda>i. b ! i) [0..<24]" by (metis map_nth)
  obtain b0 b1 b2 b3 b4 b5 b6 b7 b8 b9 b10 b11 b12 b13 b14 b15 b16 b17 b18 b19 b20 b21 b22 b23 where
    e: "b = [b0, b1, b2, b3, b4, b5, b6, b7, b8, b9, b10, b11, b12, b13, b14, b15, b16, b17, b18, b19, b20, b21, b22, b23]"
    using b by (simp add: upt_rec)
  show ?thesis unfolding e by (simp add: convert_bluework_endianness_def swap_def upt_rec)
qed

lemma rfold_collect:
  "rfold (\<lambda>x ks. rbind (f x) (\<lambda>k. Ok (ks @ [k]))) xs ks0 = Ok ks \<longleftrightarrow>
     (\<exists>ys. ks = ks0 @ ys \<and> list_all2 (\<lambda>x y. f x = Ok y) xs ys)"
proof (induction xs arbitrary: ks0)
  case (Cons x xs)
  show ?case
  proof (cases "f x")
    case (Ok y)
    then show ?thesis using Cons.IH [of "ks0 @ [y]"] by (auto simp: list_all2_Cons1)
  qed (auto simp: list_all2_Cons1)
qed auto

lemma rfold_collect_fails:
  assumes "x \<in> set xs" and "f x = Err" and "\<And>y. y \<in> set xs \<Longrightarrow> f y \<noteq> Panic"
  shows "rfold (\<lambda>x ks. rbind (f x) (\<lambda>k. Ok (ks @ [k]))) xs ks0 = Err"
  using assms
proof (induction xs arbitrary: ks0)
  case (Cons z xs)
  then show ?case by (cases "f z") auto
qed simp


definition daa_key_of :: "u64 \<times> bytes \<times> bytes \<Rightarrow> bytes" where
  "daa_key_of = (\<lambda>(daa_score, blue_work, hash). daa_key_bytes daa_score hash blue_work)"

context engine begin

lemma fold_prune:
  "obs kv (fold (prune_one kv) bs d) p k =
     (if p = Daa_Index_Compact_Header \<and> k \<in> daa_key_of ` set bs \<or>
         (p = Block_Compact_Header \<or> p = Accepting_Block_To_Tx_Id) \<and> k \<in> (\<lambda>(_, _, h). h) ` set bs
      then None else obs kv d p k)"
proof (induction bs arbitrary: d)
  case (Cons b bs)
  obtain t w h where b: "b = (t, w, h)" by (cases b)
  have one: "obs kv (prune_one kv (t, w, h) d) = (obs kv d)
     (Block_Compact_Header := (obs kv d Block_Compact_Header)(h := None),
      Daa_Index_Compact_Header := (obs kv d Daa_Index_Compact_Header)(daa_key_of (t, w, h) := None),
      Accepting_Block_To_Tx_Id := (obs kv d Accepting_Block_To_Tx_Id)(h := None))"
    by (simp add: prune_one_def daa_key_of_def accepting_forget_def compact_header_remove_def index_defs)
  show ?case by (auto simp: Cons.IH b one)
qed simp

text \<open>Every row of the DAA index with a score below the bound is read, and nothing else.\<close>

lemma daa_key_read:
  assumes "length k = 64"
  shows "\<exists>t w h. read_fields [8, 24, 32] k = Some [be64 t, w, h] \<and> k = daa_key_bytes t h w \<and> length h = 32 \<and> length w = 24"
proof -
  define b w h where "b = take 8 k" and "w = take 24 (drop 8 k)" and "h = drop 24 (drop 8 k)"
  have rf: "read_fields [8, 24, 32] k = Some [b, w, h]" using assms by (simp add: read_fields_def b_def w_def h_def)
  have k: "k = b @ w @ h" unfolding b_def w_def h_def by (simp only: append_take_drop_id)
  have t: "be64 (read_u64 b) = b" by (rule be64_read_u64) (use assms in \<open>simp add: b_def\<close>)
  show ?thesis
  proof (intro exI conjI)
    show "read_fields [8, 24, 32] k = Some [be64 (read_u64 b), w, h]" using rf t by simp
    show "k = daa_key_bytes (read_u64 b) h w" using k t by (simp add: daa_key_bytes_def)
    show "length h = 32" "length w = 24" using assms by (simp_all add: h_def w_def)
  qed
qed

lemma below_daa: "length b = 8 \<Longrightarrow> b @ (rest :: bytes) < be64 limit \<longleftrightarrow> b < be64 limit"
  using lex_append_less [of b "be64 limit" rest "[]"] by simp

lemma daa_index_read:
  assumes "typed kv d"
  shows "\<exists>bs. daa_index_iter_lt kv d limit = Ok bs \<and>
    daa_key_of ` set bs = {k. obs kv d Daa_Index_Compact_Header k \<noteq> None \<and> k < be64 limit} \<and>
    (\<forall>(t, w, h) \<in> set bs. length h = 32 \<and> length w = 24 \<and> t < limit)"
proof -
  let ?rows = "below_scan kv limit (d Daa_Index_Compact_Header)"
  let ?f = "\<lambda>(k, v). if v \<noteq> [] then Err else case read_fields [8, 24, 32] k of
              Some [t, w, h] \<Rightarrow> Ok (read_u64 t, w, h) | _ \<Rightarrow> Err"
  have row: "\<exists>t w h. ?f r = Ok (t, w, h) \<and> fst r = daa_key_of (t, w, h) \<and> length h = 32 \<and> length w = 24 \<and> t < limit"
    if "r \<in> set ?rows" for r
  proof -
    obtain k v where r: "r = (k, v)" by (cases r)
    have kv: "obs kv d Daa_Index_Compact_Header k = Some v" "k < be64 limit"
      using that by (auto simp: r below_scan_def in_below obs_def)
    from typedD [OF assms kv(1)] have len: "length k = 64" "v = []" by simp_all
    from daa_key_read [OF len(1)] obtain t w h where "read_fields [8, 24, 32] k = Some [be64 t, w, h]"
      "k = daa_key_bytes t h w" "length h = 32" "length w = 24" by blast
    then show ?thesis using kv(2) len(2) below_daa [of "be64 t" "w @ h" limit]
      by (auto simp: r daa_key_of_def daa_key_bytes_def)
  qed
  define bs where "bs = map (\<lambda>r. ok_value (?f r)) ?rows"
  have "list_all2 (\<lambda>r b. ?f r = Ok b) ?rows bs"
    unfolding bs_def list_all2_map2 using row by (intro list.rel_refl_strong) fastforce
  then have "rfold (\<lambda>r ks. rbind (?f r) (\<lambda>b. Ok (ks @ [b]))) ?rows [] = Ok bs"
    by (subst rfold_collect) simp
  moreover have "daa_index_iter_lt kv d limit = rfold (\<lambda>r ks. rbind (?f r) (\<lambda>b. Ok (ks @ [b]))) ?rows []"
    unfolding daa_index_iter_lt_def
    by (rule arg_cong [of _ _ "\<lambda>g. rfold g ?rows []"]) (auto simp: fun_eq_iff split: list.splits option.splits)
  moreover have "daa_key_of ` set bs = {k. obs kv d Daa_Index_Compact_Header k \<noteq> None \<and> k < be64 limit}"
  proof -
    have "daa_key_of ` set bs = fst ` set ?rows" using row by (force simp: bs_def image_image intro!: image_cong)
    also have "fst ` set ?rows = {k. \<exists>v. (k, v) \<in> set ?rows}" by force
    also have "\<dots> = {k. obs kv d Daa_Index_Compact_Header k \<noteq> None \<and> k < be64 limit}"
      by (auto simp: below_scan_def in_below obs_def)
    finally show ?thesis .
  qed
  moreover have "\<forall>b \<in> set bs. case b of (t, w, h) \<Rightarrow> length h = 32 \<and> length w = 24 \<and> t < limit"
  proof -
    have "length h = 32 \<and> length w = 24 \<and> t < limit" if b: "(t, w, h) \<in> set bs" for t w h
    proof -
      obtain r where r: "r \<in> set ?rows" "(t, w, h) = ok_value (?f r)" using b by (auto simp: bs_def)
      from row [OF r(1)] r(2) show ?thesis by auto
    qed
    then show ?thesis by auto
  qed
  ultimately show ?thesis by (intro exI [of _ bs] conjI) simp_all
qed

lemma prune_obs:
  assumes "typed kv d"
  shows "\<exists>n d'. prune kv virtual_daa pruning_depth d = Ok (n, d') \<and>
    (\<forall>k. obs kv d' Daa_Index_Compact_Header k =
       (if k < be64 (prune_threshold virtual_daa pruning_depth) then None else obs kv d Daa_Index_Compact_Header k)) \<and>
    (\<forall>p \<in> {Block_Compact_Header, Accepting_Block_To_Tx_Id}. \<forall>h. obs kv d' p h =
       (if \<exists>t w. length h = 32 \<and> length w = 24 \<and> t < prune_threshold virtual_daa pruning_depth \<and>
           obs kv d Daa_Index_Compact_Header (daa_key_bytes t h w) \<noteq> None
        then None else obs kv d p h)) \<and>
    (\<forall>p. p \<notin> {Daa_Index_Compact_Header, Block_Compact_Header, Accepting_Block_To_Tx_Id} \<longrightarrow> obs kv d' p = obs kv d p)"
proof -
  let ?limit = "prune_threshold virtual_daa pruning_depth"
  obtain bs where bs: "daa_index_iter_lt kv d ?limit = Ok bs"
    and keys: "daa_key_of ` set bs = {k. obs kv d Daa_Index_Compact_Header k \<noteq> None \<and> k < be64 ?limit}"
    and parts: "\<forall>(t, w, h) \<in> set bs. length h = 32 \<and> length w = 24 \<and> t < ?limit"
    using daa_index_read [OF assms, of ?limit] by (elim exE conjE) simp
  have hash: "h \<in> (\<lambda>(_, _, h). h) ` set bs \<longleftrightarrow> (\<exists>t w. length h = 32 \<and> length w = 24 \<and> t < ?limit \<and>
      obs kv d Daa_Index_Compact_Header (daa_key_bytes t h w) \<noteq> None)" for h
  proof
    assume "h \<in> (\<lambda>(_, _, h). h) ` set bs"
    then obtain t w where b: "(t, w, h) \<in> set bs" by auto
    have "daa_key_of (t, w, h) \<in> daa_key_of ` set bs" using b by (rule imageI)
    then have "daa_key_bytes t h w \<in> daa_key_of ` set bs" by (simp add: daa_key_of_def)
    then have "obs kv d Daa_Index_Compact_Header (daa_key_bytes t h w) \<noteq> None" by (simp add: keys)
    moreover have "length h = 32 \<and> length w = 24 \<and> t < ?limit" using parts b by auto
    ultimately show "\<exists>t w. length h = 32 \<and> length w = 24 \<and> t < ?limit \<and>
      obs kv d Daa_Index_Compact_Header (daa_key_bytes t h w) \<noteq> None" by (intro exI conjI) simp_all
  next
    assume "\<exists>t w. length h = 32 \<and> length w = 24 \<and> t < ?limit \<and>
      obs kv d Daa_Index_Compact_Header (daa_key_bytes t h w) \<noteq> None"
    then obtain t w where tw: "length h = 32" "length w = 24" "t < ?limit"
      "obs kv d Daa_Index_Compact_Header (daa_key_bytes t h w) \<noteq> None" by blast
    then have "daa_key_bytes t h w \<in> daa_key_of ` set bs"
      using below_daa [of "be64 t" "w @ h" ?limit] by (simp add: keys) (simp add: daa_key_bytes_def)
    then obtain t' w' h' where b: "(t', w', h') \<in> set bs" "daa_key_bytes t h w = daa_key_bytes t' h' w'"
      by (auto simp: daa_key_of_def)
    then have "length w' = 24" using parts by auto
    then have "h = h'" using b(2) tw(2) by (simp add: daa_key_bytes_def)
    then show "h \<in> (\<lambda>(_, _, h). h) ` set bs" using b(1) by force
  qed
  let ?d = "fold (prune_one kv) bs d"
  have "prune kv virtual_daa pruning_depth d = Ok (length bs, ?d)" by (simp add: prune_def bs)
  moreover have "\<forall>k. obs kv ?d Daa_Index_Compact_Header k =
       (if k < be64 ?limit then None else obs kv d Daa_Index_Compact_Header k)"
    by (auto simp: fold_prune keys)
  moreover have "\<forall>p \<in> {Block_Compact_Header, Accepting_Block_To_Tx_Id}. \<forall>h. obs kv ?d p h =
       (if \<exists>t w. length h = 32 \<and> length w = 24 \<and> t < ?limit \<and>
           obs kv d Daa_Index_Compact_Header (daa_key_bytes t h w) \<noteq> None
        then None else obs kv d p h)"
    unfolding hash [symmetric] by (auto simp: fold_prune)
  moreover have "\<forall>p. p \<notin> {Daa_Index_Compact_Header, Block_Compact_Header, Accepting_Block_To_Tx_Id} \<longrightarrow> obs kv ?d p = obs kv d p"
    by (auto simp: fold_prune fun_eq_iff)
  ultimately show ?thesis by (intro exI conjI) simp_all
qed

end

text \<open>A migration cut short: an index that already holds a new key is refused.\<close>

lemma mixed_index_refused:
  assumes "kv_laws kv" and "obs kv d Daa_Index_Compact_Header k = Some v" and "length k = 64"
    and "db_version kv d = Ok 0"
  shows "apply_migrations kv d = Err"
proof -
  have "map_of (kv_iter kv (d Daa_Index_Compact_Header)) k = Some v" using assms(1,2) by (simp add: kv_laws_def obs_def)
  then have "(k, v) \<in> set (kv_iter kv (d Daa_Index_Compact_Header))" by (rule map_of_SomeD)
  moreover have "read_daa_key_v0 k = None" using assms(3) by (simp add: read_daa_key_v0_def read_fields_def)
  ultimately have "rfold (\<lambda>x ks. rbind (or_err (read_daa_key_v0 (fst x))) (\<lambda>key. Ok (ks @ [key])))
      (kv_iter kv (d Daa_Index_Compact_Header)) [] = Err"
    by (intro rfold_collect_fails) (auto simp: or_err_def split: option.splits)
  then show ?thesis using assms(4) by (simp add: apply_migrations_def current_version_def migrate_v0_v1_def case_prod_unfold)
qed

end
