(* ===== verification/Index_Life.thy ===== *)
theory Index_Life
  imports Maintenance
begin

text \<open>
  The life of an index that starts empty: blocks, gaps and cursors, senders, the virtual chain and
  pruning in any order. What holds of every index so reached: its rows have their shapes, a group id
  stays with its first author, and only that author's messages carry a sender under it.
\<close>

section \<open>Steps\<close>

inductive index_step :: "('s, 'a, 'm) vp_env \<Rightarrow> 's keyspace \<Rightarrow> 's keyspace \<Rightarrow> bool" for ve where
  block: "block_ok (ve_env ve) blk \<Longrightarrow> handle_block (ve_env ve) (bp_db b) blk b = Ok b' \<Longrightarrow>
    index_step ve (bp_db b) (bp_db b')"
| cursor: "length h = 32 \<Longrightarrow> index_step ve d (set_latest_block_cursor (ve_kv ve) h d)"
| gap: "length f = 32 \<Longrightarrow> length t = 32 \<Longrightarrow> index_step ve d (add_gap (ve_kv ve) \<lparr>bg_from = f, bg_to = t\<rparr> d)"
| gap_done: "index_step ve d (remove_gap (ve_kv ve) t d)"
| chain: "vcc_ok vcc \<Longrightarrow> handle_vcc ve vcc st = Ok (l, st') \<Longrightarrow> index_step ve (vp_db st) (vp_db st')"
| sender: "handle_sender_address (ve_env ve) a t daa d = Ok (d', events) \<Longrightarrow> index_step ve d d'"
| pruned: "prune (ve_kv ve) virtual_daa pruning_depth d = Ok (n, d') \<Longrightarrow> index_step ve d d'"

inductive index_reachable :: "('s, 'a, 'm) vp_env \<Rightarrow> 's keyspace \<Rightarrow> bool" for ve where
  empty: "(\<And>p k. obs (ve_kv ve) d p k = None) \<Longrightarrow> index_reachable ve d"
| step: "index_reachable ve d \<Longrightarrow> index_step ve d d' \<Longrightarrow> index_reachable ve d'"

context indexer begin

lemma prune_all_writes: "writes en d (fold (prune_one (en_kv en)) bs d)"
proof (induction bs rule: rev_induct)
  case (snoc b bs)
  then show ?case
    by (cases b) (auto simp: prune_one_def accepting_forget_def compact_header_remove_def index_defs intro!: writes_intros)
qed simp

lemma step_writes:
  assumes "index_step ve d d'" and "ve_env ve = en"
  shows "writes en d d'"
  using assms(1)
proof cases
  case (block blk b b')
  then show ?thesis using block_writes [of "bp_db b" blk b b'] assms(2) by simp
next
  case (chain vcc st l st')
  then show ?thesis using vcc_writes [of ve vcc st l st'] assms(2) by simp
next
  case (sender a t daa events)
  then show ?thesis using sender_writes [of a t daa d d' events] assms(2) by simp
next
  case (pruned virtual_daa pruning_depth n)
  then obtain bs where "d' = fold (prune_one (en_kv en)) bs d"
    using assms(2) by (auto simp: prune_def rbind_eq_Ok)
  then show ?thesis using prune_all_writes by simp
qed (auto simp: assms(2) index_defs latest_block_key_def latest_accepting_key_def intro!: writes_intros)

end

section \<open>Group ids and their authors\<close>

definition group_authors :: "('s, 'a) env \<Rightarrow> 's keyspace \<Rightarrow> bool" where
  "group_authors en d \<longleftrightarrow>
     (\<forall>key v s. obs (en_kv en) d Group_Message_By_Blinded_Group_Id key = Some v \<longrightarrow> read_address v = Some s \<longrightarrow>
        s \<noteq> no_address \<longrightarrow>
        (\<exists>pk. obs (en_kv en) d Group_Sender_Binding (take 32 key) = Some pk \<and> matches_xonly_pubkey (en_kp en) s pk))"

text \<open>The bindings of one index are among those of another.\<close>

definition bindings_kept :: "'s kv \<Rightarrow> 's keyspace \<Rightarrow> 's keyspace \<Rightarrow> bool" where
  "bindings_kept kv d d' \<longleftrightarrow>
     (\<forall>g pk. obs kv d Group_Sender_Binding g = Some pk \<longrightarrow> obs kv d' Group_Sender_Binding g = Some pk)"

text \<open>A transaction that has an acceptance record keeps it.\<close>

definition records_kept :: "'s kv \<Rightarrow> 's keyspace \<Rightarrow> 's keyspace \<Rightarrow> bool" where
  "records_kept kv d d' \<longleftrightarrow>
     (\<forall>k. obs kv d Tx_Id_To_Acceptance k \<noteq> None \<longrightarrow> obs kv d' Tx_Id_To_Acceptance k \<noteq> None)"

context indexer begin

lemma binding_write: "index_write en d d' \<Longrightarrow> bindings_kept (en_kv en) d d'"
  by (induction rule: index_write.induct)
    (auto simp: bindings_kept_def plain_def removable_def check_or_bind_obs sender_partitions_def)

lemma record_write: "index_write en d d' \<Longrightarrow> records_kept (en_kv en) d d'"
  by (induction rule: index_write.induct)
    (auto simp: records_kept_def plain_def removable_def check_or_bind_obs sender_partitions_def split: option.splits)

lemma kept_writes:
  assumes "writes en d d'"
  shows "bindings_kept (en_kv en) d d'" "records_kept (en_kv en) d d'"
proof -
  show "bindings_kept (en_kv en) d d'"
    by (rule writes_invariant [OF assms]) (use binding_write in \<open>auto simp: bindings_kept_def\<close>)
  show "records_kept (en_kv en) d d'"
    by (rule writes_invariant [OF assms]) (use record_write in \<open>auto simp: records_kept_def\<close>)
qed

lemma authors_write:
  assumes "index_write en d d'" and "group_authors en d"
  shows "group_authors en d'"
proof -
  have kept: "obs (en_kv en) d' Group_Sender_Binding g = Some pk" if "obs (en_kv en) d Group_Sender_Binding g = Some pk" for g pk
    using binding_write [OF assms(1)] that by (simp add: bindings_kept_def)
  have same: "group_authors en d'"
    if "\<And>key. obs (en_kv en) d' Group_Message_By_Blinded_Group_Id key = obs (en_kv en) d Group_Message_By_Blinded_Group_Id key \<or>
        obs (en_kv en) d' Group_Message_By_Blinded_Group_Id key = None"
    unfolding group_authors_def
  proof (intro allI impI)
    fix key v s
    assume v: "obs (en_kv en) d' Group_Message_By_Blinded_Group_Id key = Some v" "read_address v = Some s" "s \<noteq> no_address"
    then have "obs (en_kv en) d Group_Message_By_Blinded_Group_Id key = Some v" using that [of key] by auto
    then show "\<exists>pk. obs (en_kv en) d' Group_Sender_Binding (take 32 key) = Some pk \<and> matches_xonly_pubkey (en_kp en) s pk"
      using assms(2) v(2,3) kept unfolding group_authors_def by blast
  qed
  show ?thesis using assms(1)
  proof cases
    case (row p k v)
    then show ?thesis by (intro same) (auto simp: plain_def sender_partitions_def)
  next
    case (remove p k)
    then show ?thesis by (intro same) auto
  next
    case (fill p k sender)
    show ?thesis
    proof (cases "p = Group_Message_By_Blinded_Group_Id")
      case False
      then show ?thesis using fill by (intro same) auto
    next
      case True
      let ?s = "or_default sender"
      show ?thesis
        unfolding group_authors_def
      proof (intro allI impI)
        fix key v s
        assume v: "obs (en_kv en) d' Group_Message_By_Blinded_Group_Id key = Some v" "read_address v = Some s" "s \<noteq> no_address"
        have binding: "obs (en_kv en) d' Group_Sender_Binding = obs (en_kv en) d Group_Sender_Binding"
          by (simp add: fill(1) True)
        show "\<exists>pk. obs (en_kv en) d' Group_Sender_Binding (take 32 key) = Some pk \<and> matches_xonly_pubkey (en_kp en) s pk"
        proof (cases "obs (en_kv en) d Group_Message_By_Blinded_Group_Id key = Some v")
          case True
          then show ?thesis using assms(2) v(2,3) binding unfolding group_authors_def by metis
        next
          case False
          then have k: "key = k" "v = address_bytes ?s"
            using v(1) by (auto simp: fill(1) True fill_sender_def split: if_splits option.splits)
          have "address_ok ?s" using fill(4) by (auto split: option.splits)
          then have "s = ?s" using v(2) k(2) by simp
          then obtain a where "sender = Some a" "s = a" using v(3) by (cases sender) auto
          then show ?thesis using fill(5) [OF True] k binding by (auto simp: author_ok_def)
        qed
      qed
    qed
  next
    case (bind g k)
    then show ?thesis by (intro same) (simp add: check_or_bind_obs)
  next
    case (enter k es)
    then show ?thesis by (intro same) simp
  next
    case (accept k h daa)
    then show ?thesis by (intro same) simp
  next
    case (resolved k)
    then show ?thesis by (intro same) simp
  qed
qed

lemma reachable_invariant:
  assumes "index_reachable ve d" and "ve_env ve = en" and "\<And>d. (\<And>p k. obs (en_kv en) d p k = None) \<Longrightarrow> P d"
    and "\<And>a b. index_write en a b \<Longrightarrow> P a \<Longrightarrow> P b"
  shows "P d"
  using assms(1)
proof induction
  case (empty d)
  then show ?case using assms(2,3) by simp
next
  case (step d d')
  show ?case by (rule writes_invariant [where P = P, OF step_writes [OF step(2) assms(2)] step(3) assms(4)])
qed

lemma reachable_typed: "index_reachable ve d \<Longrightarrow> ve_env ve = en \<Longrightarrow> typed (en_kv en) d"
  by (rule reachable_invariant [OF _ _ _ typed_write]) (simp_all add: typed_def)

lemma reachable_authors: "index_reachable ve d \<Longrightarrow> ve_env ve = en \<Longrightarrow> group_authors en d"
  by (rule reachable_invariant [OF _ _ _ authors_write]) (simp_all add: group_authors_def)

lemma step_keeps: "index_step ve d d' \<Longrightarrow> ve_env ve = en \<Longrightarrow> bindings_kept (en_kv en) d d' \<and> records_kept (en_kv en) d d'"
  by (simp add: kept_writes [OF step_writes])

end

end
