(* ===== verification/Index_Total.thy ===== *)
theory Index_Total
  imports Index_Life
begin

text \<open>
  On an index whose rows have their shapes and in which a transaction has one acceptance record, no
  block fails and no resolution of a sender panics.
\<close>

definition one_record :: "'s kv \<Rightarrow> 's keyspace \<Rightarrow> bool" where
  "one_record kv d \<longleftrightarrow>
     (\<forall>k l. obs kv d Tx_Id_To_Acceptance k \<noteq> None \<longrightarrow> obs kv d Tx_Id_To_Acceptance l \<noteq> None \<longrightarrow>
        take 32 k = take 32 l \<longrightarrow> k = l)"

lemma rfold_total:
  assumes "P s" and "\<And>x s. x \<in> set xs \<Longrightarrow> P s \<Longrightarrow> \<exists>t. f x s = Ok t \<and> P t"
  shows "\<exists>t. rfold f xs s = Ok t \<and> P t"
  using assms
proof (induction xs arbitrary: s)
  case (Cons x xs)
  then obtain t where "f x s = Ok t" "P t" by (meson list.set_intros(1))
  then show ?case using Cons.IH [of t] Cons.prems(2) by simp
qed simp

lemma read_address_34: "read_address b \<noteq> None \<longleftrightarrow> length b = 34"
  by (simp add: read_address_def)

text \<open>A block that the node may send: its hashes have the length of hashes and its transactions inputs and ids.\<close>

definition block_complete :: "('s, 'a) env \<Rightarrow> rpc_block \<Rightarrow> bool" where
  "block_complete en blk \<longleftrightarrow> block_ok en blk \<and>
     list_all (\<lambda>tx. rt_inputs tx \<noteq> [] \<and> (rt_verbose_id tx \<noteq> None \<or> en_tx_id en tx \<noteq> None)) (rb_transactions blk)"

context indexer begin

lemma typed_writes: "typed (en_kv en) d \<Longrightarrow> writes en d d' \<Longrightarrow> typed (en_kv en) d'"
  by (erule writes_invariant [where P = "typed (en_kv en)", rotated]) (auto intro: typed_write)

lemma typed_sender:
  assumes "typed (en_kv en) d" and "p \<in> sender_partitions"
  shows "sender_value_ok (obs (en_kv en) d p k)"
proof -
  have "length v = 34" if "obs (en_kv en) d p k = Some v" for v
    using typedD [OF assms(1) that] assms(2) by (auto simp: sender_partitions_def)
  then show ?thesis using read_address_34 by (simp add: sender_value_ok_def)
qed

lemma key_total:
  assumes "typed (en_kv en) c" and "one_record (en_kv en) c" and "length t = 32"
  shows "\<exists>found. acceptance_key_of (en_kv en) c t = Ok found"
proof -
  let ?s = "c Tx_Id_To_Acceptance"
  have keys: "take 32 k = t \<and> length k = 66" if "(k, v) \<in> set (kv_prefix (en_kv en) t ?s)" for k v
    using that typedD [OF assms(1), of Tx_Id_To_Acceptance k] assms(3)
    by (auto simp: in_prefix obs_def starts_with_def)
  show ?thesis
  proof (cases "kv_prefix (en_kv en) t ?s")
    case Nil
    then show ?thesis by (simp add: acceptance_key_of_def key_by_tx_id_def)
  next
    case (Cons e es)
    obtain k v where e: "e = (k, v)" by (cases e)
    have "es = []"
    proof (rule ccontr)
      assume "es \<noteq> []"
      then obtain l w fs where es: "es = (l, w) # fs" by (cases es) auto
      have "(k, v) \<in> set (kv_prefix (en_kv en) t ?s)" "(l, w) \<in> set (kv_prefix (en_kv en) t ?s)"
        by (simp_all add: Cons e es)
      then have "k = l" using assms(2) keys by (metis in_prefix obs_def one_record_def option.distinct(1))
      then show False using prefix_distinct [of t ?s] by (simp add: Cons e es)
    qed
    moreover have "ak_read k \<noteq> None" using keys [of k v] by (simp add: Cons e ak_read_def read_fields_def)
    ultimately show ?thesis by (auto simp: acceptance_key_of_def key_by_tx_id_def Cons e)
  qed
qed

lemma handle_op_total:
  assumes "typed (en_kv en) (bp_db (snd st))" and "op_ok op"
  shows "\<exists>st'. handle_op en h t op r amt sender st = Ok st'"
proof -
  note ok = typed_sender [OF assms(1)]
  note simps = handle_op_def Let_def handler_defs index_defs insert_with_sender_Ok ok
  show ?thesis
  proof (cases op)
    case (ContextualMessageV1 cm)
    then show ?thesis
      by (cases sender; cases "Option.bind (cm_inbox_tag cm) (decode_fixed_hex en inbox_tag_len)")
        (simp_all add: simps handle_contextual_message_def handle_inbox_tag_def)
  next
    case (GroupMessageV1 gm)
    obtain g where g: "decode_fixed_hex en blinded_group_id_len (gm_blinded_group_id gm) = Some g"
      using assms(2) decode_fixed by (fastforce simp: GroupMessageV1 group_ok_def blinded_group_id_len_def)
    obtain k where k: "decode_fixed_hex en 32 (gm_sender_pub gm) = Some k"
      using assms(2) decode_fixed by (fastforce simp: GroupMessageV1 group_ok_def)
    show ?thesis
      by (cases sender) (simp_all add: GroupMessageV1 simps handle_group_message_def g k check_or_bind_obs case_prod_unfold)
  next
    case (GroupControlV1 gc)
    have "\<exists>x. control_recipient en gc = Ok x"
      using assms(2) decode_fixed by (cases "gc_recipient_pubkey gc") (fastforce simp: GroupControlV1 control_recipient_def)+
    then obtain x where x: "control_recipient en gc = Ok x" by blast
    show ?thesis by (cases sender; cases x) (simp_all add: GroupControlV1 simps handle_group_control_def x)
  qed (cases sender; simp add: simps handle_handshake_def handle_handshake_v2_def handle_payment_def handle_self_stash_def)+
qed

lemma payees_total: "\<exists>ps. payees (en_kp en) outputs = Ok ps"
proof -
  have "\<exists>ps. rfold (\<lambda>(v, spk) parsed. case address_of_script (en_kp en) spk of
      Ok addr \<Rightarrow> Ok (parsed @ [(v, addr)]) | Err \<Rightarrow> Ok parsed | Panic \<Rightarrow> Panic) outputs [] = Ok ps \<and> True"
    by (rule rfold_total) (use address_of_script_ok(1) [OF kaspa] in \<open>auto split: res.splits\<close>)
  then show ?thesis by (simp add: payees_def)
qed

lemma receiver_total: "\<exists>r. resolve_primary_receiver (en_kp en) outputs sender = Ok r"
  using payees_total [of outputs] by (auto simp: resolve_primary_receiver_def split: list.splits)

lemma output0_total: "\<exists>x. output0_address (en_kp en) tx = Ok x"
  using address_of_script_ok(1) [OF kaspa] by (auto simp: output0_address_def split: list.splits res.splits)

lemma resolve_sender_total:
  assumes "typed (en_kv en) c" "one_record (en_kv en) c" "typed (en_kv en) d" "length (fst out) = 32"
  shows "\<exists>s. resolve_sender en c d out = Ok s"
proof -
  obtain found where found: "acceptance_key_of (en_kv en) c (fst out) = Ok found" using key_total assms by blast
  have "read_address v \<noteq> None" if "kv_get (en_kv en) (d Tx_Output0_Owner) (fst out) = Some v" for v
    using typedD [OF assms(3), of Tx_Output0_Owner "fst out" v] that unfolding read_address_34 by (simp add: obs_def)
  then have "\<exists>owner. output0_get (en_kv en) (fst out) d = Ok owner" by (auto simp: output0_get_def split: option.splits)
  then show ?thesis using found by (auto simp: resolve_sender_def split: option.splits)
qed

lemma funds_total:
  assumes "typed (en_kv en) (bp_db b)" and "tx_ok en tx" "length tx_id = 32"
  shows "\<exists>b'. emit_funds_received en tx tx_id h b = Ok b'"
proof -
  have senders: "\<exists>w. funds_senders en tx d = Ok w \<and> typed (en_kv en) (snd w)" if "typed (en_kv en) d" for d
    unfolding funds_senders_def
  proof (rule rfold_total)
    fix i and w :: "address_payload list \<times> 's keyspace"
    assume i: "i \<in> set (rt_inputs tx)" and w: "typed (en_kv en) (snd w)"
    let ?o = "\<lparr>wk_tx_id = fst i, wk_index = snd i\<rparr>"
    have "read_address v \<noteq> None" if "kv_get (en_kv en) (snd w Watched_Outpoints) (wk_bytes ?o) = Some v" for v
      using typedD [OF w, of Watched_Outpoints "wk_bytes ?o" v] that unfolding read_address_34 by (simp add: obs_def)
    then obtain found where found: "watched_get (en_kv en) ?o (snd w) = Ok found"
      by (fastforce simp: watched_get_def split: option.splits)
    have "length (fst i) = 32" using assms(2) i by (auto simp: tx_ok_def list_all_iff)
    then have "length (zk_bytes \<lparr>zk_spent_at_ms = en_unix_ms en, zk_outpoint = ?o\<rparr>) = 44" by (simp add: zk_bytes_def be32_def)
    then have "writes en (snd w) (spend_insert (en_kv en) \<lparr>zk_spent_at_ms = en_unix_ms en, zk_outpoint = ?o\<rparr> (snd w))"
      by (auto simp: index_defs intro!: writes_intros)
    with w have "typed (en_kv en) (spend_insert (en_kv en) \<lparr>zk_spent_at_ms = en_unix_ms en, zk_outpoint = ?o\<rparr> (snd w))"
      by (rule typed_writes)
    then show "\<exists>t. (case i of (prev_tx, index) \<Rightarrow> \<lambda>(senders, d).
         let outpoint = \<lparr>wk_tx_id = prev_tx, wk_index = index\<rparr>
         in rbind (watched_get (en_kv en) outpoint d) (\<lambda>found.
            case found of
              None \<Rightarrow> Ok (senders, d)
            | Some addr \<Rightarrow>
                Ok (if addr \<in> set senders then senders else senders @ [addr],
                    spend_insert (en_kv en) \<lparr>zk_spent_at_ms = en_unix_ms en, zk_outpoint = outpoint\<rparr> d))) w = Ok t \<and>
        typed (en_kv en) (snd t)"
      using found w by (cases found) (auto simp: case_prod_unfold Let_def)
  qed (simp add: that)
  have credited: "\<exists>w. funds_credited en tx tx_id d = Ok w" for d
  proof -
    have "\<exists>w. funds_credited en tx tx_id d = Ok w \<and> True"
      unfolding funds_credited_def
      by (rule rfold_total) (use address_of_script_ok(1) [OF kaspa] in \<open>auto simp: case_prod_unfold split: res.splits\<close>)
    then show ?thesis by blast
  qed
  obtain w where "funds_senders en tx (bp_db b) = Ok w" using senders [OF assms(1)] by blast
  moreover obtain v where "funds_credited en tx tx_id (snd w) = Ok v" using credited by blast
  ultimately show ?thesis by (simp add: emit_funds_received_def case_prod_unfold)
qed

lemma transaction_total:
  assumes "typed (en_kv en) c" "one_record (en_kv en) c" and "typed (en_kv en) (bp_db b)" and "tx_ok en tx" and "header_ok h"
    and "rt_inputs tx \<noteq> []" and "rt_verbose_id tx \<noteq> None \<or> en_tx_id en tx \<noteq> None"
  shows "\<exists>b'. handle_transaction en c h tx b = Ok b' \<and> typed (en_kv en) (bp_db b')"
proof -
  obtain t where t: "(case rt_verbose_id tx of Some i \<Rightarrow> Some i | None \<Rightarrow> en_tx_id en tx) = Some t"
    using assms(7) by (cases "rt_verbose_id tx") auto
  have len: "length t = 32" using t assms(4) by (auto simp: tx_ok_def split: option.splits)
  obtain b1 where b1: "emit_funds_received en tx t h b = Ok b1" using funds_total assms(3,4) len by blast
  have typed1: "typed (en_kv en) (bp_db b1)" by (rule typed_writes [OF assms(3) funds_writes [OF b1 assms(4) len]])
  have "\<exists>b'. handle_transaction en c h tx b = Ok b'"
  proof (cases "parse_sealed_operation (rt_payload tx)")
    case None
    then show ?thesis by (simp add: handle_transaction_def t b1)
  next
    case (Some op)
    obtain i rest where inputs: "rt_inputs tx = i # rest" using assms(6) by (cases "rt_inputs tx") auto
    then have "length (fst i) = 32" using assms(4) by (auto simp: tx_ok_def)
    then obtain sender where sender: "resolve_sender en c (bp_db b1) i = Ok sender"
      using resolve_sender_total [OF assms(1,2) typed1] by blast
    obtain r where r: "resolve_primary_receiver (en_kp en) (rt_outputs tx) sender = Ok r" using receiver_total by blast
    obtain out0 where out0: "output0_address (en_kp en) tx = Ok out0" using output0_total by blast
    let ?st = "([] :: insertion_entry list, if out0 \<noteq> Some (snd r)
        then b1\<lparr>bp_db := output0_insert (en_kv en) t (or_default out0) (bp_db b1)\<rparr> else b1)"
    have "writes en (bp_db b1) (bp_db (snd ?st))"
      using output0_address_ok [OF out0] len by (auto simp: index_defs intro!: writes_intros)
    then have "typed (en_kv en) (bp_db (snd ?st))" by (rule typed_writes [OF typed1])
    then obtain st' where "handle_op en h t op (snd r) (fst r) sender ?st = Ok st'"
      using handle_op_total parse_facts [OF Some] by blast
    then show ?thesis
      by (auto simp: handle_transaction_def t b1 Some handle_sealed_def inputs sender r out0 Let_def case_prod_unfold)
  qed
  then obtain b' where b': "handle_transaction en c h tx b = Ok b'" by blast
  then have "typed (en_kv en) (bp_db b')" using typed_writes [OF assms(3)] transaction_writes [OF _ assms(5,4)] by blast
  with b' show ?thesis by blast
qed

lemma prune_watched_total:
  assumes "typed (en_kv en) c"
  shows "\<exists>b'. prune_watched_spends en c b = Ok b'"
proof -
  have "\<exists>ks. spent_before (en_kv en) c cutoff limit = Ok ks \<and> True" for cutoff limit
    unfolding spent_before_def
  proof (rule rfold_total)
    fix e and ks :: "spend_key list"
    assume "e \<in> set (take limit (below_scan (en_kv en) cutoff (c Watched_Outpoint_Spends)))"
    from in_set_takeD [OF this] have "(fst e, snd e) \<in> set (below_scan (en_kv en) cutoff (c Watched_Outpoint_Spends))" by simp
    then have "obs (en_kv en) c Watched_Outpoint_Spends (fst e) = Some (snd e)"
      by (simp add: below_scan_def in_below obs_def del: prod.collapse)
    from typedD [OF assms this] have "zk_read (fst e) \<noteq> None" by (simp add: zk_read_def read_fields_def)
    then show "\<exists>t. (case e of (k, _) \<Rightarrow> \<lambda>ks. rbind (or_err (zk_read k)) (\<lambda>key. Ok (ks @ [key]))) ks = Ok t \<and> True"
      by (auto simp: case_prod_unfold)
  qed simp
  then have "\<exists>ks. spent_before (en_kv en) c cutoff limit = Ok ks" for cutoff limit by simp
  then obtain ks where "spent_before (en_kv en) c (if watched_spend_retention_ms \<le> en_unix_ms en
      then en_unix_ms en - watched_spend_retention_ms else 0) watched_prune_batch = Ok ks" by blast
  then show ?thesis by (simp add: prune_watched_spends_def Let_def)
qed

lemma block_total:
  assumes "typed (en_kv en) (bp_db b)" "one_record (en_kv en) (bp_db b)" and "block_complete en blk"
  shows "\<exists>b'. handle_block en (bp_db b) blk b = Ok b'"
proof -
  let ?h = "rb_header blk" and ?c = "bp_db b"
  have h: "header_ok ?h" using assms(3) by (simp add: block_complete_def block_ok_def)
  obtain old d where ins: "insert_compact_header (en_kv en) (bh_hash ?h) (work_le (bh_blue_work ?h)) (bh_daa_score ?h) ?c = (old, d)"
    by (metis surj_pair)
  show ?thesis
  proof (cases old)
    case True
    then show ?thesis by (simp add: handle_block_def ins)
  next
    case False
    let ?b = "b\<lparr>bp_db := daa_index_insert (en_kv en) (bh_daa_score ?h) (bh_hash ?h) (work_be (bh_blue_work ?h)) d\<rparr>"
    obtain b1 where b1: "prune_watched_spends en ?c ?b = Ok b1" using prune_watched_total assms(1) by blast
    have "obs (en_kv en) d = (obs (en_kv en) ?c)(Block_Compact_Header := (obs (en_kv en) ?c Block_Compact_Header)
      (bh_hash ?h \<mapsto> compact_header_bytes (work_le (bh_blue_work ?h)) (bh_daa_score ?h)))"
      using compact_header_obs(2) [of "bh_hash ?h" "work_le (bh_blue_work ?h)" "bh_daa_score ?h" ?c] by (simp add: ins)
    then have "writes en ?c d"
      by (rule writes_obs(1) [OF rtranclp.rtrancl_refl, rotated 2])
        (use h in \<open>simp_all add: header_ok_def compact_header_bytes_def work_le_def le64_def\<close>)
    then have "typed (en_kv en) d" by (rule typed_writes [OF assms(1)])
    moreover have "writes en d (bp_db ?b)"
      using h by (auto simp: index_defs daa_key_bytes_def header_ok_def work_be_def intro!: writes_intros)
    moreover have "writes en (bp_db ?b) (bp_db b1)" by (rule prune_writes [OF b1])
    ultimately have "typed (en_kv en) (bp_db b1)" using typed_writes by blast
    then have "\<exists>b'. rfold (handle_transaction en ?c ?h) (rb_transactions blk) b1 = Ok b' \<and> typed (en_kv en) (bp_db b')"
    proof (rule rfold_total)
      fix tx and b2 :: "'s bp"
      assume tx: "tx \<in> set (rb_transactions blk)" "typed (en_kv en) (bp_db b2)"
      have "tx_ok en tx" "rt_inputs tx \<noteq> []" "rt_verbose_id tx \<noteq> None \<or> en_tx_id en tx \<noteq> None"
        using assms(3) tx(1) by (auto simp: block_complete_def block_ok_def list_all_iff)
      then show "\<exists>b3. handle_transaction en ?c ?h tx b2 = Ok b3 \<and> typed (en_kv en) (bp_db b3)"
        using transaction_total [OF assms(1,2) tx(2)] h by blast
    qed
    then show ?thesis using False b1 by (auto simp: handle_block_def ins Let_def)
  qed
qed

lemma or_err_no_Panic [simp]: "or_err x \<noteq> Panic"
  by (cases x) simp_all

lemma insert_no_Panic: "sender_value_ok (obs (en_kv en) d p k) \<Longrightarrow> insert_with_sender (en_kv en) p k s d \<noteq> Panic"
  by (simp add: insert_with_sender_Ok)

lemma resolve_entry_no_panic:
  assumes "entry_typed e" and "typed (en_kv en) (fst w)" and "typed (en_kv en) (rs_rtx rs)" and "rs_env rs = en"
  shows "resolve_entry rs (ie_partition e) (ie_action e) (ie_key e) w \<noteq> Panic"
proof -
  note ok = typed_sender [OF assms(2)]
  have act: "ie_action e = entry_action (ie_partition e)" "entry_key_len (ie_partition e) = Ok (length (ie_key e))"
    using assms(1) by (simp_all add: entry_typed_def entry_ok_def)
  have payment: "payment_amount v \<noteq> Panic" "payment_sealed_hex v \<noteq> Panic"
    if "kv_get (en_kv en) (rs_rtx rs Tx_Id_To_Payment) t = Some v" for t v
    using typedD [OF assms(3), of Tx_Id_To_Payment t v] that by (simp_all add: obs_def payment_amount_def payment_sealed_hex_def)
  note simps = resolve_simps resolve_group_message_def expect_action_def handler_defs index_defs rbind_eq_Panic assms(4) act(1)
    insert_with_sender_Ok ok
  show ?thesis
  proof (cases "ie_partition e")
    case GroupMessageByBlindedGroupId
    have "settle_group_message rs key payload w \<noteq> Panic" for key payload
    proof -
      have "sender_value_ok (obs (en_kv en) (snd (check_or_bind (en_kv en) g k (fst w))) Group_Message_By_Blinded_Group_Id q)" for g k q
        by (simp add: check_or_bind_obs ok)
      then show ?thesis
        by (auto simp: settle_group_message_def Let_def assms(4) case_prod_unfold handler_defs index_defs rbind_eq_Panic
            insert_with_sender_Ok split: option.splits sealed_operation.splits if_splits)
    qed
    then show ?thesis by (simp add: GroupMessageByBlindedGroupId simps)
  qed (use act in \<open>auto simp: simps payment case_prod_unfold Let_def split: option.splits\<close>)
qed

text \<open>The entries of a record, carried out one after the other.\<close>

lemma resolve_no_panic:
  assumes "typed (en_kv en) d" and "one_record (en_kv en) d" and "length t = 32"
    and "\<exists>k. starts_with t k \<and> obs (en_kv en) d Tx_Id_To_Acceptance k \<noteq> None"
  shows "handle_sender_address en a t daa d \<noteq> Panic"
proof
  assume panic: "handle_sender_address en a t daa d = Panic"
  obtain found where found: "acceptance_key_of (en_kv en) d t = Ok found" using key_total assms(1-3) by blast
  obtain k where k: "starts_with t k" "obs (en_kv en) d Tx_Id_To_Acceptance k \<noteq> None" using assms(4) by blast
  have "found \<noteq> None"
  proof
    assume "found = None"
    then have "kv_prefix (en_kv en) t (d Tx_Id_To_Acceptance) = []"
      using found by (auto simp: acceptance_key_of_def key_by_tx_id_def rbind_eq_Ok split: list.splits)
    then show False using k by (auto simp: prefix_Nil obs_def)
  qed
  then obtain key where key: "acceptance_key_of (en_kv en) d t = Ok (Some key)" using found by auto
  obtain v where v: "obs (en_kv en) d Tx_Id_To_Acceptance (ak_bytes key) = Some v"
    using key_by_tx_id_ok [of "d Tx_Id_To_Acceptance" t key] key by (auto simp: acceptance_key_of_def obs_def)
  obtain s where s: "payload_of (en_kp en) a = Ok s"
    using panic address_of_script_ok(1) [OF kaspa] by (cases "payload_of (en_kp en) a") (auto simp: handle_sender_address_def payload_of_def)
  let ?rs = "\<lparr>rs_env = en, rs_sender = s, rs_daa = daa, rs_rtx = d\<rparr>"
  let ?w = "pending_remove (en_kv en) \<lparr>pk_daa = daa, pk_tx_id = t\<rparr> d"
  obtain old st where fu: "kv_fetch_update (en_kv en) (ak_bytes key) (map_option (take header_len)) (?w Tx_Id_To_Acceptance) = (old, st)"
    by (metis surj_pair)
  have wv: "obs (en_kv en) ?w Tx_Id_To_Acceptance (ak_bytes key) = Some v" using v by (simp add: index_defs)
  then have old: "old = Some v"
    using fetch_update(1) [of "ak_bytes key" "map_option (take header_len)" "?w Tx_Id_To_Acceptance"] by (simp add: fu obs_def)
  have stv: "kv_get (en_kv en) st = (kv_get (en_kv en) (?w Tx_Id_To_Acceptance))(ak_bytes key := Some (take header_len v))"
    using fetch_update(2) [of "ak_bytes key" "map_option (take header_len)" "?w Tx_Id_To_Acceptance"] wv by (simp add: fu obs_def)
  have "record_ok v" using typedD [OF assms(1) v] by simp
  then obtain es where es: "header_len \<le> length v" "drop header_len v = concat (map entry_bytes es)" "list_all entry_typed es"
    by (auto simp: record_ok_def)
  let ?w1 = "?w(Tx_Id_To_Acceptance := st)"
  have "index_write en ?w ?w1"
    by (rule index_write.resolved [where k = "ak_bytes key"]) (use wv stv in \<open>auto simp: obs_def fun_eq_iff\<close>)
  moreover have "writes en d ?w" by (auto simp: index_defs intro!: writes_intros)
  ultimately have typed1: "typed (en_kv en) ?w1" using typed_writes [OF assms(1)] typed_write by blast
  have "rfold (\<lambda>e. resolve_entry ?rs (ie_partition e) (ie_action e) (ie_key e)) es w \<noteq> Panic"
    if "list_all entry_typed es" "typed (en_kv en) (fst w)" for es w
    using that
  proof (induction es arbitrary: w)
    case (Cons e es)
    have "resolve_entry ?rs (ie_partition e) (ie_action e) (ie_key e) w \<noteq> Panic"
      by (rule resolve_entry_no_panic) (use Cons.prems assms(1) in simp_all)
    moreover have "typed (en_kv en) (fst w')"
      if "resolve_entry ?rs (ie_partition e) (ie_action e) (ie_key e) w = Ok w'" for w'
      using typed_writes [OF Cons.prems(2) resolve_entry_writes [OF that]] address_of_script_ok(2) [OF kaspa s [unfolded payload_of_def]]
      by simp
    ultimately show ?case using Cons.IH Cons.prems by (auto simp: rbind_eq_Panic)
  qed simp
  then have "rfold (\<lambda>e. resolve_entry ?rs (ie_partition e) (ie_action e) (ie_key e)) es (?w1, []) \<noteq> Panic"
    using es(3) typed1 by simp
  then have "resolve_loop entry_key_len (resolve_entry ?rs) (drop header_len v) (?w1, []) \<noteq> Panic"
    unfolding es(2)
    by (subst resolve_entries_roundtrip) (use es(3) in \<open>auto simp: list_all_iff entry_typed_def entry_ok_def\<close>)
  moreover have "resolve_entries (en_kv en) key entry_key_len (resolve_entry ?rs) (?w, []) =
    rbind (resolve_loop entry_key_len (resolve_entry ?rs) (drop header_len v) (?w1, [])) (\<lambda>w. Ok (True, w))"
    using es(1) by (simp add: resolve_entries_def fu old)
  ultimately show False
    using panic by (auto simp: handle_sender_address_def s key Let_def rbind_eq_Panic case_prod_unfold)
qed

end

end
