(* ===== verification/Index_Samples.thy ===== *)
theory Index_Samples
  imports Index_Total Samples Chain_Sync Block_Loop
begin

text \<open>
  A concrete indexer for the witnesses: the engine in memory, the script classes decided by the
  length and the opcodes of a script, and the hex decoder of the registry's samples.
\<close>

section \<open>The crates\<close>

definition sample_class :: "script_public_key \<Rightarrow> script_class" where
  "sample_class spk =
     (let s = spk_script spk
      in if length s = 34 \<and> hd s = 0x20 \<and> last s = 0xac then PubKey
         else if length s = 35 \<and> hd s = 0x21 \<and> last s = 0xab then PubKeyECDSA
         else if length s = 35 \<and> hd s = 0xaa \<and> last s = 0x87 then ScriptHash
         else NonStandard)"

text \<open>An address of the sample is its public key.\<close>

definition sample_kaspa :: "bytes kaspa" where
  "sample_kaspa = \<lparr>kp_pubkey = 0, kp_ecdsa = 1, kp_script_hash = 8, kp_class = sample_class,
     kp_class_version = (\<lambda>_. 0), kp_pay_to = (\<lambda>k. \<lparr>spk_version = 0, spk_script = 0x20 # k @ [0xac]\<rparr>)\<rparr>"

definition sample_personal :: personal where
  "sample_personal = \<lparr>pe_addresses = [], pe_inbox_tags = [], pe_group_ids = [], pe_watch_only = []\<rparr>"

definition sample_env :: "((bytes, bytes) hash_map, bytes) env" where
  "sample_env = \<lparr>en_kv = mem_kv, en_kp = sample_kaspa, en_hex_decode = sample_hex, en_tx_id = (\<lambda>_. None),
     en_push = True, en_push_funds = False, en_personal = sample_personal, en_now = 0, en_unix_ms = 0\<rparr>"

lemma sample_env_simps [simp]:
  "en_kv sample_env = mem_kv" "en_kp sample_env = sample_kaspa" "en_hex_decode sample_env = sample_hex"
  "en_push sample_env" "\<not> en_push_funds sample_env" "en_personal sample_env = sample_personal"
  by (simp_all add: sample_env_def)

lemma sample_kaspa_laws: "kaspa_laws sample_kaspa"
  by (auto simp: kaspa_laws_def sample_kaspa_def sample_class_def Let_def split: if_splits)

lemma hex_value_digit: "is_ascii_hexdigit b \<Longrightarrow> hex_value b \<noteq> None"
  by (auto simp: is_ascii_hexdigit_def is_lower_af_def is_ascii_digit_def)

lemma sample_hex_laws: "hex_laws sample_hex"
proof -
  have "\<exists>d. sample_hex b = Some d \<and> length d = n" if "length b = 2 * n" "list_all is_ascii_hexdigit b" for b n
    using that
  proof (induction b arbitrary: n rule: sample_hex.induct)
    case (3 a b r)
    then obtain d where "sample_hex r = Some d" "length d = n - 1" by (cases n) auto
    then show ?case using 3(2,3) hex_value_digit [of a] hex_value_digit [of b]
      by (cases n) (auto simp del: hex_value.simps)
  qed auto
  moreover have "length b = 2 * length d" if "sample_hex b = Some d" for b d
    using that by (induction b arbitrary: d rule: sample_hex.induct)
      (auto simp del: hex_value.simps split: option.splits)
  ultimately show ?thesis by (simp add: hex_laws_def)
qed

interpretation sample: indexer sample_env
  by unfold_locales (simp_all add: mem_kv_laws sample_kaspa_laws sample_hex_laws)

section \<open>A block\<close>

text \<open>A transaction that pays address 2 from an outpoint nobody knows, with a message, and its block.\<close>

definition sample_address :: "u8 \<Rightarrow> address_payload" where
  "sample_address n = \<lparr>ap_inverse_version = 255, ap_payload = replicate 32 n @ [0]\<rparr>"

definition sample_hash :: "u8 \<Rightarrow> bytes" where
  "sample_hash n = replicate 32 n"

definition sample_header :: "u8 \<Rightarrow> rpc_header" where
  "sample_header n = \<lparr>bh_hash = sample_hash n, bh_timestamp = 1000, bh_daa_score = 7, bh_blue_work = 9\<rparr>"

definition sample_tx :: rpc_tx where
  "sample_tx = \<lparr>rt_inputs = [(sample_hash 0x21, 0)], rt_outputs = [(5, kp_pay_to sample_kaspa (sample_hash 2))],
     rt_payload = sample_comm, rt_verbose_id = Some (sample_hash 0x22)\<rparr>"

definition sample_block :: rpc_block where
  "sample_block = \<lparr>rb_header = sample_header 1, rb_transactions = [sample_tx]\<rparr>"

definition empty_index :: "(bytes, bytes) hash_map keyspace" where
  "empty_index = (\<lambda>_. [])"

definition empty_bp :: "(bytes, bytes) hash_map bp" where
  "empty_bp = \<lparr>bp_db = empty_index, bp_pushes = [], bp_funds = [], bp_last_watched_prune = None\<rparr>"

lemma sample_lengths [simp]: "length (sample_hash n) = 32" "address_ok (sample_address n)" "header_ok (sample_header n)"
  by (simp_all add: sample_hash_def sample_address_def address_ok_def header_ok_def sample_header_def)

lemma obs_empty [simp]: "obs mem_kv empty_index p k = None"
  by (simp add: obs_def empty_index_def)

lemma bp_db_empty [simp]: "bp_db empty_bp = empty_index"
  by (simp add: empty_bp_def)

lemma sample_pays: "payload_of sample_kaspa (sample_hash n) = Ok (sample_address n)"
  by (simp add: payload_of_def address_of_script_def sample_kaspa_def sample_class_def sample_hash_def
      sample_address_def Let_def numeral_eq_Suc)

lemma sample_block_ok: "tx_ok sample_env sample_tx" "block_ok sample_env sample_block" "rt_inputs sample_tx \<noteq> []"
  "rt_verbose_id sample_tx = Some (sample_hash 0x22)"
  by (simp_all add: sample_tx_def sample_block_def tx_ok_def block_ok_def sample_env_def)

section \<open>A virtual chain\<close>

text \<open>Processed blocks as an association list, the newest last.\<close>

definition sample_ring :: "(bytes \<times> u64 \<times> blue_work) list ring" where
  "sample_ring = \<lparr>rg_new = [], rg_insert = (\<lambda>h v m. filter (\<lambda>e. fst e \<noteq> h) m @ [(h, v)]), rg_pop_front = tl,
     rg_get = map_of, rg_len = length\<rparr>"

definition sample_ve :: "((bytes, bytes) hash_map, bytes, (bytes \<times> u64 \<times> blue_work) list) vp_env" where
  "sample_ve = \<lparr>ve_env = sample_env, ve_ring = sample_ring, ve_synced_capacity = 100\<rparr>"

lemma sample_ve_simps [simp]: "ve_env sample_ve = sample_env" "ve_ring sample_ve = sample_ring"
  by (simp_all add: sample_ve_def)

end
