(* ===== verification/Index_Facts.thy ===== *)
theory Index_Facts
  imports Index_Total Index_Samples
begin

text \<open>
  What the handlers compose to: the entries a block leaves are carried out when the sender arrives,
  a spend of output 0 names its owner, a block seen again changes nothing, and a reader's scan finds
  the rows it asks for.
\<close>

section \<open>Deferred work\<close>

context indexer begin

text \<open>The entries of a record that a block has accepted are carried out in the order they were left.\<close>

lemma resolve_record:
  assumes "list_all entry_ok es" and "length hdr = header_len"
    and "obs (en_kv en) d Tx_Id_To_Acceptance (ak_bytes key) = Some (hdr @ concat (map entry_bytes es))"
  shows "\<exists>d0. same_index (en_kv en) d0 d \<and>
    resolve_entries (en_kv en) key entry_key_len (resolve_entry rs) (d, []) =
      rbind (carry_out rs es d0) (\<lambda>w. Ok (True, w))"
proof -
  obtain old st where fu: "kv_fetch_update (en_kv en) (ak_bytes key) (map_option (take header_len)) (d Tx_Id_To_Acceptance) = (old, st)"
    by (metis surj_pair)
  have old: "old = Some (hdr @ concat (map entry_bytes es))"
    using fetch_update(1) [of "ak_bytes key" "map_option (take header_len)" "d Tx_Id_To_Acceptance"] assms(3)
    by (simp add: fu obs_def)
  have loop: "resolve_loop entry_key_len cb (concat (map entry_bytes es)) w =
      rfold (\<lambda>e. cb (ie_partition e) (ie_action e) (ie_key e)) es w" for cb and w :: "'c"
    by (rule resolve_entries_roundtrip) (use assms(1) in \<open>auto simp: entry_ok_def list_all_iff\<close>)
  have "same_index (en_kv en) (d(Tx_Id_To_Acceptance := st)) d" by (simp add: same_index_def obs_def)
  then show ?thesis
    using assms(2) by (intro exI [of _ "d(Tx_Id_To_Acceptance := st)"]) (simp add: resolve_entries_def fu old loop carry_out_def)
qed

lemma acceptance_update_total:
  assumes "obs (en_kv en) d Tx_Id_To_Acceptance (ak_bytes key) = Some v" and "header_len \<le> length v"
  shows "\<exists>out d'. acceptance_update (en_kv en) key h daa d = Ok (out, d')"
proof -
  let ?f = "map_option (\<lambda>old. header_bytes h daa @ drop header_len old)"
  obtain old st where "kv_fetch_update (en_kv en) (ak_bytes key) ?f (d Tx_Id_To_Acceptance) = (old, st)" by (metis surj_pair)
  moreover from this have "old = Some v"
    using fetch_update(1) [of "ak_bytes key" ?f "d Tx_Id_To_Acceptance"] assms(1) by (simp add: obs_def)
  ultimately show ?thesis using assms(2) by (simp add: acceptance_update_def update_acceptance_def)
qed

lemma deferred_pipeline:
  assumes "ready (en_kv en) h t r s b" and "op_ok op" and "unseen_group_message (en_kv en) t (bp_db b)"
    and fresh: "\<And>k. starts_with t k \<Longrightarrow> obs (en_kv en) (bp_db b) Tx_Id_To_Acceptance k = None"
    and "payload_of (en_kp en) a = Ok s" and "length abh = 32"
  shows "\<exists>es b1 b2 out d1 d2 events.
    handle_op en h t op r amt None ([], b) = Ok (es, b1) \<and>
    handle_op en h t op r amt (Some s) ([], b) = Ok ([], b2) \<and>
    acceptance_update (en_kv en) \<lparr>ak_tx_id = t, ak_receiver = r\<rparr> abh daa
      (acceptance_insert (en_kv en) \<lparr>ak_tx_id = t, ak_receiver = r\<rparr> es (bp_db b1)) = Ok (out, d1) \<and>
    handle_sender_address en a t daa d1 = Ok (d2, events) \<and>
    same_index (en_kv en) d2 (bp_db b2)"
proof -
  let ?key = "\<lparr>ak_tx_id = t, ak_receiver = r\<rparr>"
  have ready: "length t = 32" "ak_ok ?key" using assms(1) by (simp_all add: ready_def ak_ok_def)
  obtain es b1 b2 where u: "handle_op en h t op r amt None ([], b) = Ok (es, b1)"
    and k: "handle_op en h t op r amt (Some s) ([], b) = Ok ([], b2)" and es: "list_all entry_ok es"
    and carry: "\<And>d rs. same_index (en_kv en) d (bp_db b1) \<Longrightarrow> same_index (en_kv en) (rs_rtx rs) (bp_db b1) \<Longrightarrow>
      rs_env rs = en \<Longrightarrow> rs_sender rs = s \<Longrightarrow> same_result (en_kv en) (carry_out rs es d) (bp_db b2)"
    using deferred_op [OF assms(1-3), where amt = amt]
    by (fastforce simp: defers_def split: res.splits)
  have chain: "obs (en_kv en) (bp_db b1) Tx_Id_To_Acceptance = obs (en_kv en) (bp_db b) Tx_Id_To_Acceptance"
    using handle_op_chain [OF u, of Tx_Id_To_Acceptance] by (simp add: obs_def chain_partitions_def fun_eq_iff)
  let ?d0 = "acceptance_insert (en_kv en) ?key es (bp_db b1)"
  have fresh1: "obs (en_kv en) (bp_db b1) Tx_Id_To_Acceptance (ak_bytes ?key) = None"
    using fresh [of "ak_bytes ?key"] ready by (simp add: chain)
  have record0: "obs (en_kv en) ?d0 Tx_Id_To_Acceptance (ak_bytes ?key) = Some (zero_header @ concat (map entry_bytes es))"
    using fresh1 by simp
  obtain out d1 where up: "acceptance_update (en_kv en) ?key abh daa ?d0 = Ok (out, d1)"
    using acceptance_update_total [OF record0, of abh daa] by auto
  note up_obs = acceptance_update_obs(1) [OF up]
  have record1: "obs (en_kv en) d1 Tx_Id_To_Acceptance (ak_bytes ?key) = Some (header_bytes abh daa @ concat (map entry_bytes es))"
    unfolding up_obs by (simp add: record0 del: obs_acceptance_insert)
  have only: "b = ak_bytes ?key" if "starts_with t b" "kv_get (en_kv en) (d1 Tx_Id_To_Acceptance) b \<noteq> None" for b
    using that fresh [OF that(1)] by (auto simp: up_obs obs_def [symmetric] chain split: if_splits)
  have found: "acceptance_key_of (en_kv en) d1 t = Ok (Some ?key)"
    unfolding acceptance_key_of_def
    by (rule key_by_tx_id_found) (use ready record1 only in \<open>auto simp: obs_def\<close>)
  let ?rs = "\<lparr>rs_env = en, rs_sender = s, rs_daa = daa, rs_rtx = d1\<rparr>"
  let ?w = "pending_remove (en_kv en) \<lparr>pk_daa = daa, pk_tx_id = t\<rparr> d1"
  have same1: "same_index (en_kv en) d1 (bp_db b1)" by (simp add: same_index_def up_obs)
  have recordw: "obs (en_kv en) ?w Tx_Id_To_Acceptance (ak_bytes ?key) = Some (header_bytes abh daa @ concat (map entry_bytes es))"
    using record1 by (simp add: index_defs)
  obtain d0 where d0: "same_index (en_kv en) d0 ?w"
    and run: "resolve_entries (en_kv en) ?key entry_key_len (resolve_entry ?rs) (?w, []) = rbind (carry_out ?rs es d0) (\<lambda>w. Ok (True, w))"
    using resolve_record [OF es _ recordw, of ?rs] assms(6) by auto
  have "same_index (en_kv en) d0 (bp_db b1)" using d0 same1 by (auto simp: same_index_def index_defs)
  then have "same_result (en_kv en) (carry_out ?rs es d0) (bp_db b2)" by (rule carry) (simp_all add: same1)
  then obtain w where w: "carry_out ?rs es d0 = Ok w" "same_index (en_kv en) (fst w) (bp_db b2)"
    by (auto simp: same_result_def split: res.splits)
  have "handle_sender_address en a t daa d1 = Ok (fst w, if en_push en then snd w else [])"
    using run w(1) by (simp add: handle_sender_address_def assms(5) found case_prod_unfold)
  with u k up w(2) show ?thesis by blast
qed

end

section \<open>What a transaction leaves alone\<close>

context indexer begin

lemma senders_keep:
  assumes "funds_senders en tx d = Ok w" and "q \<noteq> Watched_Outpoint_Spends"
  shows "snd w q = d q"
  by (rule rfold_invariant [OF assms(1) [unfolded funds_senders_def]])
    (use assms(2) in \<open>auto simp: rbind_eq_Ok Let_def index_defs split: option.splits\<close>)

lemma credited_keep:
  assumes "funds_credited en tx t d = Ok w" and "q \<noteq> Watched_Outpoints"
  shows "snd w q = d q"
  by (rule rfold_invariant [OF assms(1) [unfolded funds_credited_def]])
    (use assms(2) in \<open>auto simp: rbind_eq_Ok Let_def index_defs split: res.splits if_splits\<close>)

lemma funds_keep:
  assumes "emit_funds_received en tx t h b = Ok b'" and "q \<notin> {Watched_Outpoints, Watched_Outpoint_Spends}"
  shows "bp_db b' q = bp_db b q"
  using assms by (fastforce simp: emit_funds_received_def rbind_eq_Ok dest: senders_keep credited_keep split: if_splits)

lemma sealed_keeps:
  assumes "handle_sealed en c h tx t op b = Ok b'"
    and "q \<in> chain_partitions - {Tx_Output0_Owner, Tx_Id_To_Acceptance}"
  shows "bp_db b' q = bp_db b q"
proof (rule handle_sealed_cases [OF assms(1)])
  fix i rest sender amount receiver out0 st es b1
  assume st: "st = (if out0 \<noteq> Some receiver then b\<lparr>bp_db := output0_insert (en_kv en) t (or_default out0) (bp_db b)\<rparr> else b)"
    and op: "handle_op en h t op receiver amount sender ([], st) = Ok (es, b1) \<or> es = [] \<and> b1 = st"
    and b': "b' = b1\<lparr>bp_db := acceptance_insert (en_kv en) \<lparr>ak_tx_id = t, ak_receiver = receiver\<rparr> es (bp_db b1)\<rparr>"
  have "bp_db b1 q = bp_db st q" using op handle_op_chain [of en h t op receiver amount sender st es b1 q] assms(2) by auto
  then show ?thesis using assms(2) by (auto simp: b' st acceptance_insert_def output0_insert_def)
qed

lemma transaction_keeps:
  assumes "handle_transaction en c h tx b = Ok b'"
    and "q \<in> chain_partitions - {Tx_Output0_Owner, Tx_Id_To_Acceptance, Watched_Outpoints, Watched_Outpoint_Spends}"
  shows "bp_db b' q = bp_db b q"
proof -
  obtain t b1 where f: "emit_funds_received en tx t h b = Ok b1"
    and r: "(case parse_sealed_operation (rt_payload tx) of None \<Rightarrow> Ok b1 | Some op \<Rightarrow> handle_sealed en c h tx t op b1) = Ok b'"
    using assms(1) unfolding handle_transaction_def rbind_eq_Ok by blast
  have "bp_db b' q = bp_db b1 q" using r sealed_keeps assms(2) by (auto split: option.splits)
  then show ?thesis using funds_keep [OF f, of q] assms(2) by simp
qed

text \<open>What a transaction with a sealed operation records: its acceptance key and the owner of output 0.\<close>

lemma transaction_record:
  assumes "handle_transaction en c h tx b = Ok b'" and "rt_verbose_id tx = Some t" and "length t = 32"
    and "parse_sealed_operation (rt_payload tx) = Some op"
  obtains i rest sender amount receiver out0 es where "rt_inputs tx = i # rest"
    and "resolve_sender en c (bp_db b) i = Ok sender"
    and "resolve_primary_receiver (en_kp en) (rt_outputs tx) sender = Ok (amount, receiver)"
    and "output0_address (en_kp en) tx = Ok out0" and "ak_ok \<lparr>ak_tx_id = t, ak_receiver = receiver\<rparr>"
    and "obs (en_kv en) (bp_db b') Tx_Id_To_Acceptance = (obs (en_kv en) (bp_db b) Tx_Id_To_Acceptance)
      (ak_bytes \<lparr>ak_tx_id = t, ak_receiver = receiver\<rparr> \<mapsto>
        (case obs (en_kv en) (bp_db b) Tx_Id_To_Acceptance (ak_bytes \<lparr>ak_tx_id = t, ak_receiver = receiver\<rparr>) of
           None \<Rightarrow> zero_header | Some old \<Rightarrow> old) @ concat (map entry_bytes es))"
    and "obs (en_kv en) (bp_db b') Tx_Output0_Owner = (if out0 \<noteq> Some receiver
      then (obs (en_kv en) (bp_db b) Tx_Output0_Owner)(t \<mapsto> address_bytes (or_default out0))
      else obs (en_kv en) (bp_db b) Tx_Output0_Owner)"
proof -
  obtain b0 where f: "emit_funds_received en tx t h b = Ok b0" and r: "handle_sealed en c h tx t op b0 = Ok b'"
    using assms(1,2,4) by (auto simp: handle_transaction_def rbind_eq_Ok)
  have before: "bp_db b0 Tx_Id_To_Acceptance = bp_db b Tx_Id_To_Acceptance" "bp_db b0 Tx_Output0_Owner = bp_db b Tx_Output0_Owner"
    using funds_keep [OF f] by simp_all
  show thesis
  proof (rule handle_sealed_cases [OF r])
    fix i rest sender amount receiver out0 st es b1
    assume i: "rt_inputs tx = i # rest" and sender: "resolve_sender en c (bp_db b0) i = Ok sender"
      and receiver: "resolve_primary_receiver (en_kp en) (rt_outputs tx) sender = Ok (amount, receiver)"
      and out0: "output0_address (en_kp en) tx = Ok out0"
      and st: "st = (if out0 \<noteq> Some receiver then b0\<lparr>bp_db := output0_insert (en_kv en) t (or_default out0) (bp_db b0)\<rparr> else b0)"
      and op: "handle_op en h t op receiver amount sender ([], st) = Ok (es, b1) \<or> es = [] \<and> b1 = st"
      and b': "b' = b1\<lparr>bp_db := acceptance_insert (en_kv en) \<lparr>ak_tx_id = t, ak_receiver = receiver\<rparr> es (bp_db b1)\<rparr>"
    have keep: "bp_db b1 q = bp_db st q" if "q \<in> chain_partitions" for q
      using op handle_op_chain [of en h t op receiver amount sender st es b1 q] that by auto
    have acc: "obs (en_kv en) (bp_db b1) Tx_Id_To_Acceptance = obs (en_kv en) (bp_db b) Tx_Id_To_Acceptance"
      using keep [of Tx_Id_To_Acceptance] before(1)
      by (simp add: chain_partitions_def st output0_insert_def obs_def fun_eq_iff)
    have own: "obs (en_kv en) (bp_db b1) Tx_Output0_Owner = obs (en_kv en) (bp_db st) Tx_Output0_Owner"
      using keep [of Tx_Output0_Owner] by (simp add: chain_partitions_def obs_def fun_eq_iff)
    show thesis
    proof (rule that [OF i _ receiver out0])
      show "resolve_sender en c (bp_db b) i = Ok sender"
        using sender unfolding resolve_sender_def by (simp only: output0_get_def before(2))
      show "ak_ok \<lparr>ak_tx_id = t, ak_receiver = receiver\<rparr>"
        using receiver_ok [OF receiver] assms(3) by (simp add: ak_ok_def)
      show "obs (en_kv en) (bp_db b') Tx_Id_To_Acceptance = (obs (en_kv en) (bp_db b) Tx_Id_To_Acceptance)
          (ak_bytes \<lparr>ak_tx_id = t, ak_receiver = receiver\<rparr> \<mapsto>
            (case obs (en_kv en) (bp_db b) Tx_Id_To_Acceptance (ak_bytes \<lparr>ak_tx_id = t, ak_receiver = receiver\<rparr>) of
               None \<Rightarrow> zero_header | Some old \<Rightarrow> old) @ concat (map entry_bytes es))"
        by (simp add: b' acc)
      show "obs (en_kv en) (bp_db b') Tx_Output0_Owner = (if out0 \<noteq> Some receiver
          then (obs (en_kv en) (bp_db b) Tx_Output0_Owner)(t \<mapsto> address_bytes (or_default out0))
          else obs (en_kv en) (bp_db b) Tx_Output0_Owner)"
        using before(2) by (simp add: b' own st output0_insert_def) (simp add: obs_def fun_eq_iff)
    qed
  qed
qed

text \<open>What the owner recorded with a transaction says of a spend of its output 0.\<close>

lemma sender_of_spend:
  assumes "handle_transaction en c h tx b = Ok b'" and "rt_verbose_id tx = Some t" and "length t = 32"
    and "parse_sealed_operation (rt_payload tx) = Some op"
    and fresh: "\<And>k. starts_with t k \<Longrightarrow> obs (en_kv en) (bp_db b) Tx_Id_To_Acceptance k = None"
    and unowned: "obs (en_kv en) (bp_db b) Tx_Output0_Owner t = None"
  shows "\<exists>owner. output0_address (en_kp en) tx = Ok owner \<and> resolve_sender en (bp_db b') (bp_db b') (t, 0) = Ok owner"
proof (rule transaction_record [OF assms(1-4)])
  fix i rest sender amount receiver out0 es
  let ?key = "\<lparr>ak_tx_id = t, ak_receiver = receiver\<rparr>"
  assume out0: "output0_address (en_kp en) tx = Ok out0" and key: "ak_ok ?key"
    and acc: "obs (en_kv en) (bp_db b') Tx_Id_To_Acceptance = (obs (en_kv en) (bp_db b) Tx_Id_To_Acceptance)
      (ak_bytes ?key \<mapsto> (case obs (en_kv en) (bp_db b) Tx_Id_To_Acceptance (ak_bytes ?key) of
           None \<Rightarrow> zero_header | Some old \<Rightarrow> old) @ concat (map entry_bytes es))"
    and own: "obs (en_kv en) (bp_db b') Tx_Output0_Owner = (if out0 \<noteq> Some receiver
      then (obs (en_kv en) (bp_db b) Tx_Output0_Owner)(t \<mapsto> address_bytes (or_default out0))
      else obs (en_kv en) (bp_db b) Tx_Output0_Owner)"
  have rows: "kv_get (en_kv en) (bp_db b' p) = obs (en_kv en) (bp_db b') p" for p
    by (simp add: obs_def fun_eq_iff)
  have "acceptance_key_of (en_kv en) (bp_db b') t = Ok (Some ?key)"
    unfolding acceptance_key_of_def
    by (rule key_by_tx_id_found) (use key assms(3) fresh in \<open>auto simp: rows acc split: if_splits\<close>)
  moreover have "address_ok (or_default out0)" by (rule output0_address_ok [OF out0])
  moreover have "out0 \<noteq> Some no_address"
    using out0 address_of_script_ok(2) [OF kaspa] by (auto simp: output0_address_def split: list.splits res.splits)
  ultimately have "resolve_sender en (bp_db b') (bp_db b') (t, 0) = Ok out0"
    using unowned by (auto simp: resolve_sender_def output0_get_def output0_owner_def rows own split: option.splits)
  with out0 show ?thesis by blast
qed

text \<open>A transaction met twice with different receivers has two records, and no key is found for it again.\<close>

lemma two_records:
  assumes "handle_transaction en c h tx b = Ok b1" and "handle_transaction en c' h' tx b2 = Ok b3"
    and "records_kept (en_kv en) (bp_db b1) (bp_db b2)"
    and tx: "rt_verbose_id tx = Some t" "length t = 32" "parse_sealed_operation (rt_payload tx) = Some op" "rt_inputs tx = i # rest"
    and "resolve_sender en c (bp_db b) i = Ok s" and "resolve_sender en c' (bp_db b2) i = Ok s'"
    and "resolve_primary_receiver (en_kp en) (rt_outputs tx) s = Ok (x, r)"
    and "resolve_primary_receiver (en_kp en) (rt_outputs tx) s' = Ok (x', r')" and "r \<noteq> r'"
  shows "acceptance_key_of (en_kv en) (bp_db b3) t = Panic"
proof -
  let ?k = "ak_bytes \<lparr>ak_tx_id = t, ak_receiver = r\<rparr>" and ?k' = "ak_bytes \<lparr>ak_tx_id = t, ak_receiver = r'\<rparr>"
  have ok: "ak_ok \<lparr>ak_tx_id = t, ak_receiver = r\<rparr>" "ak_ok \<lparr>ak_tx_id = t, ak_receiver = r'\<rparr>"
    using receiver_ok assms(10,11) tx(2) by (auto simp: ak_ok_def)
  have rec: "\<exists>v. obs (en_kv en) (bp_db w') Tx_Id_To_Acceptance =
      (obs (en_kv en) (bp_db w) Tx_Id_To_Acceptance)(ak_bytes \<lparr>ak_tx_id = t, ak_receiver = q\<rparr> \<mapsto> v)"
    if "handle_transaction en d g tx w = Ok w'" "resolve_sender en d (bp_db w) i = Ok snd_opt"
      "resolve_primary_receiver (en_kp en) (rt_outputs tx) snd_opt = Ok (y, q)" for d g w w' snd_opt y q
    by (rule transaction_record [OF that(1) tx(1-3)], rule exI) (use tx(4) that(2,3) in simp)
  have "obs (en_kv en) (bp_db b1) Tx_Id_To_Acceptance ?k \<noteq> None" using rec [OF assms(1,8,10)] by auto
  then have "obs (en_kv en) (bp_db b2) Tx_Id_To_Acceptance ?k \<noteq> None" using assms(3) by (auto simp: records_kept_def)
  then have "obs (en_kv en) (bp_db b3) Tx_Id_To_Acceptance ?k \<noteq> None \<and> obs (en_kv en) (bp_db b3) Tx_Id_To_Acceptance ?k' \<noteq> None"
    using rec [OF assms(2,9,11)] by auto
  moreover have "?k \<noteq> ?k'" using ak_bytes_inj [OF ok] assms(12) by auto
  ultimately show ?thesis
    unfolding acceptance_key_of_def using ok tx(2) by (intro key_by_tx_id_two) (auto simp: obs_def)
qed

text \<open>A block seen before changes nothing but its own header, which is written again.\<close>

lemma block_again:
  assumes "handle_block en c blk b = Ok b'"
  shows "\<exists>b''. handle_block en c' blk b' = Ok b'' \<and> obs (en_kv en) (bp_db b'') = obs (en_kv en) (bp_db b') \<and>
    bp_pushes b'' = bp_pushes b' \<and> bp_funds b'' = bp_funds b'"
proof -
  let ?h = "rb_header blk"
  let ?v = "compact_header_bytes (work_le (bh_blue_work ?h)) (bh_daa_score ?h)"
  let ?ins = "insert_compact_header (en_kv en) (bh_hash ?h) (work_le (bh_blue_work ?h)) (bh_daa_score ?h)"
  note header = compact_header_obs [of "bh_hash ?h" "work_le (bh_blue_work ?h)" "bh_daa_score ?h"]
  have stored: "obs (en_kv en) (bp_db b') Block_Compact_Header (bh_hash ?h) = Some ?v"
  proof (cases "fst (?ins (bp_db b))")
    case True
    then show ?thesis using assms header(2) [of "bp_db b"] by (auto simp: handle_block_def Let_def case_prod_unfold)
  next
    case False
    then obtain b1 where prune: "prune_watched_spends en c (b\<lparr>bp_db := daa_index_insert (en_kv en) (bh_daa_score ?h) (bh_hash ?h)
        (work_be (bh_blue_work ?h)) (snd (?ins (bp_db b)))\<rparr>) = Ok b1"
      and txs: "rfold (handle_transaction en c ?h) (rb_transactions blk) b1 = Ok b'"
      using assms by (auto simp: handle_block_def Let_def case_prod_unfold rbind_eq_Ok)
    have watched: "fold (\<lambda>spend d. spend_remove (en_kv en) spend (watched_remove (en_kv en) (zk_outpoint spend) d)) ks d
        Block_Compact_Header = d Block_Compact_Header" for ks d
      by (induction ks arbitrary: d) (simp_all add: index_defs)
    have "bp_db b' Block_Compact_Header = bp_db b1 Block_Compact_Header"
      by (rule rfold_invariant [OF txs]) (simp_all add: transaction_keeps chain_partitions_def)
    also have "\<dots> = snd (?ins (bp_db b)) Block_Compact_Header"
      using prune by (auto simp: prune_watched_spends_def Let_def rbind_eq_Ok watched daa_index_insert_def split: if_splits)
    finally show ?thesis using header(2) [of "bp_db b"] by (simp add: obs_def fun_eq_iff)
  qed
  have "fst (?ins (bp_db b'))" using stored header(1) by simp
  moreover have "obs (en_kv en) (snd (?ins (bp_db b'))) = obs (en_kv en) (bp_db b')"
    using stored by (simp add: header(2) fun_upd_idem)
  ultimately show ?thesis by (simp add: handle_block_def Let_def case_prod_unfold)
qed

end

section \<open>Scans\<close>

lemma rk_read_107:
  assumes "length k = 107"
  shows "rk_read k = Some \<lparr>rk_receiver = address_field (take 34 k), rk_block_time = read_u64 (take 8 (drop 34 k)),
    rk_block_hash = take 32 (drop 42 k), rk_version = hd (drop 74 k), rk_tx_id = drop 75 k\<rparr>"
  using assms by (simp add: rk_read_def read_fields_def)

context engine begin

text \<open>A scan by receiver finds exactly the rows of the receiver from the given time on.\<close>

lemma receiver_scan:
  assumes "\<And>k v. kv_get kv s k = Some v \<Longrightarrow> length k = 107" and "address_ok a"
  shows "(k, v) \<in> set (time_scan kv (address_bytes a) from s) \<longleftrightarrow> kv_get kv s k = Some v \<and>
    (\<exists>key. rk_read k = Some key \<and> rk_receiver key = a \<and> from \<le> rk_block_time key \<and> rk_block_time key \<noteq> - 1)"
proof (cases "kv_get kv s k = Some v")
  case True
  have len: "length k = 107" by (rule assms(1) [OF True])
  have "(\<exists>t rest. k = address_bytes a @ be64 t @ rest \<and> from \<le> t \<and> (t = - 1 \<longrightarrow> rest = [])) \<longleftrightarrow>
      (\<exists>key. rk_read k = Some key \<and> rk_receiver key = a \<and> from \<le> rk_block_time key \<and> rk_block_time key \<noteq> - 1)"
    (is "?scan \<longleftrightarrow> ?read")
  proof
    assume ?scan
    then obtain t rest where k: "k = address_bytes a @ be64 t @ rest" "from \<le> t" "t = - 1 \<longrightarrow> rest = []" by blast
    have "rest \<noteq> []" using len assms(2) by (auto simp: k(1))
    then show ?read using k assms(2) rk_read_107 [OF len] by (simp add: k(1))
  next
    assume ?read
    then have r: "address_field (take 34 k) = a" "from \<le> read_u64 (take 8 (drop 34 k))" "read_u64 (take 8 (drop 34 k)) \<noteq> - 1"
      using rk_read_107 [OF len] by auto
    have "take 34 k = address_bytes a"
      using r(1) len by (cases k) (auto simp: address_field_def address_bytes_def)
    moreover have "be64 (read_u64 (take 8 (drop 34 k))) = take 8 (drop 34 k)"
      using be64_read_u64 [of "take 8 (drop 34 k)"] len by simp
    moreover have "k = take 34 k @ take 8 (drop 34 k) @ drop 8 (drop 34 k)" by (simp only: append_take_drop_id)
    ultimately have "k = address_bytes a @ be64 (read_u64 (take 8 (drop 34 k))) @ drop 8 (drop 34 k)" by simp
    then show ?scan using r(2,3) by blast
  qed
  then show ?thesis using True assms in_time_scan [of s "address_bytes a" k v "from"] by simp
qed (simp add: time_scan_def in_range)

end

end
