(* ===== verification/Chain_Facts.thy ===== *)
theory Chain_Facts
  imports Index_Facts
begin

text \<open>
  The accepting cursor only moves to more blue work; a block that leaves the virtual chain stays the
  accepting block of its transactions.
\<close>

section \<open>The cursor\<close>

lemma from_be_work [simp]: "word_of_nat (from_be (work_be w)) = w"
proof -
  have "unat w < 256 ^ 24" using unsigned_less [of w, where ?'a = nat] by simp
  then show ?thesis by (simp add: work_be_def from_be_to_be del: to_le.simps)
qed

lemma work_be_less [simp]: "work_be w < work_be v \<longleftrightarrow> w < v"
proof -
  have "unat w < 256 ^ 24" for w :: blue_work using unsigned_less [of w, where ?'a = nat] by simp
  then show ?thesis by (simp add: work_be_def to_be_less word_less_nat_alt del: to_le.simps)
qed

lemma work_be_read: "length b = 24 \<Longrightarrow> work_be (word_of_nat (from_be b)) = b"
proof -
  assume len: "length b = 24"
  then have "from_be b < 256 ^ 24" using from_le_bound [of "rev b"] by (simp add: from_be_def)
  then have "unat (word_of_nat (from_be b) :: blue_work) = from_be b" by (simp add: unat_of_nat)
  then show ?thesis using to_le_from_le [of "rev b"] len
    by (simp add: work_be_def to_be_def from_be_def del: to_le.simps)
qed

lemma length_work_be [simp]: "length (work_be w) = 24"
  by (simp add: work_be_def)

lemma dc_roundtrip:
  "length (dc_blue_work c) = 24 \<Longrightarrow> length (dc_block_hash c) = 32 \<Longrightarrow> dc_read (dc_bytes c) = Some c"
proof -
  assume "length (dc_blue_work c) = 24" "length (dc_block_hash c) = 32"
  moreover have "unat (dc_daa c) < 256 ^ 8" using unsigned_less [of "dc_daa c", where ?'a = nat] by simp
  ultimately show ?thesis
    by (simp add: dc_read_def dc_bytes_def read_fields_def le64_def from_le_to_le del: to_le.simps)
qed

text \<open>The cursor a reader sees, and the one of two with more blue work.\<close>

definition accepting_cursor :: "'s kv \<Rightarrow> 's keyspace \<Rightarrow> cursor option" where
  "accepting_cursor kv d =
     (case get_latest_accepting_cursor kv d of Ok (Some c) \<Rightarrow> Some (cursor_of_db c) | _ \<Rightarrow> None)"

definition newer :: "cursor option \<Rightarrow> cursor \<Rightarrow> cursor" where
  "newer old c = (case old of Some old \<Rightarrow> if cu_blue_work old < cu_blue_work c then c else old | None \<Rightarrow> c)"

context indexer begin

text \<open>What a reader of the cursor sees after it is set: the one with more blue work.\<close>

lemma cursor_set:
  assumes "set_latest_accepting_cursor (en_kv en) (cursor_to_db c) d = Ok d'" and "length (cu_block_hash c) = 32"
  shows "accepting_cursor (en_kv en) d' = Some (newer (accepting_cursor (en_kv en) d) c)"
proof -
  let ?f = "\<lambda>old_value. case old_value of
               None \<Rightarrow> Some (dc_bytes (cursor_to_db c))
             | Some old \<Rightarrow>
                 (case dc_read old of
                    Some r \<Rightarrow> if dc_blue_work (cursor_to_db c) > dc_blue_work r then Some (dc_bytes (cursor_to_db c)) else Some old
                  | None \<Rightarrow> Some old)"
  note fu = fetch_update [of latest_accepting_key ?f "d Metadata_Store"]
  have d': "kv_get (en_kv en) (d' Metadata_Store) latest_accepting_key = ?f (kv_get (en_kv en) (d Metadata_Store) latest_accepting_key)"
    and readable: "\<forall>old. kv_get (en_kv en) (d Metadata_Store) latest_accepting_key = Some old \<longrightarrow> dc_read old \<noteq> None"
    using assms(1) fu by (auto simp: set_latest_accepting_cursor_def Let_def case_prod_unfold split: if_splits)
  have new: "dc_read (dc_bytes (cursor_to_db c)) = Some (cursor_to_db c)" "cursor_of_db (cursor_to_db c) = c"
    using assms(2) by (simp_all add: dc_roundtrip cursor_to_db_def cursor_of_db_def)
  show ?thesis
  proof (cases "kv_get (en_kv en) (d Metadata_Store) latest_accepting_key")
    case None
    then show ?thesis using d' new by (simp add: accepting_cursor_def newer_def get_latest_accepting_cursor_def)
  next
    case (Some old)
    then obtain r where r: "dc_read old = Some r" using readable by auto
    have "length (dc_blue_work r) = 24" using r by (auto simp: dc_read_def read_fields_def split: if_splits)
    then have "dc_blue_work r < work_be (cu_blue_work c) \<longleftrightarrow> cu_blue_work (cursor_of_db r) < cu_blue_work c"
      using work_be_less [of "cu_blue_work (cursor_of_db r)" "cu_blue_work c"] by (simp add: cursor_of_db_def work_be_read)
    then show ?thesis using d' Some r new by (auto simp: accepting_cursor_def newer_def get_latest_accepting_cursor_def cursor_to_db_def)
  qed
qed

text \<open>What a chain change does to the database before it sets the cursor leaves the metadata alone.\<close>

lemma update_keeps: "acceptance_update (en_kv en) k h daa d = Ok (out, d') \<Longrightarrow> q \<noteq> Tx_Id_To_Acceptance \<Longrightarrow> d' q = d q"
  by (auto simp: acceptance_update_def rbind_eq_Ok)

lemma removal_keeps:
  assumes "handle_vcc_removal ve blocks c h d = Ok d'" and "ve_env ve = en"
  shows "d' Metadata_Store = d Metadata_Store"
proof -
  obtain ids d1 where rm: "accepting_remove (en_kv en) h d = (ids, d1)" by (metis surj_pair)
  then have d1: "d1 Metadata_Store = d Metadata_Store" by (auto simp: accepting_remove_def case_prod_unfold Let_def)
  show ?thesis
  proof (cases ids)
    case None
    then show ?thesis using assms d1 by (simp add: handle_vcc_removal_def rm)
  next
    case (Some txs)
    then obtain daa where "rfold (\<lambda>tx_id d.
                rbind (acceptance_key_of (en_kv en) c tx_id) (\<lambda>found.
                rbind (unwrap found) (\<lambda>key.
                rbind (acceptance_update (en_kv en) key h (daa) d) (\<lambda>(lookup_results, d).
                  Ok (if lookup_results = KeysExistsWithEntries
                      then pending_remove (en_kv en) \<lparr>pk_daa = daa, pk_tx_id = tx_id\<rparr> d else d)))))
              txs d1 = Ok d'"
      using assms by (auto simp: handle_vcc_removal_def rm rbind_eq_Ok)
    then have "d' Metadata_Store = d1 Metadata_Store"
      by (rule rfold_invariant) (auto simp: rbind_eq_Ok index_defs update_keeps)
    with d1 show ?thesis by simp
  qed
qed

lemma addition_keeps:
  assumes "handle_vcc_addition ve blocks c b (d, outs) = Ok (d', outs')" and "ve_env ve = en"
  shows "d' Metadata_Store = d Metadata_Store"
proof -
  obtain h txs where b: "b = (h, txs)" by (cases b)
  obtain w r where tr: "rfold (track_acceptance ve c h (fst w)) txs ([], d, outs) = Ok r"
    and d': "d' = accepting_insert (en_kv en) h (fst r) (fst (snd r))"
    using assms by (auto simp: b handle_vcc_addition_def rbind_eq_Ok case_prod_unfold)
  have "fst (snd r) Metadata_Store = d Metadata_Store"
    by (rule rfold_invariant [OF tr])
      (auto simp: assms(2) track_acceptance_def rbind_eq_Ok index_defs update_keeps split: option.splits lookup_output.splits,
        metis lookup_output.exhaust)
  then show ?thesis by (simp add: d' index_defs)
qed

lemma cursor_after_change:
  assumes "handle_vcc ve vcc st = Ok (l, st')" and "ve_env ve = en" and "vcc_ok vcc"
  shows "\<exists>daa. rg_get (ve_ring ve) (vp_processed_blocks st) (last (vc_added vcc)) = Some (daa, snd l) \<and>
    fst l = last (vc_added vcc) \<and>
    accepting_cursor (en_kv en) (vp_db st') = Some (newer (accepting_cursor (en_kv en) (vp_db st))
      \<lparr>cu_blue_work = snd l, cu_block_hash = fst l, cu_daa_score = daa\<rparr>)"
proof -
  let ?B = "vp_processed_blocks st" and ?c = "vp_db st"
  obtain d1 r w where r1: "rfold (handle_vcc_removal ve ?B ?c) (vc_removed vcc) ?c = Ok d1"
    and r2: "rfold (handle_vcc_addition ve ?B ?c) (vc_accepted vcc) (d1, vp_outs st) = Ok r"
    and ne: "vc_added vcc \<noteq> []" and w: "rg_get (ve_ring ve) ?B (last (vc_added vcc)) = Some w"
    and l: "l = (last (vc_added vcc), snd w)"
    and cur: "set_latest_accepting_cursor (en_kv en) (cursor_to_db \<lparr>cu_blue_work = snd w, cu_block_hash = last (vc_added vcc),
        cu_daa_score = fst w\<rparr>) (fst r) = Ok (vp_db st')"
    using assms(1,2) by (auto simp: handle_vcc_def Let_def rbind_eq_Ok case_prod_unfold split: if_splits)
  have "d1 Metadata_Store = ?c Metadata_Store"
    by (rule rfold_invariant [OF r1]) (use assms(2) removal_keeps [of ve ?B ?c] in \<open>simp, metis\<close>)
  moreover have "fst r Metadata_Store = d1 Metadata_Store"
    by (rule rfold_invariant [OF r2]) (use assms(2) addition_keeps [of ve ?B ?c] in \<open>simp, metis surj_pair fst_conv\<close>)
  ultimately have "accepting_cursor (en_kv en) (fst r) = accepting_cursor (en_kv en) ?c"
    by (simp add: accepting_cursor_def get_latest_accepting_cursor_def)
  moreover have "length (last (vc_added vcc)) = 32" using assms(3) ne by (auto simp: vcc_ok_def list_all_iff)
  ultimately show ?thesis using cursor_set [OF cur] w unfolding l by (intro exI [of _ "fst w"]) simp
qed

end

section \<open>Blocks that leave the chain\<close>

context indexer begin

lemma removed_accepts:
  assumes "ve_env ve = en" and "obs (en_kv en) d Accepting_Block_To_Tx_Id h = Some t" and "length t = 32"
    and "rg_get (ve_ring ve) blocks h = Some (daa, w)" and "length h = 32" and "h \<noteq> replicate 32 0"
    and "typed (en_kv en) d" and "one_record (en_kv en) d"
    and "obs (en_kv en) d Tx_Id_To_Acceptance k = Some v" and "starts_with t k"
  shows "\<exists>d' v'. handle_vcc_removal ve blocks d h d = Ok d' \<and> acceptance_by_tx_id (en_kv en) (d' Tx_Id_To_Acceptance) t = Ok (Some v') \<and>
    take 32 v' = h"
proof -
  obtain ids d1 where rm: "accepting_remove (en_kv en) h d = (ids, d1)" by (metis surj_pair)
  have ids: "ids = Some [t]" and d1: "obs (en_kv en) d1 = (obs (en_kv en) d)(Accepting_Block_To_Tx_Id := (obs (en_kv en) d Accepting_Block_To_Tx_Id)(h := None))"
    using accepting_remove_obs [of h d] assms(2,3) tx_ids_of_concat [of "[t]"] by (simp_all add: rm)
  have key: "acceptance_key_of (en_kv en) d t = Ok (Some key) \<Longrightarrow> ak_bytes key = k" for key
    using key_by_tx_id_ok [of "d Tx_Id_To_Acceptance" t key] assms(3,8,9,10)
    by (auto simp: acceptance_key_of_def one_record_def obs_def starts_with_def)
  obtain key where found: "acceptance_key_of (en_kv en) d t = Ok (Some key)"
  proof -
    obtain found where f: "acceptance_key_of (en_kv en) d t = Ok found" using key_total assms(3,7,8) by blast
    have "found \<noteq> None"
    proof
      assume "found = None"
      then have "kv_prefix (en_kv en) t (d Tx_Id_To_Acceptance) = []"
        using f by (auto simp: acceptance_key_of_def key_by_tx_id_def rbind_eq_Ok split: list.splits)
      then show False using assms(9,10) by (auto simp: prefix_Nil obs_def)
    qed
    with f that show thesis by auto
  qed
  have k: "ak_bytes key = k" by (rule key [OF found])
  have "record_ok v" using typedD [OF assms(7,9)] by simp
  then have len: "header_len \<le> length v" by (auto simp: record_ok_def)
  obtain out d2 where up: "acceptance_update (en_kv en) key h daa d1 = Ok (out, d2)"
    using acceptance_update_total [of d1 key v h daa] len assms(9) by (auto simp: d1 k)
  note up_obs = acceptance_update_obs(1) [OF up]
  let ?v = "header_bytes h daa @ drop header_len v"
  let ?d = "if out = KeysExistsWithEntries then pending_remove (en_kv en) \<lparr>pk_daa = daa, pk_tx_id = t\<rparr> d2 else d2"
  have run: "handle_vcc_removal ve blocks d h d = Ok ?d"
    by (simp add: handle_vcc_removal_def assms(1,4) rm ids found up)
  have rec: "obs (en_kv en) ?d Tx_Id_To_Acceptance = (obs (en_kv en) d Tx_Id_To_Acceptance)(k \<mapsto> ?v)"
    using assms(9) by (simp add: up_obs d1 k index_defs)
  have "kv_prefix (en_kv en) t (?d Tx_Id_To_Acceptance) = [(k, ?v)]"
  proof -
    have "kv_get (en_kv en) (?d Tx_Id_To_Acceptance) q \<noteq> None \<longleftrightarrow> q = k" if "starts_with t q" for q
      using that assms(3,8,9,10) rec by (auto simp: one_record_def obs_def starts_with_def fun_eq_iff)
    from prefix_single [of t "?d Tx_Id_To_Acceptance" k, OF this assms(10)]
    show ?thesis using rec by (auto simp: obs_def fun_eq_iff)
  qed
  moreover have "take header_len ?v = header_bytes h daa" "header_bytes h daa \<noteq> zero_header" "take 32 ?v = h"
    using assms(5,6) by (simp_all add: header_bytes_def zero_header_def header_len_def le64_def append_eq_conv_conj)
  ultimately show ?thesis using run assms(5) by (auto simp: acceptance_by_tx_id_def)
qed

end

end
