(* ===== verification/Loop_Facts.thy ===== *)
theory Loop_Facts
  imports Chain_Facts
begin

text \<open>
  What the block processor's loop guarantees of gaps: a filler that makes progress reaches its
  target, and a gap goes from the database only when the filler has delivered it. And the migration
  of an old DAA index.
\<close>

section \<open>The gap filler\<close>

lemma filler_reaches:
  assumes "\<And>h. \<exists>blocks. request_blocks h = Blocks blocks \<and> blocks \<noteq> [] \<and>
      ((\<exists>b \<in> set blocks. block_hash b = tgt) \<or> dist (block_hash (last blocks)) < dist h)"
    and "dist from < n"
  shows "\<exists>updates blocks. filler_sync (replicate n Empty) request_blocks \<lparr>gf_from = from, gf_target = tgt\<rparr> =
      Ok (updates @ [GapFinished tgt blocks], None) \<and>
    (\<exists>b \<in> set blocks. block_hash b = tgt) \<and> (\<forall>u \<in> set updates. \<exists>bs. u = GapUpdate tgt bs \<and> bs \<noteq> [])"
  using assms(2)
proof (induction n arbitrary: "from")
  case (Suc n)
  obtain blocks where r: "request_blocks from = Blocks blocks" "blocks \<noteq> []"
    "(\<exists>b \<in> set blocks. block_hash b = tgt) \<or> dist (block_hash (last blocks)) < dist from"
    using assms(1) by blast
  show ?case
  proof (cases "\<exists>b \<in> set blocks. block_hash b = tgt")
    case True
    then show ?thesis by (intro exI [of _ "[]"] exI [of _ blocks]) (simp add: filler_round_def r(1))
  next
    case False
    then have "dist (block_hash (last blocks)) < n" using r(3) Suc.prems by simp
    from Suc.IH [OF this] obtain updates last_blocks where
      "filler_sync (replicate n Empty) request_blocks \<lparr>gf_from = block_hash (last blocks), gf_target = tgt\<rparr> =
        Ok (updates @ [GapFinished tgt last_blocks], None)"
      "\<exists>b \<in> set last_blocks. block_hash b = tgt" "\<forall>u \<in> set updates. \<exists>bs. u = GapUpdate tgt bs \<and> bs \<noteq> []"
      by blast
    then show ?thesis using False r(1,2)
      by (intro exI [of _ "GapUpdate tgt blocks # updates"] exI [of _ last_blocks]) (simp add: filler_round_def)
  qed
qed simp

section \<open>Gaps\<close>

context indexer begin

lemma watched_fold:
  "q \<notin> {Watched_Outpoints, Watched_Outpoint_Spends} \<Longrightarrow>
   fold (\<lambda>spend d. spend_remove (en_kv en) spend (watched_remove (en_kv en) (zk_outpoint spend) d)) ks d q = d q"
  by (induction ks arbitrary: d) (simp_all add: index_defs)

lemma prune_keeps:
  "prune_watched_spends en c b = Ok b' \<Longrightarrow> q \<notin> {Watched_Outpoints, Watched_Outpoint_Spends} \<Longrightarrow> bp_db b' q = bp_db b q"
  by (auto simp: prune_watched_spends_def Let_def rbind_eq_Ok watched_fold split: if_splits)

text \<open>A block leaves the gaps alone, keeps the headers there were, and leaves its own.\<close>

lemma block_leaves:
  assumes "handle_block en c blk b = Ok b'"
  shows "obs (en_kv en) (bp_db b') Block_Gaps = obs (en_kv en) (bp_db b) Block_Gaps"
    and "\<exists>v. obs (en_kv en) (bp_db b') Block_Compact_Header = (obs (en_kv en) (bp_db b) Block_Compact_Header)(block_hash blk \<mapsto> v)"
proof -
  let ?h = "rb_header blk"
  let ?d = "snd (insert_compact_header (en_kv en) (bh_hash ?h) (work_le (bh_blue_work ?h)) (bh_daa_score ?h) (bp_db b))"
  note header = compact_header_obs(2) [of "bh_hash ?h" "work_le (bh_blue_work ?h)" "bh_daa_score ?h" "bp_db b"]
  have keep: "bp_db b' q = ?d q" if "q \<in> {Block_Gaps, Block_Compact_Header}" for q
  proof (cases "fst (insert_compact_header (en_kv en) (bh_hash ?h) (work_le (bh_blue_work ?h)) (bh_daa_score ?h) (bp_db b))")
    case True
    then show ?thesis using assms by (auto simp: handle_block_def Let_def case_prod_unfold)
  next
    case False
    then obtain b1 where prune: "prune_watched_spends en c (b\<lparr>bp_db := daa_index_insert (en_kv en) (bh_daa_score ?h) (bh_hash ?h)
        (work_be (bh_blue_work ?h)) ?d\<rparr>) = Ok b1"
      and txs: "rfold (handle_transaction en c ?h) (rb_transactions blk) b1 = Ok b'"
      using assms by (auto simp: handle_block_def Let_def case_prod_unfold rbind_eq_Ok)
    have "bp_db b' q = bp_db b1 q"
      by (rule rfold_invariant [OF txs]) (use that in \<open>auto simp: transaction_keeps chain_partitions_def\<close>)
    also have "\<dots> = ?d q" using prune_keeps [OF prune, of q] that by (auto simp: daa_index_insert_def)
    finally show ?thesis .
  qed
  show "obs (en_kv en) (bp_db b') Block_Gaps = obs (en_kv en) (bp_db b) Block_Gaps"
    using keep [of Block_Gaps] header by (simp add: obs_def fun_eq_iff)
  have "obs (en_kv en) (bp_db b') Block_Compact_Header = obs (en_kv en) ?d Block_Compact_Header"
    using keep [of Block_Compact_Header] by (simp add: obs_def fun_eq_iff)
  then show "\<exists>v. obs (en_kv en) (bp_db b') Block_Compact_Header = (obs (en_kv en) (bp_db b) Block_Compact_Header)(block_hash blk \<mapsto> v)"
    using header by auto
qed

abbreviation loop_obs :: "'s block_loop \<Rightarrow> partition \<Rightarrow> bytes \<Rightarrow> bytes option" where
  "loop_obs st \<equiv> obs (en_kv en) (bp_db (bl_bp st))"

text \<open>The headers of one state are among those of another, and the gaps.\<close>

lemma commit_leaves:
  assumes "commit_block en f block st = Ok st'"
    and "\<And>d. obs (en_kv en) (f d) Block_Compact_Header = obs (en_kv en) d Block_Compact_Header"
  shows "loop_obs st' Block_Compact_Header (block_hash block) \<noteq> None"
    and "loop_obs st Block_Compact_Header h \<noteq> None \<Longrightarrow> loop_obs st' Block_Compact_Header h \<noteq> None"
    and "\<exists>d. obs (en_kv en) d Block_Gaps = loop_obs st Block_Gaps \<and> loop_obs st' Block_Gaps = obs (en_kv en) (f d) Block_Gaps"
proof -
  obtain b where b: "handle_block en (bp_db (bl_bp st)) block (bl_bp st) = Ok b"
    and st': "bp_db (bl_bp st') = f (bp_db b)"
    using assms(1) by (auto simp: commit_block_def rbind_eq_Ok Let_def on_index_def on_bp_def say_def split: if_splits)
  show "loop_obs st' Block_Compact_Header (block_hash block) \<noteq> None"
    "loop_obs st Block_Compact_Header h \<noteq> None \<Longrightarrow> loop_obs st' Block_Compact_Header h \<noteq> None"
    using block_leaves(2) [OF b] by (auto simp: st' assms(2) split: if_splits)
  show "\<exists>d. obs (en_kv en) d Block_Gaps = loop_obs st Block_Gaps \<and> loop_obs st' Block_Gaps = obs (en_kv en) (f d) Block_Gaps"
    using block_leaves(1) [OF b] st' by auto
qed

lemma gap_rows [simp]:
  "obs (en_kv en) (add_gap (en_kv en) g d) Block_Compact_Header = obs (en_kv en) d Block_Compact_Header"
  "obs (en_kv en) (remove_gap (en_kv en) t d) Block_Compact_Header = obs (en_kv en) d Block_Compact_Header"
  "obs (en_kv en) (set_latest_block_cursor (en_kv en) h d) Block_Compact_Header = obs (en_kv en) d Block_Compact_Header"
  "obs (en_kv en) (set_latest_block_cursor (en_kv en) h d) Block_Gaps = obs (en_kv en) d Block_Gaps"
  "obs (en_kv en) (add_gap (en_kv en) g d) Block_Gaps = (obs (en_kv en) d Block_Gaps)(bg_to g \<mapsto> bg_from g)"
  "obs (en_kv en) (remove_gap (en_kv en) t d) Block_Gaps = (obs (en_kv en) d Block_Gaps)(t := None)"
  by (simp_all add: index_defs)

lemma updates_leave:
  assumes "rfold (update_gap en to) blocks st = Ok st'"
  shows "(\<forall>b \<in> set blocks. loop_obs st' Block_Compact_Header (block_hash b) \<noteq> None) \<and>
    (\<forall>h. loop_obs st Block_Compact_Header h \<noteq> None \<longrightarrow> loop_obs st' Block_Compact_Header h \<noteq> None) \<and>
    (\<forall>t. loop_obs st Block_Gaps t \<noteq> None \<longrightarrow> loop_obs st' Block_Gaps t \<noteq> None)"
  using assms
proof (induction blocks arbitrary: st)
  case (Cons b blocks)
  then obtain st1 where s: "update_gap en to b st = Ok st1" "rfold (update_gap en to) blocks st1 = Ok st'"
    by (auto simp: rbind_eq_Ok)
  note one = commit_leaves [OF s(1) [unfolded update_gap_def] gap_rows(1)]
  have "loop_obs st Block_Gaps t \<noteq> None \<longrightarrow> loop_obs st1 Block_Gaps t \<noteq> None" for t using one(3) by auto
  then show ?case using Cons.IH [OF s(2)] one(1,2) by auto
qed simp

lemma bl_bp_say [simp]: "bl_bp (say out st) = bl_bp st"
  by (simp add: say_def)

lemma bl_bp_fillers [simp]:
  "bl_bp (drop_filler to st) = bl_bp st" "bl_bp (spawn_filler f to st) = bl_bp st" "bl_bp (filler_ended to st) = bl_bp st"
  by (simp_all add: drop_filler_def spawn_filler_def filler_ended_def Let_def split: option.splits)

lemma bl_bp_interrupts: "bl_bp (fold (\<lambda>(_, i). say (SendInterrupt i)) fs st) = bl_bp st"
  by (induction fs arbitrary: st) auto

lemma bl_bp_interrupt_all [simp]: "bl_bp (interrupt_all st) = bl_bp st"
  by (simp add: interrupt_all_def bl_bp_interrupts)

lemma spawn_all [simp]: "bl_bp (fold (\<lambda>gap. spawn_filler (bg_from gap) (bg_to gap)) gaps st) = bl_bp st"
  by (induction gaps arbitrary: st) simp_all

lemma gap_closed:
  assumes "loop_step en input st = Ok st'"
    and "loop_obs st Block_Gaps to \<noteq> None" and "loop_obs st' Block_Gaps to = None"
  shows "\<exists>blocks. input = GapFilling (GapFinished to blocks) \<and> blocks \<noteq> [] \<and>
    (\<forall>b \<in> set blocks. loop_obs st' Block_Compact_Header (block_hash b) \<noteq> None)"
proof (cases input)
  case (BlockConnected sink pp)
  then show ?thesis using assms
    by (auto simp: loop_step_def loop_connected_def handle_first_connect_def rbind_eq_Ok Let_def on_index_def on_bp_def
        split: if_splits option.splits)
next
  case (BlockNotification block)
  then obtain st1 where "commit_block en (set_latest_block_cursor (en_kv en) (block_hash block)) block st = Ok st1"
    "st' = st1\<lparr>bl_last_processed := Some (block_hash block)\<rparr>"
    using assms(1) by (auto simp: loop_step_def loop_block_def rbind_eq_Ok)
  then show ?thesis using assms(2,3) commit_leaves(3) [of "set_latest_block_cursor (en_kv en) (block_hash block)" block st st1]
    by auto
next
  case (GapFilling progress)
  show ?thesis
  proof (cases progress)
    case (GapUpdate t blocks)
    then show ?thesis using assms updates_leave by (auto simp: GapFilling loop_step_def loop_progress_def)
  next
    case (GapFinished t blocks)
    then obtain st1 st2 where s1: "rfold (update_gap en t) (butlast blocks) st = Ok st1"
      and s2: "(if blocks = [] then Ok st1 else finish_gap en t (last blocks) st1) = Ok st2" and st': "st' = filler_ended t st2"
      using assms(1) by (auto simp: GapFilling loop_step_def loop_progress_def rbind_eq_Ok)
    note before = updates_leave [OF s1]
    have ne: "blocks \<noteq> []" using assms(2,3) s1 s2 st' by auto
    with s2 have "finish_gap en t (last blocks) st1 = Ok st2" by simp
    note last = commit_leaves [OF this [unfolded finish_gap_def] gap_rows(2)]
    have "t = to" using assms(2,3) before last(3) st' by (auto split: if_splits)
    moreover have "loop_obs st' Block_Compact_Header (block_hash b) \<noteq> None" if "b \<in> set blocks" for b
    proof -
      have "b \<in> set (butlast blocks) \<or> b = last blocks"
        using that ne by (metis append_butlast_last_id in_set_conv_decomp rotate1.simps(2) set_ConsD set_rotate1)
      then show ?thesis using before last(1,2) st' by auto
    qed
    ultimately show ?thesis using GapFilling GapFinished ne by blast
  next
    case (GapInterrupted t)
    then show ?thesis using assms by (auto simp: GapFilling loop_step_def loop_progress_def)
  next
    case (GapError t)
    then show ?thesis using assms by (auto simp: GapFilling loop_step_def loop_progress_def)
  qed
qed (use assms in \<open>auto simp: loop_step_def\<close>)

end

section \<open>The migration\<close>

text \<open>An old key, and the one it becomes when the header of its block is known.\<close>

definition old_key :: "u64 \<times> bytes \<Rightarrow> bytes" where
  "old_key = (\<lambda>(t, h). daa_key_v0_bytes t h)"

definition new_key :: "bytes \<Rightarrow> u64 \<times> bytes \<Rightarrow> bytes" where
  "new_key header = (\<lambda>(t, h). daa_key_bytes t h (rev (take 24 header)))"

definition migrated :: "'s kv \<Rightarrow> 's keyspace \<Rightarrow> (u64 \<times> bytes) set \<Rightarrow> bytes \<Rightarrow> bool" where
  "migrated kv d olds k \<longleftrightarrow> (\<exists>e \<in> olds. \<exists>v. obs kv d Block_Compact_Header (snd e) = Some v \<and> k = new_key v e)"

lemma key_lengths_v0:
  "length h = 32 \<Longrightarrow> length (old_key (t, h)) = 40" "length h = 32 \<Longrightarrow> length v = 32 \<Longrightarrow> length (new_key v (t, h)) = 64"
  by (simp_all add: old_key_def new_key_def daa_key_v0_bytes_def daa_key_bytes_def)

lemma read_v0:
  assumes "length k = 40"
  shows "\<exists>t h. read_daa_key_v0 k = Some (t, h) \<and> old_key (t, h) = k \<and> length h = 32"
proof -
  have "be64 (read_u64 (take 8 k)) = take 8 k" by (rule be64_read_u64) (simp add: assms)
  then have "old_key (read_u64 (take 8 k), drop 8 k) = k" by (simp add: old_key_def daa_key_v0_bytes_def)
  moreover have "read_daa_key_v0 k = Some (read_u64 (take 8 k), drop 8 k)"
    using assms by (simp add: read_daa_key_v0_def read_fields_def)
  ultimately show ?thesis using assms by simp
qed

context engine begin

lemma migrate_one:
  assumes "length h = 32" and "\<And>h v. obs kv d Block_Compact_Header h = Some v \<Longrightarrow> length v = 32"
  shows "\<exists>d'. migrate_key kv (t, h) d = Ok d' \<and> (\<forall>p. p \<noteq> Daa_Index_Compact_Header \<longrightarrow> obs kv d' p = obs kv d p) \<and>
    (\<forall>k. obs kv d' Daa_Index_Compact_Header k \<noteq> None \<longleftrightarrow> migrated kv d {(t, h)} k \<or>
      obs kv d Daa_Index_Compact_Header k \<noteq> None \<and> k \<noteq> old_key (t, h))"
proof -
  let ?d = "del kv Daa_Index_Compact_Header (daa_key_v0_bytes t h) d"
  have "kv_get kv (?d Block_Compact_Header) h = obs kv d Block_Compact_Header h" by (simp add: obs_def)
  then show ?thesis
  proof (cases "obs kv d Block_Compact_Header h")
    case None
    then have "migrate_key kv (t, h) d = Ok ?d"
      using \<open>kv_get kv (?d Block_Compact_Header) h = _\<close> by (simp add: migrate_key_def get_compact_header_def Let_def)
    then show ?thesis using None by (simp add: migrated_def old_key_def)
  next
    case (Some v)
    have v: "length v = 32" by (rule assms(2) [OF Some])
    then have w: "convert_bluework_endianness (take 24 v) = rev (take 24 v)" by (intro convert_is_reverse) simp
    have "migrate_key kv (t, h) d = Ok (daa_index_insert kv t h (rev (take 24 v)) ?d)"
      using \<open>kv_get kv (?d Block_Compact_Header) h = _\<close> Some v
      by (simp add: migrate_key_def get_compact_header_def Let_def read_fields_def w)
    moreover have "length (new_key v (t, h)) \<noteq> length (old_key (t, h))"
      using key_lengths_v0 [OF assms(1)] v by simp
    then have "new_key v (t, h) \<noteq> old_key (t, h)" by metis
    ultimately show ?thesis using Some
      by (auto simp: migrated_def index_defs old_key_def new_key_def)
  qed
qed

lemma migrate_fold:
  assumes "\<forall>e \<in> set ks. length (snd e) = 32" and "\<And>h v. obs kv d Block_Compact_Header h = Some v \<Longrightarrow> length v = 32"
  shows "\<exists>d'. rfold (migrate_key kv) ks d = Ok d' \<and> (\<forall>p. p \<noteq> Daa_Index_Compact_Header \<longrightarrow> obs kv d' p = obs kv d p) \<and>
    (\<forall>k. obs kv d' Daa_Index_Compact_Header k \<noteq> None \<longleftrightarrow> migrated kv d (set ks) k \<or>
      obs kv d Daa_Index_Compact_Header k \<noteq> None \<and> k \<notin> old_key ` set ks)"
  using assms
proof (induction ks arbitrary: d)
  case (Cons e ks)
  obtain t h where e: "e = (t, h)" by (cases e)
  have h: "length h = 32" using Cons.prems(1) by (simp add: e)
  obtain d1 where d1: "migrate_key kv (t, h) d = Ok d1" "\<forall>p. p \<noteq> Daa_Index_Compact_Header \<longrightarrow> obs kv d1 p = obs kv d p"
    "\<forall>k. obs kv d1 Daa_Index_Compact_Header k \<noteq> None \<longleftrightarrow> migrated kv d {(t, h)} k \<or>
      obs kv d Daa_Index_Compact_Header k \<noteq> None \<and> k \<noteq> old_key (t, h)"
    using migrate_one [OF h, of d t] Cons.prems(2) by blast
  have headers: "obs kv d1 Block_Compact_Header = obs kv d Block_Compact_Header" using d1(2) by simp
  have same: "migrated kv d1 = migrated kv d" by (simp add: migrated_def headers fun_eq_iff)
  obtain d' where d': "rfold (migrate_key kv) ks d1 = Ok d'" "\<forall>p. p \<noteq> Daa_Index_Compact_Header \<longrightarrow> obs kv d' p = obs kv d1 p"
    "\<forall>k. obs kv d' Daa_Index_Compact_Header k \<noteq> None \<longleftrightarrow> migrated kv d (set ks) k \<or>
      obs kv d1 Daa_Index_Compact_Header k \<noteq> None \<and> k \<notin> old_key ` set ks"
    using Cons.IH [of d1] Cons.prems by (auto simp: headers same)
  have fresh: "k \<notin> old_key ` set ks" if "migrated kv d {(t, h)} k" for k
  proof
    assume "k \<in> old_key ` set ks"
    then have "length k = 40" using Cons.prems(1) key_lengths_v0(1) by fastforce
    moreover have "length k = 64" using that Cons.prems(2) key_lengths_v0(2) [OF h] by (auto simp: migrated_def)
    ultimately show False by simp
  qed
  have split: "migrated kv d (insert (t, h) (set ks)) k \<longleftrightarrow> migrated kv d {(t, h)} k \<or> migrated kv d (set ks) k" for k
    by (simp add: migrated_def)
  have "obs kv d' Daa_Index_Compact_Header k \<noteq> None \<longleftrightarrow> migrated kv d (insert (t, h) (set ks)) k \<or>
      obs kv d Daa_Index_Compact_Header k \<noteq> None \<and> k \<notin> insert (old_key (t, h)) (old_key ` set ks)" for k
    using d'(3) [rule_format, of k] d1(3) [rule_format, of k] fresh [of k] unfolding split by blast
  then show ?case using d1(1,2) d'(1,2) by (auto simp: e)
qed (simp add: migrated_def)

lemma migration_rows:
  assumes "db_version kv d = Ok 0" and olds: "\<And>k. obs kv d Daa_Index_Compact_Header k \<noteq> None \<Longrightarrow> length k = 40"
    and "\<And>h v. obs kv d Block_Compact_Header h = Some v \<Longrightarrow> length v = 32"
  shows "\<exists>d'. apply_migrations kv d = Ok d' \<and> db_version kv d' = Ok 1 \<and>
    (\<forall>k. obs kv d' Daa_Index_Compact_Header k \<noteq> None \<longleftrightarrow>
      (\<exists>t h v. obs kv d Daa_Index_Compact_Header (old_key (t, h)) \<noteq> None \<and> length h = 32 \<and>
        obs kv d Block_Compact_Header h = Some v \<and> k = new_key v (t, h))) \<and>
    (\<forall>p. p \<notin> {Daa_Index_Compact_Header, Metadata_Store} \<longrightarrow> obs kv d' p = obs kv d p)"
proof -
  let ?rows = "kv_iter kv (d Daa_Index_Compact_Header)"
  have rows: "(k, v) \<in> set ?rows \<longleftrightarrow> obs kv d Daa_Index_Compact_Header k = Some v" for k v by (simp add: in_iter obs_def)
  define ks where "ks = map (\<lambda>r. the (read_daa_key_v0 (fst r))) ?rows"
  have key: "read_daa_key_v0 (fst r) = Some (the (read_daa_key_v0 (fst r))) \<and>
      old_key (the (read_daa_key_v0 (fst r))) = fst r \<and> length (snd (the (read_daa_key_v0 (fst r)))) = 32" if "r \<in> set ?rows" for r
  proof -
    have "length (fst r) = 40" using that rows [of "fst r" "snd r"] olds by simp
    from read_v0 [OF this] show ?thesis by auto
  qed
  have "list_all2 (\<lambda>r y. or_err (read_daa_key_v0 (fst r)) = Ok y) ?rows ks"
    unfolding ks_def list_all2_map2
  proof (rule list.rel_refl_strong)
    show "or_err (read_daa_key_v0 (fst r)) = Ok (the (read_daa_key_v0 (fst r)))" if "r \<in> set ?rows" for r
      using key [OF that] by (cases "read_daa_key_v0 (fst r)") simp_all
  qed
  then have collect: "rfold (\<lambda>r ks. rbind (or_err (read_daa_key_v0 (fst r))) (\<lambda>key. Ok (ks @ [key]))) ?rows [] = Ok ks"
    by (subst rfold_collect) simp
  have ks: "\<forall>e \<in> set ks. length (snd e) = 32" using key by (auto simp: ks_def)
  have "old_key ` set ks = fst ` set ?rows" using key by (force simp: ks_def image_image intro!: image_cong)
  then have old: "k \<in> old_key ` set ks \<longleftrightarrow> obs kv d Daa_Index_Compact_Header k \<noteq> None" for k
    using rows by force
  obtain d' where ran: "rfold (migrate_key kv) ks d = Ok d'" "\<forall>p. p \<noteq> Daa_Index_Compact_Header \<longrightarrow> obs kv d' p = obs kv d p"
    and raw: "\<forall>k. obs kv d' Daa_Index_Compact_Header k \<noteq> None \<longleftrightarrow> migrated kv d (set ks) k \<or>
      obs kv d Daa_Index_Compact_Header k \<noteq> None \<and> k \<notin> old_key ` set ks"
    using migrate_fold [OF ks, of d] assms(3) by blast
  have "\<forall>k. obs kv d' Daa_Index_Compact_Header k \<noteq> None \<longleftrightarrow> migrated kv d (set ks) k" using raw old by blast
  note d' = ran this
  have mem: "(t, h) \<in> set ks \<longleftrightarrow> obs kv d Daa_Index_Compact_Header (old_key (t, h)) \<noteq> None \<and> length h = 32" for t h
  proof
    assume "(t, h) \<in> set ks"
    then show "obs kv d Daa_Index_Compact_Header (old_key (t, h)) \<noteq> None \<and> length h = 32" using ks old by force
  next
    assume a: "obs kv d Daa_Index_Compact_Header (old_key (t, h)) \<noteq> None \<and> length h = 32"
    then obtain e where e: "e \<in> set ks" "old_key e = old_key (t, h)" using old by (metis imageE)
    from e(2) have "e = (t, h)" by (cases e) (simp add: old_key_def daa_key_v0_bytes_def)
    with e(1) show "(t, h) \<in> set ks" by simp
  qed
  have "apply_migrations kv d = Ok (set_db_version kv 1 d')"
    using assms(1) collect d'(1) by (simp add: apply_migrations_def migrate_v0_v1_def current_version_def case_prod_unfold)
  moreover have "db_version kv (set_db_version kv 1 d') = Ok 1"
    by (simp add: db_version_def set_db_version_def put_def from_le_to_le del: to_le.simps)
  moreover have "\<forall>k. obs kv (set_db_version kv 1 d') Daa_Index_Compact_Header k \<noteq> None \<longleftrightarrow>
      (\<exists>t h v. obs kv d Daa_Index_Compact_Header (old_key (t, h)) \<noteq> None \<and> length h = 32 \<and>
        obs kv d Block_Compact_Header h = Some v \<and> k = new_key v (t, h))"
  proof -
    have "migrated kv d (set ks) k \<longleftrightarrow> (\<exists>t h v. obs kv d Daa_Index_Compact_Header (old_key (t, h)) \<noteq> None \<and> length h = 32 \<and>
        obs kv d Block_Compact_Header h = Some v \<and> k = new_key v (t, h))" for k
      unfolding migrated_def Bex_def split_paired_Ex mem by auto
    then show ?thesis using d'(3) by (simp add: set_db_version_def)
  qed
  moreover have "\<forall>p. p \<notin> {Daa_Index_Compact_Header, Metadata_Store} \<longrightarrow> obs kv (set_db_version kv 1 d') p = obs kv d p"
    using d'(2) by (simp add: set_db_version_def)
  ultimately show ?thesis by blast
qed

end

end
