(* ===== verification/Index_Properties.thy ===== *)
theory Index_Properties
  imports Loop_Facts
begin

text \<open>
  The properties of the chat indexer, each with a witness on the engine in memory.
\<close>

section \<open>The crates\<close>

text \<open>The crates an indexer calls behave as documented.\<close>

definition crates_ok :: "('s, 'a) env \<Rightarrow> bool" where
  "crates_ok en \<longleftrightarrow> kv_laws (en_kv en) \<and> kaspa_laws (en_kp en) \<and> hex_laws (en_hex_decode en)"

lemma crates_indexer: "crates_ok en \<longleftrightarrow> indexer en"
  by (auto simp: crates_ok_def indexer_def)

lemma sample_crates [simp]: "crates_ok sample_env"
  by (simp add: crates_ok_def mem_kv_laws sample_kaspa_laws sample_hex_laws)



section \<open>Every reachable index\<close>

text \<open>C13: Every index that blocks, gaps, cursors, chain changes, resolved senders and pruning can lead to
  from an empty one is well formed: in each partition keys and values have the lengths their readers
  cast them to, and every acceptance record is a header followed by entries whose partition, action
  and key length its reader accepts.\<close>

theorem index_typed:
  assumes "crates_ok (ve_env ve)" and "index_reachable ve d"
  shows "typed (ve_kv ve) d"
  using indexer.reachable_typed [of "ve_env ve" ve d] assms by (simp add: crates_indexer)

lemma sample_block_reached:
  "\<exists>b. handle_block sample_env empty_index sample_block empty_bp = Ok b \<and> index_reachable sample_ve (bp_db b)"
proof -
  have "block_complete sample_env sample_block"
    using sample_block_ok by (simp add: block_complete_def sample_block_def)
  then obtain b where b: "handle_block sample_env empty_index sample_block empty_bp = Ok b"
    using sample.block_total [of empty_bp sample_block] by (auto simp: typed_def one_record_def)
  moreover have "index_reachable sample_ve empty_index" by (rule index_reachable.empty) simp
  moreover have "index_step sample_ve (bp_db empty_bp) (bp_db b)"
    by (rule index_step.block) (use b sample_block_ok in simp_all)
  ultimately show ?thesis using index_reachable.step by fastforce
qed

theorem index_typed_witness:
  "\<exists>b. handle_block sample_env empty_index sample_block empty_bp = Ok b \<and> typed mem_kv (bp_db b)"
  using sample_block_reached index_typed [of sample_ve] by auto

text \<open>C8: A message stored under a blinded group id carries a sender only if the group id is bound to a
  public key and the sender's address is the address of that key, in every reachable index: nobody
  but the author a group id is bound to ever shows up as the sender of its messages.\<close>

theorem group_authors_bound:
  assumes "crates_ok (ve_env ve)" and "index_reachable ve d"
  shows "group_authors (ve_env ve) d"
  using indexer.reachable_authors [of "ve_env ve" ve d] assms by (simp add: crates_indexer)

theorem group_authors_bound_witness:
  "\<exists>b. handle_block sample_env empty_index sample_block empty_bp = Ok b \<and> group_authors sample_env (bp_db b)"
  using sample_block_reached group_authors_bound [of sample_ve] by auto

text \<open>C26: The first public key to speak under a blinded group id keeps it: whatever the indexer does
  afterwards, blocks, reorganisations, resolutions and pruning included, a binding is never removed
  and never replaced.\<close>

theorem binding_permanent:
  assumes "crates_ok (ve_env ve)" and "rtranclp (index_step ve) d d'"
    and "obs (ve_kv ve) d Group_Sender_Binding g = Some pk"
  shows "obs (ve_kv ve) d' Group_Sender_Binding g = Some pk"
  using assms(2,3)
proof (induction rule: rtranclp_induct)
  case (step d1 d2)
  then show ?case using indexer.step_keeps [of "ve_env ve" ve d1 d2] assms(1)
    by (simp add: crates_indexer bindings_kept_def)
qed

theorem binding_permanent_witness:
  "obs mem_kv (remove_gap mem_kv (sample_hash 9) (snd (check_or_bind mem_kv (sample_hash 5) (sample_hash 6) empty_index)))
     Group_Sender_Binding (sample_hash 5) = Some (sample_hash 6)"
proof -
  let ?d = "snd (check_or_bind mem_kv (sample_hash 5) (sample_hash 6) empty_index)"
  have "index_step sample_ve ?d (remove_gap (ve_kv sample_ve) (sample_hash 9) ?d)" by (rule index_step.gap_done)
  moreover have "obs mem_kv ?d Group_Sender_Binding (sample_hash 5) = Some (sample_hash 6)"
    by (simp add: sample.check_or_bind_obs [unfolded sample_env_simps])
  ultimately show ?thesis using binding_permanent [of sample_ve ?d _ "sample_hash 5" "sample_hash 6"] by auto
qed

section \<open>Blocks\<close>

text \<open>C12: The sender resolved for a transaction that spends output 0 of an indexed transaction is the owner
  of that output: the address its script pays, or nobody when the script has no address, whatever
  receiver the indexed transaction was stored under.\<close>

theorem sender_exact:
  assumes "crates_ok en" and "handle_transaction en c h tx b = Ok b'" and "rt_verbose_id tx = Some t" and "length t = 32"
    and "parse_sealed_operation (rt_payload tx) = Some op"
    and "\<forall>k. starts_with t k \<longrightarrow> obs (en_kv en) (bp_db b) Tx_Id_To_Acceptance k = None"
    and "obs (en_kv en) (bp_db b) Tx_Output0_Owner t = None"
  shows "\<exists>owner. output0_address (en_kp en) tx = Ok owner \<and> resolve_sender en (bp_db b') (bp_db b') (t, 0) = Ok owner"
proof -
  have "indexer en" using assms(1) by (simp add: crates_indexer)
  then show ?thesis by (rule indexer.sender_of_spend [OF _ assms(2-5)]) (use assms(6,7) in blast)+
qed

lemma sample_script: "address_of_script sample_kaspa (kp_pay_to sample_kaspa (sample_hash n)) = Ok (sample_address n)"
  using sample_pays by (simp add: payload_of_def)

lemma typed_empty [simp]: "typed mem_kv empty_index" "one_record mem_kv empty_index"
  by (simp_all add: typed_def one_record_def)

theorem sender_exact_witness:
  "\<exists>b. handle_transaction sample_env empty_index (sample_header 1) sample_tx empty_bp = Ok b \<and>
    resolve_sender sample_env (bp_db b) (bp_db b) (sample_hash 0x22, 0) = Ok (Some (sample_address 2))"
proof -
  obtain b where b: "handle_transaction sample_env empty_index (sample_header 1) sample_tx empty_bp = Ok b"
    using sample.transaction_total [of empty_index empty_bp sample_tx "sample_header 1"] sample_block_ok by auto
  have "output0_address sample_kaspa sample_tx = Ok (Some (sample_address 2))"
    by (simp add: output0_address_def sample_tx_def sample_script)
  with sender_exact [OF sample_crates b, of "sample_hash 0x22"] b show ?thesis
    using sample_comm_parses by (auto simp: sample_block_ok sample_tx_def)
qed



text \<open>C11: On a well-formed index in which every transaction has one acceptance record, no block fails: a block
  whose hashes are hashes and whose transactions have inputs and ids is indexed without an error
  and without a panic, whatever its payloads and scripts are.\<close>

theorem blocks_never_fail:
  assumes "crates_ok en" and "typed (en_kv en) (bp_db b)" and "one_record (en_kv en) (bp_db b)" and "block_complete en blk"
  shows "\<exists>b'. handle_block en (bp_db b) blk b = Ok b'"
  using indexer.block_total [OF _ assms(2-4)] assms(1) by (simp add: crates_indexer)

theorem blocks_never_fail_witness:
  "\<exists>b'. handle_block sample_env empty_index sample_block empty_bp = Ok b'"
proof -
  have "block_complete sample_env sample_block"
    using sample_block_ok by (simp add: block_complete_def sample_block_def)
  then show ?thesis using blocks_never_fail [OF sample_crates, of empty_bp sample_block] by simp
qed

text \<open>C20: Completing a message never panics: on a well-formed index in which every transaction has one
  acceptance record, the arrival of any sender's address for a transaction with a record is handled
  without reaching any of the resolver's \<open>unreachable\<close>, \<open>unwrap\<close> and slice panics.\<close>

theorem resolution_never_panics:
  assumes "crates_ok en" and "typed (en_kv en) d" and "one_record (en_kv en) d" and "length t = 32"
    and "starts_with t k" and "obs (en_kv en) d Tx_Id_To_Acceptance k \<noteq> None"
  shows "handle_sender_address en a t daa d \<noteq> Panic"
  using indexer.resolve_no_panic [OF _ assms(2-4)] assms(1,5,6) by (auto simp: crates_indexer)

lemma sample_record:
  assumes "d = acceptance_insert mem_kv \<lparr>ak_tx_id = sample_hash 7, ak_receiver = sample_address 2\<rparr> [] empty_index"
  shows "typed mem_kv d" "one_record mem_kv d"
    "obs mem_kv d Tx_Id_To_Acceptance (ak_bytes \<lparr>ak_tx_id = sample_hash 7, ak_receiver = sample_address 2\<rparr>) = Some zero_header"
proof -
  let ?k = "\<lparr>ak_tx_id = sample_hash 7, ak_receiver = sample_address 2\<rparr>"
  have "ak_ok ?k" by (simp add: ak_ok_def)
  then have "index_write sample_env empty_index d" using index_write.enter [of ?k "[]" sample_env] by (simp add: assms)
  from sample.typed_write [OF this] show "typed mem_kv d" by simp
  have "obs mem_kv d = (obs mem_kv empty_index)(Tx_Id_To_Acceptance := [ak_bytes ?k \<mapsto> zero_header])"
    by (simp add: assms sample.obs_acceptance_insert [unfolded sample_env_simps] fun_eq_iff)
  then show "one_record mem_kv d" "obs mem_kv d Tx_Id_To_Acceptance (ak_bytes ?k) = Some zero_header"
    by (simp_all add: one_record_def)
qed

theorem resolution_never_panics_witness:
  "handle_sender_address sample_env (sample_hash 3) (sample_hash 7) 8
     (acceptance_insert mem_kv \<lparr>ak_tx_id = sample_hash 7, ak_receiver = sample_address 2\<rparr> [] empty_index) \<noteq> Panic"
proof -
  let ?k = "\<lparr>ak_tx_id = sample_hash 7, ak_receiver = sample_address 2\<rparr>"
  note r = sample_record [OF refl]
  have "starts_with (sample_hash 7) (ak_bytes ?k)" by (simp add: ak_ok_def)
  then show ?thesis
    using resolution_never_panics [OF sample_crates, unfolded sample_env_simps, OF r(1,2) _ _, of "sample_hash 7" "ak_bytes ?k"] r(3)
    by simp
qed

text \<open>C33: A transaction is stored under the receiver its sender suggests. When it is met in two blocks, once
  before its sender is known and once after, and the two receivers differ, it gets two acceptance
  records; from then on the virtual chain processor panics on the block that accepts it, because the
  lookup by transaction id asserts that there is one.\<close>

theorem same_tx_two_receivers:
  assumes "crates_ok en" and "handle_transaction en c h tx b = Ok b1" and "handle_transaction en c' h' tx b2 = Ok b3"
    and "records_kept (en_kv en) (bp_db b1) (bp_db b2)"
    and "rt_verbose_id tx = Some t" and "length t = 32" and "parse_sealed_operation (rt_payload tx) = Some op"
    and "rt_inputs tx = i # rest"
    and "resolve_sender en c (bp_db b) i = Ok None" and "resolve_sender en c' (bp_db b2) i = Ok (Some s)"
    and "resolve_primary_receiver (en_kp en) (rt_outputs tx) None = Ok (x, r)"
    and "resolve_primary_receiver (en_kp en) (rt_outputs tx) (Some s) = Ok (x', r')" and "r \<noteq> r'"
    and "ve_env ve = en"
  shows "track_acceptance ve (bp_db b3) abh daa t w = Panic"
proof -
  have "indexer en" using assms(1) by (simp add: crates_indexer)
  from indexer.two_records [OF this assms(2-13)] have "acceptance_key_of (en_kv en) (bp_db b3) t = Panic" .
  then show ?thesis using assms(14) by (simp add: track_acceptance_def case_prod_unfold)
qed

text \<open>A block that holds a payment to address 3 and a message it funds, with change to 3 before the receiver 2.\<close>

definition sample_parent :: rpc_tx where
  "sample_parent = \<lparr>rt_inputs = [(sample_hash 0x21, 0)], rt_outputs = [(5, kp_pay_to sample_kaspa (sample_hash 3))],
     rt_payload = sample_comm, rt_verbose_id = Some (sample_hash 0x23)\<rparr>"

definition sample_child :: rpc_tx where
  "sample_child = \<lparr>rt_inputs = [(sample_hash 0x23, 0)],
     rt_outputs = [(5, kp_pay_to sample_kaspa (sample_hash 3)), (6, kp_pay_to sample_kaspa (sample_hash 2))],
     rt_payload = sample_comm, rt_verbose_id = Some (sample_hash 0x24)\<rparr>"

lemma sample_no_key: "(\<And>k. starts_with t k \<Longrightarrow> obs mem_kv d Tx_Id_To_Acceptance k = None) \<Longrightarrow>
    resolve_sender sample_env d d' (t, 0) = Ok None"
  by (simp add: resolve_sender_def acceptance_key_of_def sample.key_by_tx_id_None [unfolded sample_env_simps] obs_def)

lemma sample_distinct [simp]: "sample_hash a = sample_hash b \<longleftrightarrow> a = b" "sample_address a = sample_address b \<longleftrightarrow> a = b"
  by (auto simp: sample_hash_def sample_address_def replicate_eq_replicate)

lemma sample_receivers:
  "resolve_primary_receiver sample_kaspa (rt_outputs sample_child) None = Ok (5, sample_address 3)"
  "resolve_primary_receiver sample_kaspa (rt_outputs sample_child) (Some (sample_address 3)) = Ok (6, sample_address 2)"
  "resolve_primary_receiver sample_kaspa (rt_outputs sample_parent) sender = Ok (5, sample_address 3)"
  "output0_address sample_kaspa sample_parent = Ok (Some (sample_address 3))"
  "output0_address sample_kaspa sample_child = Ok (Some (sample_address 3))"
  by (cases sender; simp add: resolve_primary_receiver_def payees_def sample_child_def sample_parent_def sample_script
      output0_address_def)+

theorem same_tx_two_receivers_witness:
  "\<exists>b1 b2 b3. handle_transaction sample_env empty_index (sample_header 1) sample_parent empty_bp = Ok b1 \<and>
    handle_transaction sample_env empty_index (sample_header 1) sample_child b1 = Ok b2 \<and>
    handle_transaction sample_env (bp_db b2) (sample_header 2) sample_child b2 = Ok b3 \<and>
    track_acceptance sample_ve (bp_db b3) (sample_hash 4) 8 (sample_hash 0x24) ([], bp_db b3, []) = Panic"
proof -
  let ?p = "\<lparr>ak_tx_id = sample_hash 0x23, ak_receiver = sample_address 3\<rparr>"
  let ?k = "\<lparr>ak_tx_id = sample_hash 0x24, ak_receiver = sample_address 3\<rparr>"
  have tx: "tx_ok sample_env sample_parent" "tx_ok sample_env sample_child"
    "rt_inputs sample_parent = [(sample_hash 0x21, 0)]" "rt_inputs sample_child = [(sample_hash 0x23, 0)]"
    "rt_verbose_id sample_parent = Some (sample_hash 0x23)" "rt_verbose_id sample_child = Some (sample_hash 0x24)"
    "rt_payload sample_parent = sample_comm" "rt_payload sample_child = sample_comm"
    by (simp_all add: sample_parent_def sample_child_def tx_ok_def sample_env_def)
  note total = sample.transaction_total [unfolded sample_env_simps]
  note recorded = sample.transaction_record [unfolded sample_env_simps]
  obtain b1 where b1: "handle_transaction sample_env empty_index (sample_header 1) sample_parent empty_bp = Ok b1"
    and t1: "typed mem_kv (bp_db b1)"
    using total [of empty_index empty_bp sample_parent "sample_header 1"] tx by auto
  obtain b2 where b2: "handle_transaction sample_env empty_index (sample_header 1) sample_child b1 = Ok b2"
    and t2: "typed mem_kv (bp_db b2)"
    using total [of empty_index b1 sample_child "sample_header 1"] t1 tx by auto
  have r1: "\<exists>v. obs mem_kv (bp_db b1) Tx_Id_To_Acceptance = [ak_bytes ?p \<mapsto> v] \<and> obs mem_kv (bp_db b1) Tx_Output0_Owner = Map.empty"
    by (rule recorded [OF b1 tx(5) _ sample_comm_parses [folded tx(7)]])
      (auto simp: sample_receivers fun_eq_iff)
  have none: "resolve_sender sample_env empty_index d (sample_hash 0x23, 0) = Ok None" for d
    by (rule sample_no_key) simp
  have r2: "\<exists>v. obs mem_kv (bp_db b2) Tx_Id_To_Acceptance = (obs mem_kv (bp_db b1) Tx_Id_To_Acceptance)(ak_bytes ?k \<mapsto> v) \<and>
      obs mem_kv (bp_db b2) Tx_Output0_Owner = obs mem_kv (bp_db b1) Tx_Output0_Owner"
    by (rule recorded [OF b2 tx(6) _ sample_comm_parses [folded tx(8)]])
      (auto simp: sample_receivers tx none)
  obtain v w where rows: "obs mem_kv (bp_db b2) Tx_Id_To_Acceptance = [ak_bytes ?p \<mapsto> v, ak_bytes ?k \<mapsto> w]"
    and owners: "obs mem_kv (bp_db b2) Tx_Output0_Owner = Map.empty"
    using r1 r2 by auto
  have keys: "ak_ok ?p" "ak_ok ?k" by (simp_all add: ak_ok_def)
  have get: "hm_get (bp_db b2 p) = obs mem_kv (bp_db b2) p" for p by (simp add: obs_def fun_eq_iff)
  have one: "one_record mem_kv (bp_db b2)"
    using keys by (auto simp: one_record_def rows ak_bytes_def split: if_splits)
  obtain b3 where b3: "handle_transaction sample_env (bp_db b2) (sample_header 2) sample_child b2 = Ok b3"
    using total [of "bp_db b2" b2 sample_child "sample_header 2"] t2 one tx by auto
  have "acceptance_key_of mem_kv (bp_db b2) (sample_hash 0x23) = Ok (Some ?p)"
    unfolding acceptance_key_of_def
    by (rule sample.key_by_tx_id_found [unfolded sample_env_simps]) (use keys in \<open>auto simp: get rows split: if_splits\<close>)
  then have "resolve_sender sample_env (bp_db b2) (bp_db b2) (sample_hash 0x23, 0) = Ok (Some (sample_address 3))"
    by (simp add: resolve_sender_def output0_get_def get owners output0_owner_def)
  moreover have "records_kept mem_kv (bp_db b2) (bp_db b2)" by (simp add: records_kept_def)
  ultimately have "track_acceptance sample_ve (bp_db b3) (sample_hash 4) 8 (sample_hash 0x24) ([], bp_db b3, []) = Panic"
    using same_tx_two_receivers [OF sample_crates b2 b3, unfolded sample_env_simps, OF _ tx(6) _ sample_comm_parses [folded tx(8)]
        tx(4) none _ sample_receivers(1) sample_receivers(2), of sample_ve] by simp
  with b1 b2 b3 show ?thesis by blast
qed

section \<open>Readers\<close>

definition receiver_rows :: "'s kv \<Rightarrow> 's keyspace \<Rightarrow> partition \<Rightarrow> address_payload \<Rightarrow> u64 \<Rightarrow> (bytes \<times> bytes) set" where
  "receiver_rows kv d p a from =
     {(k, v). obs kv d p k = Some v \<and>
        (\<exists>key. rk_read k = Some key \<and> rk_receiver key = a \<and> from \<le> rk_block_time key \<and> rk_block_time key \<noteq> - 1)}"

text \<open>C27: Reading by receiver is exact: on a well-formed index the handshakes, payments and group control
  messages a reader gets are the rows stored for that receiver at or after the given time, all of
  them and nothing else, save those stamped with the largest time, which the range leaves out.\<close>

theorem receiver_queries_exact:
  assumes "crates_ok en" and "typed (en_kv en) d" and "address_ok a"
  shows "set (handshakes_by_receiver (en_kv en) (d Handshake_By_Receiver) a from) = receiver_rows (en_kv en) d Handshake_By_Receiver a from \<and>
    set (payments_by_receiver (en_kv en) (d Payment_By_Receiver) a from) = receiver_rows (en_kv en) d Payment_By_Receiver a from \<and>
    set (group_control_by_recipient (en_kv en) (d Group_Control_By_Recipient) a from) =
      receiver_rows (en_kv en) d Group_Control_By_Recipient a from"
proof -
  have "indexer en" using assms(1) by (simp add: crates_indexer)
  then have eng: "engine (en_kv en)" by (simp add: indexer_def engine_def)
  have "set (time_scan (en_kv en) (address_bytes a) from (d p)) = receiver_rows (en_kv en) d p a from"
    if "p \<in> {Handshake_By_Receiver, Payment_By_Receiver, Group_Control_By_Recipient}" for p
  proof -
    have "length k = 107" if "kv_get (en_kv en) (d p) k = Some v" for k v
      using typedD [OF assms(2), of p k v] that \<open>p \<in> _\<close> by (auto simp: obs_def)
    from engine.receiver_scan [OF eng this assms(3)] show ?thesis by (auto simp: receiver_rows_def obs_def)
  qed
  then show ?thesis by (simp add: handshakes_by_receiver_def payments_by_receiver_def group_control_by_recipient_def)
qed

theorem receiver_queries_exact_witness:
  "set (handshakes_by_receiver mem_kv (empty_index Handshake_By_Receiver) (sample_address 2) 5) = {}"
  using receiver_queries_exact [OF sample_crates, of empty_index "sample_address 2" 5] by (simp add: receiver_rows_def)

section \<open>The virtual chain\<close>


definition sample_vp :: "((bytes, bytes) hash_map, (bytes \<times> u64 \<times> blue_work) list) vp" where
  "sample_vp = vp_new sample_ve empty_index [\<lparr>ch_block_hash = sample_hash 1, ch_blue_work = 9, ch_daa_score = 7\<rparr>] True"





text \<open>C5: The two ends of the syncer's conversation never surprise each other: in every reachable state of the
  processor, its syncers and the messages between them, an acknowledgement never meets the syncer's
  \<open>unreachable\<close>, and a message of a syncer makes the processor panic only if it carries a chain part that
  adds nothing or that cannot be applied, never because it comes from the wrong syncer, in the wrong
  state or while another part is queued.\<close>

theorem sync_assertions_hold:
  assumes "chain_reachable ve s"
  shows "(\<forall>i a rest. cs_acks s i = a # rest \<longrightarrow> syncer_ack (cs_syncers s i) a \<noteq> Panic) \<and>
    (\<forall>msg rest. cs_inbox s = msg # rest \<longrightarrow> process_step ve msg (cs_vp s) = Panic \<longrightarrow>
      (\<exists>i vcc. msg = VirtualChain i vcc \<and> \<not> vcc_empty vcc \<and> (vc_added vcc = [] \<or> handle_vcc ve vcc (cs_vp s) = Panic)))"
  using ack_no_panic [OF assms] message_no_panic [OF assms] by blast

text \<open>A first connection, and the syncer it starts.\<close>

definition sample_started :: "((bytes, bytes) hash_map, bytes, (bytes \<times> u64 \<times> blue_work) list) chain_system" where
  "sample_started = processed True
     (start_syncer 0 (sample_hash 5, 0) (sample_hash 1, 9) sample_vp) (chain_start sample_vp)"

lemma sample_started_reachable: "chain_reachable sample_ve sample_started"
proof -
  have "chain_reachable sample_ve (chain_start sample_vp)" unfolding sample_vp_def by (rule chain_reachable.start)
  moreover have "process_step sample_ve (Connected (sample_hash 1) 9 (sample_hash 5)) sample_vp =
      Ok (True, start_syncer 0 (sample_hash 5, 0) (sample_hash 1, 9) sample_vp)"
    by (simp add: process_step_def handle_connect_def request_pending_def get_all_pending_def
        get_latest_accepting_cursor_def sample_vp_def vp_new_def empty_index_def mem_iter_def)
  then have "chain_step sample_ve (chain_start sample_vp) sample_started"
    unfolding sample_started_def
    by (intro chain_step.input [of "chain_start sample_vp" "Connected (sample_hash 1) 9 (sample_hash 5)"])
      (simp_all add: chain_start_def)
  ultimately show ?thesis by (rule chain_reachable.step)
qed

text \<open>The syncer's first answer adds nothing; the processor acknowledges it.\<close>

definition nothing_new :: vcc where
  "nothing_new = \<lparr>vc_removed = [], vc_added = [], vc_accepted = []\<rparr>"

definition sample_answered :: "((bytes, bytes) hash_map, bytes, (bytes \<times> u64 \<times> blue_work) list) chain_system" where
  "sample_answered = sample_started
     \<lparr>cs_syncers := (cs_syncers sample_started)(0 := Awaiting (sample_hash 5)),
      cs_inbox := cs_inbox sample_started @ [VirtualChain 0 nothing_new]\<rparr>"

definition sample_acked :: "((bytes, bytes) hash_map, bytes, (bytes \<times> u64 \<times> blue_work) list) chain_system" where
  "sample_acked = processed True (emit (SendAck 0 Continue) (cs_vp sample_answered)) (sample_answered\<lparr>cs_inbox := []\<rparr>)"

lemmas sample_chain_defs = sample_started_def processed_def start_syncer_def emit_def sample_vp_def vp_new_def chain_start_def

lemma sample_started_view:
  "cs_syncers sample_started 0 = Requesting (sample_hash 5)" "cs_inbox sample_started = []" "cs_running sample_started"
  "vp_sync (cs_vp sample_started) = Syncing (sample_hash 5, 0) 0 (sample_hash 1, 9) None"
  "cs_acks sample_started 0 = []" "vp_outs (cs_vp sample_started) = []"
  by (simp_all add: sample_chain_defs)

lemma sample_answered_view:
  "cs_syncers sample_answered 0 = Awaiting (sample_hash 5)" "cs_inbox sample_answered = [VirtualChain 0 nothing_new]"
  "cs_running sample_answered" "cs_acks sample_answered 0 = []" "cs_vp sample_answered = cs_vp sample_started"
  by (simp_all add: sample_answered_def sample_started_view)

lemma sample_acked_view:
  "cs_syncers sample_acked 0 = Awaiting (sample_hash 5)" "cs_acks sample_acked 0 = [Continue]"
  by (simp_all add: sample_acked_def processed_def emit_def sample_answered_view sample_started_view)

lemma sample_answered_reachable: "chain_reachable sample_ve sample_answered"
proof -
  have "chain_step sample_ve sample_started sample_answered"
    unfolding sample_answered_def
    by (rule chain_step.response [where r = nothing_new]) (simp_all add: sample_started_view next_from_def nothing_new_def)
  then show ?thesis by (rule chain_reachable.step [OF sample_started_reachable])
qed

lemma sample_acked_reachable: "chain_reachable sample_ve sample_acked"
proof -
  have "process_step sample_ve (VirtualChain 0 nothing_new) (cs_vp sample_answered) =
      Ok (True, emit (SendAck 0 Continue) (cs_vp sample_answered))"
    by (simp add: process_step_def handle_syncer_vc_def sample_answered_view sample_started_view nothing_new_def vcc_empty_def)
  then have "chain_step sample_ve sample_answered sample_acked"
    unfolding sample_acked_def by (rule chain_step.message [rotated 2]) (simp_all add: sample_answered_view)
  then show ?thesis by (rule chain_reachable.step [OF sample_answered_reachable])
qed

theorem sync_assertions_hold_witness:
  "process_step sample_ve (VirtualChain 0 nothing_new) (cs_vp sample_answered) \<noteq> Panic \<and>
   syncer_ack (cs_syncers sample_acked 0) Continue \<noteq> Panic"
  using sync_assertions_hold [OF sample_answered_reachable] sync_assertions_hold [OF sample_acked_reachable]
  by (auto simp: sample_answered_view sample_acked_view nothing_new_def vcc_empty_def)



section \<open>Gaps\<close>



text \<open>C4: A gap leaves the database only when it is filled: whatever the loop receives, the row of a gap can
  disappear only in the step that takes the final delivery for it, and then every block of that
  delivery has its header in the index.\<close>

theorem gap_closed_only_when_filled:
  assumes "crates_ok en" and "loop_step en input st = Ok st'"
    and "obs (en_kv en) (bp_db (bl_bp st)) Block_Gaps to \<noteq> None" and "obs (en_kv en) (bp_db (bl_bp st')) Block_Gaps to = None"
  shows "\<exists>blocks. input = GapFilling (GapFinished to blocks) \<and> blocks \<noteq> [] \<and>
    (\<forall>b \<in> set blocks. obs (en_kv en) (bp_db (bl_bp st')) Block_Compact_Header (block_hash b) \<noteq> None)"
proof -
  have "indexer en" using assms(1) by (simp add: crates_indexer)
  from indexer.gap_closed [OF this assms(2-4)] show ?thesis .
qed

text \<open>The sample block with no transactions, delivered for a gap that ends at it.\<close>

theorem gap_closed_only_when_filled_witness:
  "\<exists>st. loop_step sample_env (GapFilling (GapFinished (sample_hash 1) [sample_block\<lparr>rb_transactions := []\<rparr>]))
      (loop_new (empty_bp\<lparr>bp_db := add_gap mem_kv \<lparr>bg_from = sample_hash 9, bg_to = sample_hash 1\<rparr> empty_index\<rparr>)) = Ok st \<and>
    obs mem_kv (bp_db (bl_bp st)) Block_Compact_Header (sample_hash 1) \<noteq> None"
proof -
  let ?d = "add_gap mem_kv \<lparr>bg_from = sample_hash 9, bg_to = sample_hash 1\<rparr> empty_index"
  let ?b = "empty_bp\<lparr>bp_db := ?d\<rparr>" and ?blk = "sample_block\<lparr>rb_transactions := []\<rparr>"
  have "typed mem_kv ?d" "one_record mem_kv ?d" by (auto simp: typed_def one_record_def add_gap_def split: if_splits)
  moreover have "block_complete sample_env ?blk" by (simp add: block_complete_def block_ok_def sample_block_def)
  ultimately obtain b where "handle_block sample_env ?d ?blk ?b = Ok b"
    using sample.block_total [of ?b ?blk] by auto
  then obtain st where st: "loop_step sample_env (GapFilling (GapFinished (sample_hash 1) [?blk])) (loop_new ?b) = Ok st"
    and "bp_db (bl_bp st) = remove_gap mem_kv (sample_hash 1) (bp_db b)"
    by (simp add: loop_step_def loop_progress_def finish_gap_def commit_block_def loop_new_def Let_def on_index_def on_bp_def)
  then have "obs mem_kv (bp_db (bl_bp st)) Block_Gaps (sample_hash 1) = None" by (simp add: remove_gap_def)
  moreover have "obs mem_kv (bp_db (bl_bp (loop_new ?b))) Block_Gaps (sample_hash 1) \<noteq> None"
    by (simp add: loop_new_def add_gap_def)
  ultimately have "obs mem_kv (bp_db (bl_bp st)) Block_Compact_Header (block_hash ?blk) \<noteq> None"
    using gap_closed_only_when_filled [OF sample_crates st, of "sample_hash 1"] by auto
  with st show ?thesis by (auto simp: sample_block_def sample_header_def)
qed


section \<open>Maintenance\<close>

text \<open>C22: Pruning forgets exactly the blocks below the threshold: the rows of the DAA index with a smaller
  score go, with them the header and the accepted transactions of each block such a row names, and
  every other row of every partition stays, whatever the virtual DAA score and the depth are.\<close>

theorem prune_exact:
  assumes "crates_ok en" and "typed (en_kv en) d"
  shows "\<exists>n d'. prune (en_kv en) virtual_daa pruning_depth d = Ok (n, d') \<and>
    (\<forall>k. obs (en_kv en) d' Daa_Index_Compact_Header k =
       (if k < be64 (prune_threshold virtual_daa pruning_depth) then None else obs (en_kv en) d Daa_Index_Compact_Header k)) \<and>
    (\<forall>p \<in> {Block_Compact_Header, Accepting_Block_To_Tx_Id}. \<forall>h. obs (en_kv en) d' p h =
       (if \<exists>t w. length h = 32 \<and> length w = 24 \<and> t < prune_threshold virtual_daa pruning_depth \<and>
           obs (en_kv en) d Daa_Index_Compact_Header (daa_key_bytes t h w) \<noteq> None
        then None else obs (en_kv en) d p h)) \<and>
    (\<forall>p. p \<notin> {Daa_Index_Compact_Header, Block_Compact_Header, Accepting_Block_To_Tx_Id} \<longrightarrow>
       obs (en_kv en) d' p = obs (en_kv en) d p)"
proof -
  have "engine (en_kv en)" using assms(1) by (simp add: crates_ok_def engine_def)
  from engine.prune_obs [OF this assms(2)] show ?thesis .
qed

theorem prune_exact_witness:
  "\<exists>b n d. handle_block sample_env empty_index sample_block empty_bp = Ok b \<and> prune mem_kv 100 10 (bp_db b) = Ok (n, d) \<and>
    (\<forall>k. k < be64 90 \<longrightarrow> obs mem_kv d Daa_Index_Compact_Header k = None)"
proof -
  obtain b where b: "handle_block sample_env empty_index sample_block empty_bp = Ok b" "index_reachable sample_ve (bp_db b)"
    using sample_block_reached by blast
  from sample.reachable_typed [OF b(2)] have "typed mem_kv (bp_db b)" by simp
  from prune_exact [OF sample_crates, unfolded sample_env_simps, OF this, of 100 10] b(1) show ?thesis
    by (auto simp: prune_threshold_def)
qed







end
