(* ===== verification/Spec2Isabelle.thy ===== *)
theory Spec2Isabelle
  imports Names_Properties Protocol Chess_Properties Index_Properties
begin

text \<open>
  The KaChat indexer: a model of the repository's own logic and the theorems that make it correct.

  \<^bold>\<open>The program.\<close> KaChat is a chat, a names registry and a chess arena that live in the payloads and
  scripts of transactions of the Kaspa block DAG. Nothing is kept on a server that cannot be computed
  again from the chain, so each part of the repository is a reducer: it reads blocks and the virtual
  chain in order and builds an index. Four parts carry the logic and are modelled.

  \<^enum> \<^bold>\<open>The names crate\<close> (\<open>kachat-names/src\<close>), a registry of names, offers and gaps between names that are
    UTXOs locked by pinned contracts. \<open>Codec\<close> is \<open>lib.rs\<close> (keys, P2SH scripts, fixed-width integers, minimal
    pushes, the encodings of the four states); \<open>Transition\<close> is \<open>transition.rs\<close> (contracts, dispatch tags,
    the states an entry produces); \<open>Profile\<close> is \<open>profile.rs\<close>; \<open>Templates\<close> and \<open>Ingest\<close> are \<open>ingest.rs\<close>
    (templates from a manifest, \<open>apply_tx\<close> against the tracked UTXOs, the undo journal); \<open>Rollback\<close> is the
    undoing of a removed block; \<open>Follower\<close> is \<open>follower.rs\<close>, the loop over batches of the virtual chain.
  \<^enum> \<^bold>\<open>The chat protocol\<close> (\<open>kasia-indexer/protocol/src\<close>). \<open>Protocol\<close> recognises the sealed operations in a
    payload (\<open>operation.rs\<close>, \<open>operation/deserializer.rs\<close>).
  \<^enum> \<^bold>\<open>The chat indexer\<close> (\<open>kasia-indexer/indexer-db/src\<close>, \<open>kasia-indexer/indexer-actors/src\<close>). Storage:
    \<open>Kv\<close> (the engine as an interface), \<open>Index_Keys\<close> (addresses, packed keys, range scans), \<open>Acceptance\<close>
    (\<open>processing/tx_id_to_acceptance.rs\<close>), \<open>Index_Db\<close> (every write of every partition). Actors:
    \<open>Block_Processor\<close> (\<open>block_processor.rs\<close>: \<open>handle_block\<close>, \<open>handle_transaction\<close> and a handler for each
    operation), \<open>Block_Loop\<close> (its main loop, gaps, and \<open>block_gap_filler.rs\<close>), \<open>Sender_Resolution\<close>,
    \<open>Virtual_Chain\<close> (\<open>virtual_chain_processor.rs\<close>), \<open>Chain_Sync\<close> (\<open>virtual_chain_syncer.rs\<close> and its
    conversation with the processor), \<open>Maintenance\<close> (pruning of \<open>periodic_processor.rs\<close>, \<open>migration.rs\<close>).
  \<^enum> \<^bold>\<open>The chess arena\<close> (\<open>kachat-webserver/src/chess.rs\<close>). \<open>Chess_Rules\<close> is the rules engine,
    \<open>Chess_Tournament\<close> the reducer of rooms, brackets and clocks, \<open>Chess_Boards\<close> the answers of the server
    (leaderboards, lobby, boards of games against bots).

  \<open>Prelude\<close>, \<open>Rust_Std\<close>, \<open>Rust_Strings\<close> and \<open>Rust_Result\<close> hold what the source takes from the language and
  its standard library; \<open>Store\<close> and \<open>Replay\<close> the contracts of a hash map and of a replay.

  \<^bold>\<open>How the parts interact.\<close> The block processor learns of a transaction before the chain has accepted
  it. It stores what it knows, and if the sender is unknown, because the parent's output 0 has not been
  seen, it leaves in the acceptance record the rows to be written later. The virtual chain processor
  then learns which block accepted the transaction, asks the node for the sender, and carries the
  entries out (\<open>handle_sender_address\<close>). The two share the partitions of \<open>Index_Db\<close> and work in write
  transactions: a transaction that meets a conflict leaves no trace and is run again, so a handler is a
  function from the state its transaction reads to the state it leaves. The virtual chain processor
  catches up through a syncer, a task that hands it parts of the chain over a channel and waits for an
  acknowledgement; the model is a step relation of processor, syncers and channel. The names follower
  and the arena share nothing with the chat index but the language of the chain.

  \<^bold>\<open>Data and effects.\<close> A struct is a record and an enum a datatype with the source's variants; integers are
  words of their width, read with \<open>unat\<close> or \<open>sint\<close>, where wrap-around or order matters, and integers with
  the bound stated where the source cannot reach it (squares of the board, milliseconds of the arena).
  Strings and slices are lists of bytes. A function that can fail returns an option, a sum or a \<open>res\<close>,
  whose \<open>Panic\<close> is a failed assertion, an unwrap of nothing or a slice out of range: that no block panics is
  a theorem, not an assumption. A hash map is an association list whose order stands for any order in
  which the source may iterate, and the theorems hold for every such list.

  \<^bold>\<open>What the lemmas show.\<close>
  \<^item> \<open>Names_Properties\<close>: the encodings round-trip; \<open>apply_tx\<close> consumes the tracked outputs the transaction
    spends and nothing else, and tracks only outputs whose script is the hash of the state it records;
    undoing the blocks of a removed segment, newest first, restores the registry (\<open>Rollback\<close>, \<open>Follower\<close>).
  \<^item> \<open>Protocol\<close>: what the parser accepts and keeps, both ways.
  \<^item> \<open>Index_Writes\<close> and \<open>Index_Steps\<close> read every handler of the index as a sequence of abstract writes, so
    that an invariant is checked once against the writes. \<open>Index_Life\<close> is the index that starts empty and
    lives through blocks, chain changes, senders, gaps and pruning in any order. \<open>Index_Total\<close> shows that
    no handler panics on such an index; \<open>Deferred\<close> and \<open>Index_Facts\<close> that a deferred operation ends in the
    rows an immediate one writes; \<open>Chain_Facts\<close> and \<open>Loop_Facts\<close> speak of cursors, gaps, fillers and
    migration. The properties are in \<open>Index_Properties\<close>.
  \<^item> \<open>Chess_Invariant\<close> proves the invariant of legal positions, \<open>Chess_Reducer\<close> that of rooms, games and
    brackets through two contracts on actions, \<open>Chess_Leaderboard\<close> and \<open>Chess_Bots\<close> what boards count,
    \<open>Calendar\<close> the month arithmetic against the Gregorian calendar. The properties are in
    \<open>Chess_Properties\<close>.

  \<^bold>\<open>Interfaces.\<close> Each contract between parts is a locale interpreted on the model's definitions: the hash
  map (\<open>Store\<close>), the storage engine and its laws (\<open>Kv\<close>, provided by an engine in memory), the journal
  undone block by block (\<open>Rollback\<close>, provided by the registry and by the profile applier), the replay of
  sorted rows (\<open>Replay\<close>), the actions on a game and on a room (\<open>Chess_Reducer\<close>).

  \<^bold>\<open>Parameters.\<close> What is not under \<open>src\<close> is an argument of the definitions: the hash and curve functions and
  the address encodings of the Kaspa crates, \<open>serde_json\<close>, the storage engine \<open>fjall\<close>, the script classes
  of \<open>kaspa_txscript\<close>, the map that keeps insertion order, and the answers of the node. What a theorem needs
  of them it names: a hash has 32 bytes, an address payload survives its encoding, the engine
  satisfies the laws of \<open>Kv\<close>. The witnesses instantiate them with concrete functions.

  \<^bold>\<open>Bounds and fuel.\<close> The two loops of the rules engine that walk along a line of the board carry a bound of
  eight steps, which no line exceeds. The follower's loop and the gap filler take one element of a list per
  round (a batch, an answer of the node with what interrupts it), and the theorems about them say how
  many rounds are enough. Counters that the source lets wrap, \<open>gaps_filling_in_progress\<close> above all, wrap
  in the model, which is where one of its findings comes from. All other recursion is on the data.

  \<^bold>\<open>Not modelled.\<close>
  \<^item> The RPC data source, tickers, metrics and start-up of the chat indexer: sockets, timers and channels
    around the processors. What reaches a processor is a message in the model, in any order.
  \<^item> The push registry and the deliveries to APNs, FCM and web push, whose content is HTTP, signatures and
    JSON of services outside the repository.
  \<^item> The HTTP handlers of the chat indexer and of the web server: they parse parameters, run a scan that
    is modelled, or an SQL query, and print JSON.
  \<^item> The social API of the web server and the transaction processor, whose logic is in SQL statements that
    PostgreSQL executes, and the services around the names crate and the admin pages.
  \<^item> Log lines and the clocks that only decide when one is written.
\<close>

end
